(* ===== verification/Prelude.thy ===== *)
theory Prelude
  imports Main "HOL-Library.Word" "HOL-Library.Signed_Division"
begin

text \<open>
  Shared vocabulary of the development: the faults of the C++ abstract machine as values, the
  sequencing combinator of fallible state transformers, C character buffers (\<open>vsnprintf\<close>,
  \<open>strcat\<close>, C strings), the \<open>printf\<close> conversions the program uses, and byte-addressed
  memory made of separate blocks.
\<close>

named_theorems unfold_ops \<open>definitions of the operations, to be unfolded by case proofs\<close>
named_theorems frame \<open>what an operation leaves untouched\<close>

type_synonym byte = "8 word"

section \<open>Faults and sequencing\<close>

text \<open>
  What C++ leaves undefined or reports by an exception is a value of the model: access through a
  pointer to a destroyed object, dereference of a null pointer, and the call of an empty
  \<open>boost::function\<close> (which throws \<open>boost::bad_function_call\<close>).
\<close>

datatype fault = Dangling | Null_deref | Bad_function_call

definition bindS :: "'e + 'a \<Rightarrow> ('a \<Rightarrow> 'e + 'b) \<Rightarrow> 'e + 'b" where
  "bindS m k = (case m of Inl e \<Rightarrow> Inl e | Inr a \<Rightarrow> k a)"

lemma bindS_simps [simp]:
  "bindS (Inl e) k = Inl e"
  "bindS (Inr a) k = k a"
  by (simp_all add: bindS_def)

lemma bindS_assoc: "bindS (bindS m f) g = bindS m (\<lambda>x. bindS (f x) g)"
  by (cases m) simp_all

lemma bindS_if: "bindS (if b then x else y) k = (if b then bindS x k else bindS y k)"
  by simp

lemma bindS_eq_Inr: "bindS m k = Inr b \<longleftrightarrow> (\<exists>a. m = Inr a \<and> k a = Inr b)"
  by (cases m) simp_all

lemma bindS_cong [fundef_cong]:
  "m = m' \<Longrightarrow> (\<And>a. m' = Inr a \<Longrightarrow> k a = k' a) \<Longrightarrow> bindS m k = bindS m' k'"
  by (cases m') simp_all

definition deref :: "'a option \<Rightarrow> fault + 'a" where
  "deref p = (case p of None \<Rightarrow> Inl Null_deref | Some a \<Rightarrow> Inr a)"

lemma deref_simps [simp]:
  "deref None = Inl Null_deref"
  "deref (Some a) = Inr a"
  by (simp_all add: deref_def)

text \<open>
  Sequencing for computations that may also run forever: \<open>None\<close> is "does not return".
\<close>

definition bindO :: "('e + 'a) option \<Rightarrow> ('a \<Rightarrow> ('e + 'b) option) \<Rightarrow> ('e + 'b) option" where
  "bindO m k = (case m of None \<Rightarrow> None | Some (Inl e) \<Rightarrow> Some (Inl e) | Some (Inr a) \<Rightarrow> k a)"

lemma bindO_simps [simp]:
  "bindO None k = None"
  "bindO (Some (Inl e)) k = Some (Inl e)"
  "bindO (Some (Inr a)) k = k a"
  by (simp_all add: bindO_def)

section \<open>C strings and character buffers\<close>

abbreviation NUL :: char where
  "NUL \<equiv> char_of (0::nat)"

definition cstr :: "char list \<Rightarrow> string" where
  "cstr b = takeWhile (\<lambda>c. c \<noteq> NUL) b"

text \<open>
  \<open>vsnprintf(b, n, ...)\<close> of a formatted text \<open>s\<close>: at most \<open>n - 1\<close> characters and a terminator
  are stored at the front of the buffer, nothing at all when \<open>n\<close> is 0.
\<close>

definition vsnprintf :: "char list \<Rightarrow> nat \<Rightarrow> string \<Rightarrow> char list" where
  "vsnprintf b n s =
     (if n = 0 then b
      else let t = take (n - 1) s in t @ [NUL] @ drop (length t + 1) b)"

lemma length_vsnprintf [simp]: "n \<le> length b \<Longrightarrow> length (vsnprintf b n s) = length b"
  by (auto simp: vsnprintf_def Let_def min_def)

lemma cstr_append_NUL [simp]: "NUL \<notin> set s \<Longrightarrow> cstr (s @ NUL # r) = s"
  unfolding cstr_def by (induction s) auto

lemma cstr_vsnprintf:
  "NUL \<notin> set s \<Longrightarrow> 0 < n \<Longrightarrow> cstr (vsnprintf b n s) = take (n - 1) s"
  by (simp add: vsnprintf_def Let_def) (metis cstr_append_NUL in_set_takeD)

lemma NUL_in_vsnprintf: "0 < n \<Longrightarrow> NUL \<in> set (vsnprintf b n s)"
  by (simp add: vsnprintf_def Let_def)

section \<open>The conversions of printf\<close>

definition digit_char :: "nat \<Rightarrow> char" where
  "digit_char d = ''0123456789'' ! d"

fun show_nat :: "nat \<Rightarrow> string" where
  "show_nat n =
     (if n < 10 then [digit_char n] else show_nat (n div 10) @ [digit_char (n mod 10)])"

declare show_nat.simps [simp del]

definition show_int :: "int \<Rightarrow> string" where
  "show_int i = (if i < 0 then CHR ''-'' # show_nat (nat (- i)) else show_nat (nat i))"

datatype farg = FD int | FS string

text \<open>
  The conversions the program's error texts use: \<open>%d\<close> and \<open>%s\<close>, each consuming one argument.
\<close>

fun printf :: "string \<Rightarrow> farg list \<Rightarrow> string" where
  "printf (c # d # f) as =
     (if c = CHR ''%'' \<and> d = CHR ''d''
      then (case as of FD n # as' \<Rightarrow> show_int n @ printf f as' | _ \<Rightarrow> printf f as)
      else if c = CHR ''%'' \<and> d = CHR ''s''
      then (case as of FS t # as' \<Rightarrow> t @ printf f as' | _ \<Rightarrow> printf f as)
      else c # printf (d # f) as)"
| "printf f as = f"

lemma digit_char_no_NUL: "d < 10 \<Longrightarrow> digit_char d \<noteq> NUL"
proof -
  assume "d < 10"
  then have "d \<in> {0, 1, 2, 3, 4, 5, 6, 7, 8, 9}" by auto
  then show ?thesis by (auto simp: digit_char_def char_of_def)
qed

lemma show_nat_no_NUL: "NUL \<notin> set (show_nat n)"
proof (induction n rule: show_nat.induct)
  case (1 n)
  then show ?case
    using digit_char_no_NUL [of n] digit_char_no_NUL [of "n mod 10"]
    by (subst show_nat.simps) auto
qed

lemma show_int_no_NUL: "NUL \<notin> set (show_int i)"
proof -
  have "NUL \<noteq> CHR ''-''" by (simp add: char_of_def)
  then show ?thesis using show_nat_no_NUL by (auto simp: show_int_def)
qed

lemma printf_no_NUL:
  "NUL \<notin> set f \<Longrightarrow> (\<And>t. FS t \<in> set as \<Longrightarrow> NUL \<notin> set t) \<Longrightarrow> NUL \<notin> set (printf f as)"
proof (induction f as rule: printf.induct)
  case (1 c d f as)
  then show ?case
    using show_int_no_NUL by (auto split: list.splits farg.splits)
qed simp_all

section \<open>Memory\<close>

text \<open>
  A pointer is a block and an offset into it; distinct arrays are distinct blocks, so writing past
  the end of one array is never an access to another one in the model, and the bounds properties
  say that it does not happen.
\<close>

type_synonym ptr = "nat \<times> int"
type_synonym memory = "nat \<Rightarrow> int \<Rightarrow> byte"

definition ptr_add :: "ptr \<Rightarrow> int \<Rightarrow> ptr" where
  "ptr_add p n = (fst p, snd p + n)"

definition mem_store :: "ptr \<Rightarrow> byte list \<Rightarrow> memory \<Rightarrow> memory" where
  "mem_store p bs m =
     m(fst p := (\<lambda>o'. if snd p \<le> o' \<and> o' < snd p + int (length bs)
                      then bs ! nat (o' - snd p) else m (fst p) o'))"

definition mem_load :: "memory \<Rightarrow> ptr \<Rightarrow> nat \<Rightarrow> byte list" where
  "mem_load m p n = map (\<lambda>j. m (fst p) (snd p + int j)) [0..<n]"

lemma length_mem_load [simp]: "length (mem_load m p n) = n"
  by (simp add: mem_load_def)

lemma mem_load_0 [simp]: "mem_load m p 0 = []"
  by (simp add: mem_load_def)

lemma ptr_add_0 [simp]: "ptr_add p 0 = p"
  by (simp add: ptr_add_def)

lemma fst_ptr_add [simp]: "fst (ptr_add p n) = fst p"
  by (simp add: ptr_add_def)

lemma ptr_add_add [simp]: "ptr_add (ptr_add p a) b = ptr_add p (a + b)"
  by (simp add: ptr_add_def)

lemma mem_store_Nil [simp]: "mem_store p [] m = m"
  by (auto simp: mem_store_def fun_eq_iff)

lemma mem_load_store_same [simp]: "mem_load (mem_store p bs m) p (length bs) = bs"
  by (rule nth_equalityI) (auto simp: mem_load_def mem_store_def)

lemma mem_load_store_other [simp]:
  "fst p \<noteq> fst q \<Longrightarrow> mem_load (mem_store p bs m) q n = mem_load m q n"
  by (auto simp: mem_load_def mem_store_def)

lemma mem_store_other [simp]: "b \<noteq> fst p \<Longrightarrow> mem_store p bs m b = m b"
  by (simp add: mem_store_def)

lemma mem_load_cong: "m (fst p) = m' (fst p) \<Longrightarrow> mem_load m p n = mem_load m' p n"
  by (simp add: mem_load_def)

lemma mem_load_append:
  "mem_load m p (a + b) = mem_load m p a @ mem_load m (ptr_add p (int a)) b"
  by (rule nth_equalityI) (auto simp: mem_load_def ptr_add_def nth_append)

lemma mem_load_store_prefix [simp]:
  "int n \<le> k \<Longrightarrow> mem_load (mem_store (ptr_add p k) bs m) p n = mem_load m p n"
  by (auto simp: mem_load_def mem_store_def ptr_add_def)

lemma take_mem_load: "a \<le> n \<Longrightarrow> take a (mem_load m p n) = mem_load m p a"
  by (simp add: mem_load_def take_map)

lemma drop_mem_load:
  "a \<le> n \<Longrightarrow> drop a (mem_load m p n) = mem_load m (ptr_add p (int a)) (n - a)"
  using mem_load_append [of m p a "n - a"] by (metis append_eq_conv_conj le_add_diff_inverse length_mem_load)

end
