(* ===== verification/Errors.thy ===== *)
theory Errors
  imports Prelude
begin

text \<open>
  \<open>aio::Error\<close> (aio/unix/proactor.h, proactor.cpp): an error number and a text in a fixed
  buffer of \<open>ERRBUFSIZE\<close> characters.
\<close>

definition ERRBUFSIZE :: nat where
  "ERRBUFSIZE = 128"

record error =
  e_code :: int
  e_detail :: "char list"

definition Error_new :: error where
  "Error_new = \<lparr>e_code = 0, e_detail = replicate ERRBUFSIZE NUL\<rparr>"

text \<open>The copy constructor, and the assignment operator over an existing value.\<close>

definition Error_copy :: "error \<Rightarrow> error" where
  "Error_copy err = \<lparr>e_code = e_code err, e_detail = take ERRBUFSIZE (e_detail err)\<rparr>"

definition Error_assign :: "error \<Rightarrow> error \<Rightarrow> error" where
  "Error_assign this err =
     this\<lparr>e_code := e_code err,
          e_detail := take ERRBUFSIZE (e_detail err) @ drop ERRBUFSIZE (e_detail this)\<rparr>"

definition Error_set :: "error \<Rightarrow> int \<Rightarrow> string \<Rightarrow> farg list \<Rightarrow> error" where
  "Error_set this code fmt args =
     this\<lparr>e_code := code, e_detail := vsnprintf (e_detail this) ERRBUFSIZE (printf fmt args)\<rparr>"

definition Error_clear :: "error \<Rightarrow> error" where
  "Error_clear this = this\<lparr>e_code := 0, e_detail := (e_detail this)[0 := NUL]\<rparr>"

text \<open>The type invariant: the buffer keeps its size and always holds a terminator.\<close>

definition Error_ok :: "error \<Rightarrow> bool" where
  "Error_ok e \<longleftrightarrow> length (e_detail e) = ERRBUFSIZE \<and> NUL \<in> set (e_detail e)"

lemma ERRBUFSIZE_pos [simp]: "0 < ERRBUFSIZE"
  by (simp add: ERRBUFSIZE_def)

lemma Error_code_simps [simp]:
  "e_code Error_new = 0"
  "e_code (Error_copy e) = e_code e"
  "e_code (Error_set e c f as) = c"
  "e_code (Error_clear e) = 0"
  by (simp_all add: Error_new_def Error_copy_def Error_set_def Error_clear_def)

lemma Error_ok_new [simp]: "Error_ok Error_new"
  by (simp add: Error_ok_def Error_new_def)

lemma Error_ok_copy [simp]: "Error_ok e \<Longrightarrow> Error_copy e = e"
  by (simp add: Error_ok_def Error_copy_def)

lemma Error_ok_assign: "Error_ok this \<Longrightarrow> Error_ok e \<Longrightarrow> Error_assign this e = e"
  by (simp add: Error_ok_def Error_assign_def)

lemma Error_ok_set [simp]: "Error_ok e \<Longrightarrow> Error_ok (Error_set e c f as)"
  by (simp add: Error_ok_def Error_set_def NUL_in_vsnprintf)

lemma Error_ok_clear [simp]: "Error_ok e \<Longrightarrow> Error_ok (Error_clear e)"
  by (cases "e_detail e") (auto simp: Error_ok_def Error_clear_def)

text \<open>Every operation keeps the buffer's size and terminator.\<close>

lemma Error_ops_ok:
  assumes "Error_ok e" and "Error_ok e'"
  shows "Error_ok (Error_set e c f as) \<and> Error_ok (Error_clear e) \<and>
         Error_ok (Error_copy e) \<and> Error_ok (Error_assign e e')"
  using assms by (simp add: Error_ok_assign)

lemma cstr_Error_set:
  assumes "NUL \<notin> set (printf f as)"
  shows "cstr (e_detail (Error_set e c f as)) = take (ERRBUFSIZE - 1) (printf f as)"
  using assms by (simp add: Error_set_def cstr_vsnprintf)

lemma cstr_Error_clear: "Error_ok e \<Longrightarrow> cstr (e_detail (Error_clear e)) = []"
  by (cases "e_detail e") (auto simp: Error_ok_def Error_clear_def cstr_def ERRBUFSIZE_def)

end
