(* ===== verification/Timers.thy ===== *)
theory Timers
  imports Prelude
begin

text \<open>
  Time values and the ordered timer set of the proactor: \<open>struct timeval\<close> with the \<open>timercmp\<close>
  and \<open>timeradd\<close> macros, the ordering \<open>Token::LessTimer\<close> (aio/unix/proactor.h), and
  \<open>std::set\<close> ordered by a key that is read through the stored pointers. The set is a list in key
  order; two elements are the same to the set when neither key is below the other.
\<close>

section \<open>struct timeval\<close>

datatype timeval = Timeval (tv_sec: int) (tv_usec: int)

definition timercmp_less :: "timeval \<Rightarrow> timeval \<Rightarrow> bool" where
  "timercmp_less a b =
     (if tv_sec a = tv_sec b then tv_usec a < tv_usec b else tv_sec a < tv_sec b)"

definition timeradd :: "timeval \<Rightarrow> timeval \<Rightarrow> timeval" where
  "timeradd a b =
     (let s = tv_sec a + tv_sec b; u = tv_usec a + tv_usec b
      in if u \<ge> 1000000 then Timeval (s + 1) (u - 1000000) else Timeval s u)"

instantiation timeval :: linorder
begin
definition less_timeval :: "timeval \<Rightarrow> timeval \<Rightarrow> bool" where
  "less_timeval a b = timercmp_less a b"
definition less_eq_timeval :: "timeval \<Rightarrow> timeval \<Rightarrow> bool" where
  "less_eq_timeval a b = (a = b \<or> timercmp_less a b)"
instance
  by standard
    (auto simp: less_timeval_def less_eq_timeval_def timercmp_less_def timeval.expand split: if_splits)
end

text \<open>The deadline \<open>_pushTimer\<close> computes; \<open>sdiv\<close> and \<open>smod\<close> are C's truncating operators.\<close>

definition timeout_interval :: "int \<Rightarrow> timeval" where
  "timeout_interval ms = Timeval (ms sdiv 1000) ((ms smod 1000) * 1000)"

definition tv_norm :: "timeval \<Rightarrow> bool" where
  "tv_norm t \<longleftrightarrow> 0 \<le> tv_usec t \<and> tv_usec t < 1000000"

definition tv_micros :: "timeval \<Rightarrow> int" where
  "tv_micros t = tv_sec t * 1000000 + tv_usec t"

lemma tv_less_micros:
  "tv_norm a \<Longrightarrow> tv_norm b \<Longrightarrow> a < b \<longleftrightarrow> tv_micros a < tv_micros b"
  unfolding less_timeval_def timercmp_less_def tv_norm_def tv_micros_def by auto

lemma timeradd_norm: "tv_norm a \<Longrightarrow> tv_norm b \<Longrightarrow> tv_norm (timeradd a b)"
  by (auto simp: tv_norm_def timeradd_def Let_def)

lemma timeradd_micros: "tv_micros (timeradd a b) = tv_micros a + tv_micros b"
  by (auto simp: tv_micros_def timeradd_def Let_def algebra_simps)

lemma timeout_interval_norm: "0 \<le> ms \<Longrightarrow> tv_norm (timeout_interval ms)"
  by (simp add: tv_norm_def timeout_interval_def signed_modulo_int_def signed_divide_int_def
      minus_div_mult_eq_mod sgn_if)

lemma timeout_interval_micros: "tv_micros (timeout_interval ms) = ms * 1000"
proof -
  have "ms sdiv 1000 * 1000 + ms smod 1000 = ms" by (metis mult_sdiv_smod_eq mult.commute)
  then show ?thesis by (simp add: tv_micros_def timeout_interval_def)
qed

section \<open>std::set under a pointer key\<close>

fun set_insert :: "('t \<Rightarrow> 'k::linorder) \<Rightarrow> 't \<Rightarrow> 't list \<Rightarrow> 't list \<times> bool" where
  "set_insert key x [] = ([x], True)"
| "set_insert key x (y # ys) =
     (if key x < key y then (x # y # ys, True)
      else if key y < key x
      then (case set_insert key x ys of (zs, b) \<Rightarrow> (y # zs, b))
      else (y # ys, False))"

definition set_erase :: "('t \<Rightarrow> 'k::linorder) \<Rightarrow> 't \<Rightarrow> 't list \<Rightarrow> 't list" where
  "set_erase key x ys = filter (\<lambda>y. key x < key y \<or> key y < key x) ys"

definition key_sorted :: "('t \<Rightarrow> 'k::linorder) \<Rightarrow> 't list \<Rightarrow> bool" where
  "key_sorted key xs = sorted_wrt (\<lambda>a b. key a < key b) xs"

lemma key_sorted_simps [simp]:
  "key_sorted key []"
  "key_sorted key (x # xs) \<longleftrightarrow> (\<forall>y\<in>set xs. key x < key y) \<and> key_sorted key xs"
  by (simp_all add: key_sorted_def)

lemma set_insert_dup:
  "key_sorted key ys \<Longrightarrow> \<exists>y\<in>set ys. key y = key x \<Longrightarrow> set_insert key x ys = (ys, False)"
proof (induction ys)
  case (Cons y ys)
  show ?case
  proof (cases "key y = key x")
    case False
    with Cons.prems obtain z where "z \<in> set ys" "key z = key x" by auto
    with Cons.prems have "key y < key x" by (metis key_sorted_simps(2))
    moreover have "set_insert key x ys = (ys, False)"
      using Cons.IH Cons.prems(1) \<open>z \<in> set ys\<close> \<open>key z = key x\<close> key_sorted_simps(2) by metis
    ultimately show ?thesis by (simp add: less_not_sym)
  qed simp
qed simp

lemma set_insert_new:
  "key_sorted key ys \<Longrightarrow> \<forall>y\<in>set ys. key y \<noteq> key x \<Longrightarrow>
   snd (set_insert key x ys) \<and> set (fst (set_insert key x ys)) = insert x (set ys)"
  by (induction ys) (auto split: prod.splits)

lemma set_insert_subset: "set (fst (set_insert key x ys)) \<subseteq> insert x (set ys)"
  by (induction ys) (auto split: prod.splits)

lemma set_insert_sorted: "key_sorted key ys \<Longrightarrow> key_sorted key (fst (set_insert key x ys))"
proof (induction ys)
  case (Cons y ys)
  then show ?case
    using set_insert_subset [of key x ys] by (fastforce split: prod.splits)
qed simp

lemma set_erase_filter: "set_erase key x ys = filter (\<lambda>y. key y \<noteq> key x) ys"
  by (auto simp: set_erase_def neq_iff intro: filter_cong)

lemma key_sorted_filter: "key_sorted key xs \<Longrightarrow> key_sorted key (filter P xs)"
  by (simp add: key_sorted_def sorted_wrt_filter)

lemma key_sorted_cong:
  "(\<And>y. y \<in> set xs \<Longrightarrow> key y = key' y) \<Longrightarrow> key_sorted key xs = key_sorted key' xs"
  by (induction xs) auto

lemma sorted_key_distinct: "sorted_wrt (\<lambda>a b. key a < (key b :: 'k::linorder)) xs \<Longrightarrow> distinct (map key xs)"
  by (induction xs) force+

section \<open>The interface of the timer set\<close>

text \<open>
  What the proactor relies on: elements in strict key order, insertion refused when an element of
  the same key is present, removal by key.
\<close>

locale timer_set =
  fixes ins :: "('t \<Rightarrow> 'k::linorder) \<Rightarrow> 't \<Rightarrow> 's \<Rightarrow> 's \<times> bool"
    and del :: "('t \<Rightarrow> 'k) \<Rightarrow> 't \<Rightarrow> 's \<Rightarrow> 's"
    and elems :: "'s \<Rightarrow> 't list"
    and ok :: "('t \<Rightarrow> 'k) \<Rightarrow> 's \<Rightarrow> bool"
  assumes ok_sorted: "ok key s \<Longrightarrow> sorted_wrt (\<lambda>a b. key a < key b) (elems s)"
    and ins_dup: "ok key s \<Longrightarrow> \<exists>y\<in>set (elems s). key y = key t \<Longrightarrow> ins key t s = (s, False)"
    and ins_new: "ok key s \<Longrightarrow> \<forall>y\<in>set (elems s). key y \<noteq> key t \<Longrightarrow>
       snd (ins key t s) \<and> set (elems (fst (ins key t s))) = insert t (set (elems s))"
    and ins_ok: "ok key s \<Longrightarrow> ok key (fst (ins key t s))"
    and del_elems: "ok key s \<Longrightarrow> elems (del key t s) = filter (\<lambda>y. key y \<noteq> key t) (elems s)"
    and del_ok: "ok key s \<Longrightarrow> ok key (del key t s)"
begin

lemma key_inj: "ok key s \<Longrightarrow> a \<in> set (elems s) \<Longrightarrow> b \<in> set (elems s) \<Longrightarrow> key a = key b \<Longrightarrow> a = b"
  using sorted_key_distinct [OF ok_sorted] by (auto simp: distinct_map dest: inj_onD)

lemma elems_distinct: "ok key s \<Longrightarrow> distinct (elems s)"
  using sorted_key_distinct [OF ok_sorted] by (auto simp: distinct_map)

lemma del_gone: "ok key s \<Longrightarrow> t \<notin> set (elems (del key t s))"
  by (simp add: del_elems)

lemma del_member:
  "ok key s \<Longrightarrow> t \<in> set (elems s) \<Longrightarrow> set (elems (del key t s)) = set (elems s) - {t}"
  using key_inj by (fastforce simp: del_elems)

lemma del_subset: "ok key s \<Longrightarrow> set (elems (del key t s)) \<subseteq> set (elems s)"
  by (auto simp: del_elems)

lemma del_steals:
  "ok key s \<Longrightarrow> u \<in> set (elems s) \<Longrightarrow> key u = key t \<Longrightarrow>
   set (elems (del key t s)) = set (elems s) - {u}"
  using key_inj by (fastforce simp: del_elems)

lemma ins_del:
  "ok key s \<Longrightarrow> \<forall>y\<in>set (elems s). key y \<noteq> key t \<Longrightarrow>
   set (elems (del key t (fst (ins key t s)))) = set (elems s)"
  using ins_new [of key s t] ins_ok [of key s t] by (auto simp: del_elems)

lemma ins_subset: "ok key s \<Longrightarrow> set (elems (fst (ins key t s))) \<subseteq> insert t (set (elems s))"
  by (cases "\<exists>y\<in>set (elems s). key y = key t") (auto simp: ins_dup dest: ins_new)

end

interpretation tset: timer_set set_insert set_erase "\<lambda>xs. xs" key_sorted
  by unfold_locales
    (simp_all add: set_insert_dup set_insert_new set_insert_sorted set_erase_filter
      key_sorted_filter, simp add: key_sorted_def)

end
