(* ===== verification/Kernel.thy ===== *)
theory Kernel
  imports Errors Timers
begin

text \<open>
  The operating system is not part of the repository: it is a record of functions over an
  abstract state, and every definition that makes a system call takes that record. A call returns
  its result, the value of \<open>errno\<close> and the next state; what a theorem needs of the calls
  is a hypothesis about the record. The constants are those of the C library headers.
\<close>

definition EAGAIN :: int where "EAGAIN = 11"
definition ECONNRESET :: int where "ECONNRESET = 104"
definition ETIMEDOUT :: int where "ETIMEDOUT = 110"

lemma errno_values [simp]: "ECONNRESET \<noteq> 0" "ETIMEDOUT \<noteq> 0" "EAGAIN \<noteq> 0"
  by (simp_all add: ECONNRESET_def ETIMEDOUT_def EAGAIN_def)

text \<open>
  \<open>EventHandler*\<close>: the objects the poller reports are sockets and acceptors, named by the number
  they got at creation.
\<close>

datatype handler = HSock nat | HAcc nat

record sockaddr_in =
  sin_family :: int
  sin_addr :: "32 word"
  sin_port :: "16 word"

record 'k kernel =
  k_read :: "int \<Rightarrow> int \<Rightarrow> 'k \<Rightarrow> int \<times> int \<times> byte list \<times> 'k"
  k_write :: "int \<Rightarrow> byte list \<Rightarrow> 'k \<Rightarrow> int \<times> int \<times> 'k"
  k_accept :: "int \<Rightarrow> 'k \<Rightarrow> int \<times> int \<times> sockaddr_in \<times> 'k"
  k_socket :: "'k \<Rightarrow> int \<times> int \<times> 'k"
  k_reuseaddr :: "int \<Rightarrow> int \<Rightarrow> 'k \<Rightarrow> int \<times> int \<times> 'k"
  k_getfl :: "int \<Rightarrow> 'k \<Rightarrow> int \<times> int \<times> 'k"
  k_setfl :: "int \<Rightarrow> int \<Rightarrow> 'k \<Rightarrow> int \<times> int \<times> 'k"
  k_bind :: "int \<Rightarrow> sockaddr_in \<Rightarrow> 'k \<Rightarrow> int \<times> int \<times> 'k"
  k_listen :: "int \<Rightarrow> int \<Rightarrow> 'k \<Rightarrow> int \<times> int \<times> 'k"
  k_close :: "int \<Rightarrow> 'k \<Rightarrow> 'k"
  k_gettimeofday :: "'k \<Rightarrow> timeval \<times> 'k"
  k_poll_create :: "'k \<Rightarrow> int \<times> int \<times> 'k"
  k_poll_add :: "int \<Rightarrow> int \<Rightarrow> 32 word \<Rightarrow> handler \<Rightarrow> 'k \<Rightarrow> int \<times> int \<times> 'k"
  k_poll_del :: "int \<Rightarrow> int \<Rightarrow> 'k \<Rightarrow> int \<times> int \<times> 'k"
  k_poll_wait :: "int \<Rightarrow> int \<Rightarrow> 'k \<Rightarrow> int \<times> int \<times> (32 word \<times> handler) list \<times> int list \<times> 'k"
  k_kqueue :: "'k \<Rightarrow> int \<times> int \<times> 'k"
  k_kevent_change :: "int \<Rightarrow> int \<Rightarrow> int \<Rightarrow> int \<Rightarrow> handler option \<Rightarrow> 'k \<Rightarrow> int \<times> int \<times> 'k"
  k_kevent_wait :: "int \<Rightarrow> int \<times> int \<Rightarrow> 'k \<Rightarrow> int \<times> int \<times> (32 word \<times> handler) list \<times> int list \<times> 'k"
  k_strerror :: "int \<Rightarrow> string"
  k_inet_addr :: "string \<Rightarrow> 32 word"
  k_inet_ntop :: "32 word \<Rightarrow> int + string"
  k_htons :: "16 word \<Rightarrow> 16 word"
  k_indet :: "int"
  k_fresh_tv :: "nat \<Rightarrow> 'k \<Rightarrow> timeval"

text \<open>
  \<open>k_poll_wait\<close> is \<open>epoll_wait\<close> and \<open>k_kevent_wait\<close> is \<open>kevent\<close> with an event list; both also
  return the signals that were delivered until the call returned. \<open>k_indet\<close> is the
  value \<open>printf\<close> finds for a conversion the caller passes no argument for, and \<open>k_fresh_tv\<close> the
  content of a \<open>struct timeval\<close> member no constructor sets (numbered within the object).
\<close>

text \<open>The documented behaviour of \<open>read\<close> and \<open>write\<close> on a requested size.\<close>

definition posix_read :: "'k kernel \<Rightarrow> bool" where
  "posix_read K \<longleftrightarrow>
     (\<forall>fd n k ret en bs k'. k_read K fd n k = (ret, en, bs, k') \<longrightarrow> 0 \<le> n \<longrightarrow>
        (if 0 \<le> ret then ret \<le> n \<and> length bs = nat ret else bs = [] \<and> en \<noteq> 0))"

definition posix_write :: "'k kernel \<Rightarrow> bool" where
  "posix_write K \<longleftrightarrow>
     (\<forall>fd bs k ret en k'. k_write K fd bs k = (ret, en, k') \<longrightarrow>
        ret \<le> int (length bs) \<and> (ret < 0 \<longrightarrow> en \<noteq> 0))"

lemma posix_readD:
  assumes "posix_read K" and "k_read K fd n k = (ret, en, bs, k')" and "0 \<le> n"
  shows "0 \<le> ret \<Longrightarrow> ret \<le> n \<and> length bs = nat ret" and "ret < 0 \<Longrightarrow> bs = [] \<and> en \<noteq> 0"
  using assms unfolding posix_read_def by (metis not_less)+

lemma posix_writeD:
  assumes "posix_write K" and "k_write K fd bs k = (ret, en, k')"
  shows "ret \<le> int (length bs)" and "ret < 0 \<Longrightarrow> en \<noteq> 0"
  using assms unfolding posix_write_def by blast+

end
