(* ===== verification/TokenQueue.thy ===== *)
theory TokenQueue
  imports Errors Timers
begin

text \<open>
  \<open>aio::Token\<close> and the completion queue of the proactor (aio/unix/proactor.h, proactor.cpp): a
  circular doubly linked list threaded through the tokens themselves, with a sentinel
  \<open>Proactor::_head\<close>. Tokens live in an explicit store, so that the pointer surgery of
  \<open>_enqueue\<close> and \<open>_remove\<close> is modelled with its aliasing; following a null pointer or
  a pointer to a destroyed token is a fault. The store is shown to implement a FIFO list.
\<close>

section \<open>Tokens\<close>

datatype mode = M_NONE | M_SOME | M_ALL | M_DONE | M_ERR

text \<open>
  Tokens are members of other objects: \<open>Rt s\<close> and \<open>Wt s\<close> are \<open>_rt\<close> and \<open>_wt\<close> of the socket
  object \<open>s\<close>, and \<open>Head\<close> is the sentinel of the proactor.
\<close>

datatype tokref = Head | Rt nat | Wt nat

record 'cb token =
  t_buf :: ptr
  t_bufSize :: int
  t_ioSize :: int
  t_cb :: "'cb option"
  t_mode :: mode
  t_err :: error
  t_prev :: "tokref option"
  t_next :: "tokref option"
  t_tv :: timeval

text \<open>
  The constructor leaves \<open>tv\<close> unset (\<open>g\<close> is what the memory holds), and an empty
  \<open>boost::function\<close> is \<open>None\<close>.
\<close>

definition NULL_ptr :: ptr where
  "NULL_ptr = (0, 0)"

definition Token_new :: "timeval \<Rightarrow> 'cb token" where
  "Token_new g = \<lparr>t_buf = NULL_ptr, t_bufSize = 0, t_ioSize = 0, t_cb = None, t_mode = M_NONE,
     t_err = Error_new, t_prev = None, t_next = None, t_tv = g\<rparr>"

definition Token_init :: "ptr \<Rightarrow> int \<Rightarrow> 'cb \<Rightarrow> 'cb token \<Rightarrow> 'cb token" where
  "Token_init b sz c t =
     t\<lparr>t_buf := b, t_bufSize := sz, t_ioSize := 0, t_cb := Some c, t_mode := M_NONE\<rparr>"

definition Token_set :: "int \<Rightarrow> mode \<Rightarrow> 'cb token \<Rightarrow> 'cb token" where
  "Token_set n m t = t\<lparr>t_ioSize := n, t_mode := m\<rparr>"

definition Token_add :: "int \<Rightarrow> 'cb token \<Rightarrow> 'cb token" where
  "Token_add n t = t\<lparr>t_ioSize := t_ioSize t + n\<rparr>"

lemmas token_ops = Token_new_def Token_init_def Token_set_def Token_add_def

section \<open>The token store\<close>

type_synonym 'cb store = "tokref \<rightharpoonup> 'cb token"

definition st_get :: "tokref \<Rightarrow> 'cb store \<Rightarrow> fault + 'cb token" where
  "st_get t h = (case h t of None \<Rightarrow> Inl Dangling | Some x \<Rightarrow> Inr x)"

definition st_upd :: "tokref \<Rightarrow> ('cb token \<Rightarrow> 'cb token) \<Rightarrow> 'cb store \<Rightarrow> fault + 'cb store" where
  "st_upd t f h = (case h t of None \<Rightarrow> Inl Dangling | Some x \<Rightarrow> Inr (h(t \<mapsto> f x)))"

lemma st_get_Some [simp]: "h t = Some x \<Longrightarrow> st_get t h = Inr x"
  by (simp add: st_get_def)

lemma st_upd_Some [simp]: "h t = Some x \<Longrightarrow> st_upd t f h = Inr (h(t \<mapsto> f x))"
  by (simp add: st_upd_def)

section \<open>The operations of the queue\<close>

text \<open>\<open>Proactor::_enqueue\<close>: link the token in before the sentinel.\<close>

definition Proactor_enqueue :: "tokref \<Rightarrow> 'cb store \<Rightarrow> fault + 'cb store" where
  "Proactor_enqueue token h =
     bindS (st_upd token (\<lambda>t. t\<lparr>t_next := Some Head\<rparr>) h) (\<lambda>h.
     bindS (st_get Head h) (\<lambda>hd.
     bindS (st_upd token (\<lambda>t. t\<lparr>t_prev := t_prev hd\<rparr>) h) (\<lambda>h.
     bindS (st_get Head h) (\<lambda>hd.
     bindS (deref (t_prev hd)) (\<lambda>p.
     bindS (st_upd p (\<lambda>t. t\<lparr>t_next := Some token\<rparr>) h) (\<lambda>h.
     st_upd Head (\<lambda>t. t\<lparr>t_prev := Some token\<rparr>) h))))))"

text \<open>\<open>Proactor::_remove(Token*)\<close>: unlink the token and clear its links.\<close>

definition Proactor_remove :: "tokref \<Rightarrow> 'cb store \<Rightarrow> fault + 'cb store" where
  "Proactor_remove token h =
     bindS (st_get token h) (\<lambda>t.
     bindS (deref (t_next t)) (\<lambda>n.
     bindS (st_upd n (\<lambda>x. x\<lparr>t_prev := t_prev t\<rparr>) h) (\<lambda>h.
     bindS (st_get token h) (\<lambda>t.
     bindS (deref (t_prev t)) (\<lambda>p.
     bindS (st_upd p (\<lambda>x. x\<lparr>t_next := t_next t\<rparr>) h) (\<lambda>h.
     st_upd token (\<lambda>x. x\<lparr>t_prev := None, t_next := None\<rparr>) h))))))"

text \<open>\<open>_head.next\<close>, the guard of the loop that drains the queue; the constructor of the proactor.\<close>

definition queue_front :: "'cb store \<Rightarrow> fault + tokref" where
  "queue_front h = bindS (st_get Head h) (\<lambda>hd. deref (t_next hd))"

definition queue_init :: "timeval \<Rightarrow> 'cb store" where
  "queue_init g = [Head \<mapsto> (Token_new g)\<lparr>t_next := Some Head, t_prev := Some Head\<rparr>]"

section \<open>Abstraction: the list the links form\<close>

definition nx :: "'cb store \<Rightarrow> tokref \<Rightarrow> tokref option" where
  "nx h t = Option.bind (h t) t_next"

definition pv :: "'cb store \<Rightarrow> tokref \<Rightarrow> tokref option" where
  "pv h t = Option.bind (h t) t_prev"

fun linked :: "(tokref \<Rightarrow> tokref option) \<Rightarrow> (tokref \<Rightarrow> tokref option) \<Rightarrow>
    tokref \<Rightarrow> tokref list \<Rightarrow> tokref \<Rightarrow> bool" where
  "linked n p a [] b \<longleftrightarrow> n a = Some b \<and> p b = Some a"
| "linked n p a (x # xs) b \<longleftrightarrow> n a = Some x \<and> p x = Some a \<and> linked n p x xs b"

definition queue_ok :: "'cb store \<Rightarrow> tokref list \<Rightarrow> bool" where
  "queue_ok h qs \<longleftrightarrow> linked (nx h) (pv h) Head qs Head \<and> distinct (Head # qs) \<and>
     (\<forall>u. u \<notin> insert Head (set qs) \<longrightarrow> nx h u = None \<and> pv h u = None)"

lemma nx_upd [simp]: "nx (h(t \<mapsto> x)) = (nx h)(t := t_next x)"
  by (auto simp: nx_def)

lemma pv_upd [simp]: "pv (h(t \<mapsto> x)) = (pv h)(t := t_prev x)"
  by (auto simp: pv_def)

lemma nx_del [simp]: "nx (h(t := None)) = (nx h)(t := None)"
  by (auto simp: nx_def)

lemma pv_del [simp]: "pv (h(t := None)) = (pv h)(t := None)"
  by (auto simp: pv_def)

lemma nx_Some_dom: "nx h t = Some u \<Longrightarrow> \<exists>x. h t = Some x \<and> t_next x = Some u"
  by (auto simp: nx_def bind_eq_Some_conv)

lemma pv_Some_dom: "pv h t = Some u \<Longrightarrow> \<exists>x. h t = Some x \<and> t_prev x = Some u"
  by (auto simp: pv_def bind_eq_Some_conv)

lemma nx_get: "h t = Some x \<Longrightarrow> nx h t = t_next x" and pv_get: "h t = Some x \<Longrightarrow> pv h t = t_prev x"
  by (simp_all add: nx_def pv_def)

lemma linked_append [simp]:
  "linked n p a (xs @ y # ys) b \<longleftrightarrow> linked n p a xs y \<and> linked n p y ys b"
  by (induction xs arbitrary: a) auto

lemma linked_cong:
  "linked n p a xs b \<Longrightarrow> (\<And>u. u \<in> insert a (set xs) \<Longrightarrow> n' u = n u) \<Longrightarrow>
   (\<And>u. u \<in> insert b (set xs) \<Longrightarrow> p' u = p u) \<Longrightarrow> linked n' p' a xs b"
  by (induction xs arbitrary: a) auto

lemma linked_ends: "linked n p a xs b \<Longrightarrow> n a = Some (hd (xs @ [b])) \<and> p b = Some (last (a # xs))"
  by (induction xs arbitrary: a) auto

lemma linked_links:
  "linked n p a xs b \<Longrightarrow> (u \<in> insert a (set xs) \<longrightarrow> n u \<noteq> None) \<and> (u \<in> insert b (set xs) \<longrightarrow> p u \<noteq> None)"
  by (induction xs arbitrary: a) auto

text \<open>Sending the end of a segment to another node.\<close>

lemma linked_retarget:
  "linked n p a xs b \<Longrightarrow> distinct (a # xs) \<Longrightarrow> c \<notin> set xs \<Longrightarrow>
   linked (n(last (a # xs) := Some c)) (p(c := Some (last (a # xs)))) a xs c"
proof (induction xs arbitrary: a)
  case (Cons x xs)
  define l where "l = last (x # xs)"
  have "linked (n(l := Some c)) (p(c := Some l)) x xs c"
    unfolding l_def by (rule Cons.IH) (use Cons.prems in auto)
  moreover have "a \<noteq> l"
    unfolding l_def using Cons.prems(2) last_in_set by (metis distinct.simps(2) list.discI)
  ultimately have "linked (n(l := Some c)) (p(c := Some l)) a (x # xs) c"
    using Cons.prems by (auto simp: eq_commute [of x c])
  moreover have "last (a # x # xs) = l" by (simp add: l_def)
  ultimately show ?case by (simp only:)
qed simp

text \<open>Two stores that differ in the links only.\<close>

definition unlink :: "'cb token \<Rightarrow> 'cb token" where
  "unlink x = x\<lparr>t_prev := None, t_next := None\<rparr>"

definition same_payload :: "'cb store \<Rightarrow> 'cb store \<Rightarrow> bool" where
  "same_payload h h' \<longleftrightarrow> (\<forall>t. map_option unlink (h' t) = map_option unlink (h t))"

lemma same_payload_refl [simp]: "same_payload h h"
  by (simp add: same_payload_def)

lemma same_payload_trans: "same_payload h h' \<Longrightarrow> same_payload h' h'' \<Longrightarrow> same_payload h h''"
  by (simp add: same_payload_def)

lemma same_payload_upd: "h t = Some x \<Longrightarrow> unlink y = unlink x \<Longrightarrow> same_payload h (h(t \<mapsto> y))"
  by (simp add: same_payload_def)

lemma unlink_links [simp]: "unlink (x\<lparr>t_prev := a\<rparr>) = unlink x" "unlink (x\<lparr>t_next := a\<rparr>) = unlink x"
  by (cases x; simp add: unlink_def)+

lemma unlink_eqD:
  "unlink x = unlink y \<Longrightarrow> t_buf x = t_buf y \<and> t_bufSize x = t_bufSize y \<and> t_ioSize x = t_ioSize y \<and>
   t_cb x = t_cb y \<and> t_mode x = t_mode y \<and> t_err x = t_err y \<and> t_tv x = t_tv y"
  by (cases x; cases y; simp add: unlink_def)

lemma same_payloadD:
  "same_payload h h' \<Longrightarrow> h t = Some x \<Longrightarrow> \<exists>y. h' t = Some y \<and> unlink y = unlink x"
  unfolding same_payload_def by (metis (no_types) map_option_eq_Some)

lemma same_payload_dom: "same_payload h h' \<Longrightarrow> dom h' = dom h"
  unfolding same_payload_def dom_def by (metis (no_types) map_option_is_None)

section \<open>The operations implement a list\<close>

lemma queue_ok_live: "queue_ok h qs \<Longrightarrow> t \<in> insert Head (set qs) \<Longrightarrow> \<exists>x. h t = Some x"
  unfolding queue_ok_def using linked_links [of "nx h" "pv h" Head qs Head t]
  by (auto dest!: nx_Some_dom)

lemma queue_ok_linked_iff: "queue_ok h qs \<Longrightarrow> t \<noteq> Head \<Longrightarrow> pv h t \<noteq> None \<longleftrightarrow> t \<in> set qs"
  unfolding queue_ok_def using linked_links [of "nx h" "pv h" Head qs Head t] by auto

lemma queue_ok_distinct: "queue_ok h qs \<Longrightarrow> distinct qs \<and> Head \<notin> set qs"
  by (simp add: queue_ok_def)

lemma queue_ok_init: "queue_ok (queue_init g) []"
  by (simp add: queue_ok_def queue_init_def) (simp add: nx_def pv_def)

lemma queue_ok_cong:
  "queue_ok h qs \<Longrightarrow> nx h' = nx h \<Longrightarrow> pv h' = pv h \<Longrightarrow> queue_ok h' qs"
  by (simp add: queue_ok_def)

lemma queue_ok_upd:
  "queue_ok h qs \<Longrightarrow> h t = Some x \<Longrightarrow> t_next y = t_next x \<Longrightarrow> t_prev y = t_prev x \<Longrightarrow>
   queue_ok (h(t \<mapsto> y)) qs"
  by (erule queue_ok_cong) (auto simp: nx_get pv_get)

lemma queue_front_ok: "queue_ok h qs \<Longrightarrow> queue_front h = Inr (hd (qs @ [Head]))"
  unfolding queue_ok_def queue_front_def by (auto dest!: linked_ends nx_Some_dom)

lemma Proactor_enqueue_links:
  assumes hd: "h Head = Some hx" "t_prev hx = Some p" and t: "h t = Some x" "t \<noteq> Head"
    and p: "h p = Some y" "p \<noteq> t"
  shows "\<exists>h'. Proactor_enqueue t h = Inr h' \<and> nx h' = (nx h)(t := Some Head, p := Some t) \<and>
    pv h' = (pv h)(t := Some p, Head := Some t) \<and> same_payload h h'"
proof (cases "p = Head")
  case True
  then show ?thesis
    using assms by (simp add: Proactor_enqueue_def) (auto simp: fun_eq_iff nx_get pv_get same_payload_def)
next
  case False
  then show ?thesis
    using assms by (simp add: Proactor_enqueue_def) (auto simp: fun_eq_iff nx_get pv_get same_payload_def)
qed

text \<open>\<open>_enqueue\<close> appends a token that is not queued, and changes nothing but links.\<close>

lemma Proactor_enqueue_ok:
  assumes q: "queue_ok h qs" and t: "t \<notin> insert Head (set qs)" and x: "h t = Some x"
  shows "\<exists>h'. Proactor_enqueue t h = Inr h' \<and> queue_ok h' (qs @ [t]) \<and> same_payload h h'"
proof -
  define p where "p = last (Head # qs)"
  have l: "linked (nx h) (pv h) Head qs Head" and d: "distinct (Head # qs)"
    and o: "\<And>u. u \<notin> insert Head (set qs) \<Longrightarrow> nx h u = None \<and> pv h u = None"
    using q by (auto simp: queue_ok_def)
  from linked_ends [OF l] have "pv h Head = Some p" by (simp add: p_def)
  then obtain hx where hx: "h Head = Some hx" "t_prev hx = Some p" by (auto dest: pv_Some_dom)
  have p: "p \<in> insert Head (set qs)" unfolding p_def by (cases qs rule: rev_cases) auto
  then obtain y where y: "h p = Some y" using queue_ok_live [OF q] by blast
  obtain h' where h': "Proactor_enqueue t h = Inr h'" "same_payload h h'"
    and n: "nx h' = (nx h)(t := Some Head, p := Some t)" "pv h' = (pv h)(t := Some p, Head := Some t)"
    using Proactor_enqueue_links [OF hx x _ y] t p by blast
  have "linked ((nx h)(p := Some t)) ((pv h)(t := Some p)) Head qs t"
    unfolding p_def using l d t by (intro linked_retarget) auto
  then have "linked (nx h') (pv h') Head qs t"
    by (rule linked_cong) (use t d p in \<open>auto simp: n\<close>)
  moreover have "nx h' t = Some Head" "pv h' Head = Some t" using p t by (auto simp: n)
  ultimately have "queue_ok h' (qs @ [t])"
    unfolding queue_ok_def using o d t p by (auto simp: n)
  with h' show ?thesis by blast
qed

lemma Proactor_remove_links:
  assumes t: "h t = Some x" "t_next x = Some n" "t_prev x = Some p"
    and n: "h n = Some y" "n \<noteq> t" and p: "h p = Some z" "p \<noteq> t"
  shows "\<exists>h'. Proactor_remove t h = Inr h' \<and> nx h' = (nx h)(p := Some n, t := None) \<and>
    pv h' = (pv h)(n := Some p, t := None) \<and> same_payload h h'"
proof (cases "n = p")
  case True
  then show ?thesis
    using assms by (simp add: Proactor_remove_def) (auto simp: fun_eq_iff nx_get pv_get same_payload_def)
next
  case False
  then show ?thesis
    using assms by (simp add: Proactor_remove_def) (auto simp: fun_eq_iff nx_get pv_get same_payload_def)
qed

text \<open>\<open>_remove\<close> takes a queued token out, wherever it stands.\<close>

lemma Proactor_remove_ok:
  assumes q: "queue_ok h qs" and t: "t \<in> set qs"
  shows "\<exists>h'. Proactor_remove t h = Inr h' \<and> queue_ok h' (remove1 t qs) \<and> same_payload h h'"
proof -
  obtain xs ys where qs: "qs = xs @ t # ys" using split_list [OF t] by blast
  define p where "p = last (Head # xs)"
  define n where "n = hd (ys @ [Head])"
  have l1: "linked (nx h) (pv h) Head xs t" and l2: "linked (nx h) (pv h) t ys Head"
    and d: "distinct (Head # xs @ t # ys)"
    and o: "\<And>u. u \<notin> insert Head (set qs) \<Longrightarrow> nx h u = None \<and> pv h u = None"
    using q by (auto simp: queue_ok_def qs)
  have np: "nx h t = Some n" "pv h t = Some p"
    using linked_ends [OF l1] linked_ends [OF l2] by (simp_all add: n_def p_def)
  have nm: "n \<in> insert Head (set ys)" "p \<in> insert Head (set xs)"
    unfolding p_def n_def by (cases ys; simp) (cases xs rule: rev_cases; simp)
  obtain x where x: "h t = Some x" "t_next x = Some n" "t_prev x = Some p"
    using np by (auto dest!: nx_Some_dom simp: pv_get)
  obtain y z where "h n = Some y" "h p = Some z"
    using queue_ok_live [OF q] nm by (force simp: qs)
  then obtain h' where h': "Proactor_remove t h = Inr h'" "same_payload h h'"
    and n': "nx h' = (nx h)(p := Some n, t := None)" "pv h' = (pv h)(n := Some p, t := None)"
    using Proactor_remove_links [of h t x n p y z] x nm d by fastforce
  have a: "linked ((nx h)(p := Some n)) ((pv h)(n := Some p)) Head xs n"
    unfolding p_def using l1 d nm by (intro linked_retarget) auto
  then have a: "linked (nx h') (pv h') Head xs n"
    by (rule linked_cong) (use nm d in \<open>auto simp: n'\<close>)
  have "linked (nx h') (pv h') Head (xs @ ys) Head"
  proof (cases ys)
    case Nil
    with a show ?thesis by (simp add: n_def)
  next
    case (Cons m ms)
    then have nm': "n = m" "p \<notin> insert m (set ms)" using nm(2) d by (auto simp: n_def)
    from Cons have "linked (nx h) (pv h) n ms Head" using l2 by (simp add: n_def)
    then have "linked (nx h') (pv h') n ms Head"
      by (rule linked_cong) (use nm' d Cons in \<open>auto simp: n'\<close>)
    with a Cons show ?thesis by (simp add: n_def)
  qed
  moreover have "remove1 t qs = xs @ ys" using d by (simp add: qs remove1_append)
  moreover have "nx h' u = None \<and> pv h' u = None" if "u \<notin> insert Head (set (xs @ ys))" for u
    using that nm o [of u] by (auto simp: n' qs)
  ultimately have "queue_ok h' (remove1 t qs)"
    unfolding queue_ok_def using d by auto
  with h' show ?thesis by blast
qed

section \<open>The interface of a queue with removal\<close>

text \<open>
  What the proactor relies on: a token joins at the end, the front is the oldest one, and any queued
  token can be taken out. \<open>may e s\<close> says which tokens may join; \<open>none\<close> is the answer of an
  empty queue.
\<close>

fun enq_all :: "('e \<Rightarrow> 's \<Rightarrow> 'r + 's) \<Rightarrow> 'e list \<Rightarrow> 's \<Rightarrow> 'r + 's" where
  "enq_all enq [] s = Inr s"
| "enq_all enq (e # es) s = bindS (enq e s) (enq_all enq es)"

fun pop_all :: "('s \<Rightarrow> 'r + 'e) \<Rightarrow> ('e \<Rightarrow> 's \<Rightarrow> 'r + 's) \<Rightarrow> nat \<Rightarrow> 's \<Rightarrow> 'r + 'e list \<times> 's" where
  "pop_all front del 0 s = Inr ([], s)"
| "pop_all front del (Suc n) s =
     bindS (front s) (\<lambda>e. bindS (del e s) (\<lambda>s. bindS (pop_all front del n s) (\<lambda>(es, s). Inr (e # es, s))))"

locale fifo_queue =
  fixes enq :: "'e \<Rightarrow> 's \<Rightarrow> 'r + 's" and front :: "'s \<Rightarrow> 'r + 'e" and del :: "'e \<Rightarrow> 's \<Rightarrow> 'r + 's"
    and rel :: "'s \<Rightarrow> 'e list \<Rightarrow> bool" and may :: "'e \<Rightarrow> 's \<Rightarrow> bool" and none :: 'e
  assumes enq_ok: "rel s qs \<Longrightarrow> may e s \<Longrightarrow> e \<notin> set qs \<Longrightarrow> \<exists>s'. enq e s = Inr s' \<and> rel s' (qs @ [e]) \<and> (\<forall>x. may x s \<longrightarrow> may x s')"
    and front_ok: "rel s qs \<Longrightarrow> front s = Inr (hd (qs @ [none]))"
    and del_ok: "rel s qs \<Longrightarrow> e \<in> set qs \<Longrightarrow> \<exists>s'. del e s = Inr s' \<and> rel s' (remove1 e qs) \<and> (\<forall>x. may x s \<longrightarrow> may x s')"
begin

lemma enq_all_ok:
  "rel s qs \<Longrightarrow> distinct es \<Longrightarrow> set es \<inter> set qs = {} \<Longrightarrow> \<forall>e\<in>set es. may e s \<Longrightarrow>
   \<exists>s'. enq_all enq es s = Inr s' \<and> rel s' (qs @ es)"
proof (induction es arbitrary: s qs)
  case (Cons e es)
  obtain s1 where s1: "enq e s = Inr s1" "rel s1 (qs @ [e])" "\<forall>x. may x s \<longrightarrow> may x s1"
    using enq_ok [OF Cons.prems(1), of e] Cons.prems(3,4) by auto
  then show ?case using Cons.IH [OF s1(2)] Cons.prems by auto
qed simp

lemma pop_all_ok: "rel s qs \<Longrightarrow> \<exists>s'. pop_all front del (length qs) s = Inr (qs, s') \<and> rel s' []"
proof (induction qs arbitrary: s)
  case (Cons q qs)
  obtain s1 where s1: "del q s = Inr s1" "rel s1 qs" using del_ok [OF Cons.prems, of q] by auto
  then show ?case using Cons.IH [OF s1(2)] front_ok [OF Cons.prems] by auto
qed simp

text \<open>First in, first out; a token that is taken out in between does not disturb the others.\<close>

lemma fifo:
  assumes "rel s qs" and "distinct es" and "set es \<inter> set qs = {}" and "\<forall>e\<in>set es. may e s"
  shows "\<exists>s'. bindS (enq_all enq es s) (pop_all front del (length qs + length es)) = Inr (qs @ es, s') \<and> rel s' []"
  using enq_all_ok [OF assms] pop_all_ok by (metis bindS_simps(2) length_append)

lemma fifo_without:
  assumes "rel s qs" and "e \<in> set qs"
  shows "\<exists>s'. bindS (del e s) (pop_all front del (length qs - 1)) = Inr (remove1 e qs, s') \<and> rel s' []"
  using del_ok [OF assms] pop_all_ok assms(2) by (metis bindS_simps(2) length_remove1)

end

lemma same_payload_may: "same_payload h h' \<Longrightarrow> t \<noteq> Head \<and> h t \<noteq> None \<Longrightarrow> t \<noteq> Head \<and> h' t \<noteq> None"
  using same_payload_dom by (metis domIff)

interpretation tq: fifo_queue Proactor_enqueue queue_front Proactor_remove queue_ok "\<lambda>t h. t \<noteq> Head \<and> h t \<noteq> None" Head
proof (unfold_locales, goal_cases)
  case (1 h qs t)
  then obtain x where "h t = Some x" by blast
  then show ?case using Proactor_enqueue_ok [of h qs t x] 1 same_payload_may by blast
next
  case (2 h qs)
  then show ?case by (rule queue_front_ok)
next
  case (3 h qs t)
  then show ?case using Proactor_remove_ok same_payload_may by blast
qed

end
