(* ===== verification/Proactor.thy ===== *)
theory Proactor
  imports Kernel TokenQueue
begin

text \<open>
  The state of the running program and the parts of \<open>aio::Proactor\<close> that do not depend on the
  poller (aio/unix/proactor.h, proactor.cpp): construction, \<open>stop\<close>, the timer list, the
  delivery of completions and of timeouts. The state holds the C++ objects (sockets with their two
  tokens, acceptors), the buffers, the members of the one proactor, and the operating system.
\<close>

section \<open>The state\<close>

record 'acb acceptor =
  a_soc :: int
  a_cb :: "'acb option"
  a_err :: error

record ('cb, 'acb, 'k) world =
  toks :: "'cb store"
  socks :: "nat \<rightharpoonup> int"
  accs :: "nat \<rightharpoonup> 'acb acceptor"
  mem :: memory
  next_obj :: nat
  p_pollIntervalMsec :: int
  p_fd :: int
  p_stop :: bool
  p_err :: error
  p_deleted :: "handler list"
  p_timerList :: "tokref list"
  os :: 'k

type_synonym ('cb, 'acb, 'k) wres = "fault + ('cb, 'acb, 'k) world"

text \<open>
  \<open>socks w s\<close> is the member \<open>_soc\<close> of the live socket object \<open>s\<close>, whose tokens are
  \<open>Rt s\<close> and \<open>Wt s\<close>. The environment of the library: the system calls, what a
  \<open>Callback\<close> or an \<open>AcceptCallback\<close> does, and the handler of the process's signals.
\<close>

record ('cb, 'acb, 'k) env =
  e_kern :: "'k kernel"
  e_call :: "'cb \<Rightarrow> error \<Rightarrow> int \<Rightarrow> ('cb, 'acb, 'k) world \<Rightarrow> ('cb, 'acb, 'k) wres"
  e_acall :: "'acb \<Rightarrow> error \<Rightarrow> int \<Rightarrow> ('cb, 'acb, 'k) world \<Rightarrow> ('cb, 'acb, 'k) wres"
  e_signal :: "int \<Rightarrow> ('cb, 'acb, 'k) world \<Rightarrow> ('cb, 'acb, 'k) world"

definition on_toks :: "('cb store \<Rightarrow> fault + 'cb store) \<Rightarrow> ('cb, 'acb, 'k) world \<Rightarrow> ('cb, 'acb, 'k) wres" where
  "on_toks f w = bindS (f (toks w)) (\<lambda>h. Inr (w\<lparr>toks := h\<rparr>))"

definition tok_get :: "tokref \<Rightarrow> ('cb, 'acb, 'k) world \<Rightarrow> fault + 'cb token" where
  "tok_get t w = st_get t (toks w)"

definition tok_upd :: "tokref \<Rightarrow> ('cb token \<Rightarrow> 'cb token) \<Rightarrow> ('cb, 'acb, 'k) world \<Rightarrow> ('cb, 'acb, 'k) wres" where
  "tok_upd t f w = on_toks (st_upd t f) w"

lemma tok_get_Some [simp]: "toks w t = Some x \<Longrightarrow> tok_get t w = Inr x"
  by (simp add: tok_get_def)

lemma tok_upd_Some [simp]: "toks w t = Some x \<Longrightarrow> tok_upd t f w = Inr (w\<lparr>toks := (toks w)(t \<mapsto> f x)\<rparr>)"
  by (simp add: tok_upd_def on_toks_def)

text \<open>\<open>EventHandler::handle\<close> of a socket and of an acceptor.\<close>

definition sock_fd :: "nat \<Rightarrow> ('cb, 'acb, 'k) world \<Rightarrow> fault + int" where
  "sock_fd s w = (case socks w s of None \<Rightarrow> Inl Dangling | Some fd \<Rightarrow> Inr fd)"

definition acc_get :: "nat \<Rightarrow> ('cb, 'acb, 'k) world \<Rightarrow> fault + 'acb acceptor" where
  "acc_get a w = (case accs w a of None \<Rightarrow> Inl Dangling | Some x \<Rightarrow> Inr x)"

definition handle :: "handler \<Rightarrow> ('cb, 'acb, 'k) world \<Rightarrow> fault + int" where
  "handle h w = (case h of HSock s \<Rightarrow> sock_fd s w | HAcc a \<Rightarrow> bindS (acc_get a w) (\<lambda>x. Inr (a_soc x)))"

lemma sock_fd_Some [simp]: "socks w s = Some fd \<Longrightarrow> sock_fd s w = Inr fd"
  by (simp add: sock_fd_def)

lemma acc_get_Some [simp]: "accs w a = Some x \<Longrightarrow> acc_get a w = Inr x"
  by (simp add: acc_get_def)

section \<open>Construction and stop\<close>

text \<open>
  The constructor: poll interval 100, no descriptor, not stopped, the sentinel linked to itself.
\<close>

definition Proactor_new :: "'k kernel \<Rightarrow> memory \<Rightarrow> 'k \<Rightarrow> ('cb, 'acb, 'k) world" where
  "Proactor_new K m k =
     \<lparr>toks = queue_init (k_fresh_tv K 0 k), socks = Map.empty, accs = Map.empty, mem = m, next_obj = 0,
      p_pollIntervalMsec = 100, p_fd = -1, p_stop = False, p_err = Error_clear Error_new,
      p_deleted = [], p_timerList = [], os = k\<rparr>"

definition Proactor_stop :: "('cb, 'acb, 'k) world \<Rightarrow> ('cb, 'acb, 'k) world" where
  "Proactor_stop w = w\<lparr>p_stop := True\<rparr>"

section \<open>Timers\<close>

text \<open>The key of the ordered set: the member \<open>tv\<close> of the token a pointer refers to.\<close>

definition st_tv :: "'cb store \<Rightarrow> tokref \<Rightarrow> timeval" where
  "st_tv h t = (case h t of None \<Rightarrow> Timeval 0 0 | Some x \<Rightarrow> t_tv x)"

text \<open>
  Searching the ordered set follows the pointers stored in it: it is a fault when one of them
  points to a destroyed token. (The search visits only a path of the tree; the model asks all
  of the elements to be live.)
\<close>

definition timers_deref :: "('cb, 'acb, 'k) world \<Rightarrow> fault + unit" where
  "timers_deref w = (if list_all (\<lambda>t. toks w t \<noteq> None) (p_timerList w) then Inr () else Inl Dangling)"

definition Proactor_pushTimer ::
  "'k kernel \<Rightarrow> tokref \<Rightarrow> int \<Rightarrow> ('cb, 'acb, 'k) world \<Rightarrow> ('cb, 'acb, 'k) wres" where
  "Proactor_pushTimer K token timeoutMsec w =
     (if timeoutMsec = 0 then Inr w
      else case k_gettimeofday K (os w) of (cur, k) \<Rightarrow>
        bindS (tok_upd token (\<lambda>t. t\<lparr>t_tv := timeradd cur (timeout_interval timeoutMsec)\<rparr>) (w\<lparr>os := k\<rparr>)) (\<lambda>w.
        bindS (timers_deref w) (\<lambda>_.
        Inr (w\<lparr>p_timerList := fst (set_insert (st_tv (toks w)) token (p_timerList w))\<rparr>))))"

definition Proactor_popTimer :: "tokref \<Rightarrow> ('cb, 'acb, 'k) world \<Rightarrow> ('cb, 'acb, 'k) wres" where
  "Proactor_popTimer token w =
     bindS (tok_get token w) (\<lambda>_.
     bindS (timers_deref w) (\<lambda>_.
     Inr (w\<lparr>p_timerList := set_erase (st_tv (toks w)) token (p_timerList w)\<rparr>)))"

section \<open>Delivering completions and timeouts\<close>

definition invoke ::
  "('cb, 'acb, 'k) env \<Rightarrow> 'cb option \<Rightarrow> error \<Rightarrow> int \<Rightarrow> ('cb, 'acb, 'k) world \<Rightarrow> ('cb, 'acb, 'k) wres" where
  "invoke E c err n w = (case c of None \<Rightarrow> Inl Bad_function_call | Some f \<Rightarrow> e_call E f err n w)"

text \<open>
  The body of the loop of \<open>_processCompletion\<close>: up to the call, and with the call. A callback
  takes the error by reference; the model passes the value it has at the call.
\<close>

definition Proactor_take :: "tokref \<Rightarrow> ('cb, 'acb, 'k) world \<Rightarrow> ('cb, 'acb, 'k) wres" where
  "Proactor_take cur w =
     bindS (on_toks (Proactor_remove cur) w) (\<lambda>w.
     bindS (Proactor_popTimer cur w) (\<lambda>w.
     tok_upd cur (\<lambda>t. t\<lparr>t_mode := M_NONE\<rparr>) w))"

definition Proactor_complete ::
  "('cb, 'acb, 'k) env \<Rightarrow> tokref \<Rightarrow> ('cb, 'acb, 'k) world \<Rightarrow> ('cb, 'acb, 'k) wres" where
  "Proactor_complete E cur w =
     bindS (Proactor_take cur w) (\<lambda>w.
     bindS (tok_get cur w) (\<lambda>t. invoke E (t_cb t) (t_err t) (t_ioSize t) w))"

partial_function (option) Proactor_processCompletion ::
  "('cb, 'acb, 'k) env \<Rightarrow> ('cb, 'acb, 'k) world \<Rightarrow> ('cb, 'acb, 'k) wres option" where
  "Proactor_processCompletion E w =
     (case queue_front (toks w) of
        Inl f \<Rightarrow> Some (Inl f)
      | Inr cur \<Rightarrow>
          if cur = Head then Some (Inr w)
          else (case Proactor_complete E cur w of
                  Inl f \<Rightarrow> Some (Inl f)
                | Inr w' \<Rightarrow> Proactor_processCompletion E w'))"

declare Proactor_processCompletion.simps [code]

text \<open>The body of the loop of \<open>_processTimer\<close> for an expired token, and the loop.\<close>

definition Proactor_timeout ::
  "('cb, 'acb, 'k) env \<Rightarrow> tokref \<Rightarrow> ('cb, 'acb, 'k) world \<Rightarrow> ('cb, 'acb, 'k) wres" where
  "Proactor_timeout E cur w =
     bindS (tok_upd cur (\<lambda>t. t\<lparr>t_mode := M_NONE, t_err := Error_set (t_err t) ETIMEDOUT ''timeout'' []\<rparr>)
              (w\<lparr>p_timerList := tl (p_timerList w)\<rparr>)) (\<lambda>w.
     bindS (tok_get cur w) (\<lambda>t. invoke E (t_cb t) (t_err t) 0 w))"

partial_function (option) Proactor_timerLoop ::
  "('cb, 'acb, 'k) env \<Rightarrow> timeval \<Rightarrow> ('cb, 'acb, 'k) world \<Rightarrow> ('cb, 'acb, 'k) wres option" where
  "Proactor_timerLoop E now w =
     (case p_timerList w of
        [] \<Rightarrow> Some (Inr w)
      | cur # _ \<Rightarrow>
          (case tok_get cur w of
             Inl f \<Rightarrow> Some (Inl f)
           | Inr t \<Rightarrow>
               if t_tv t < now
               then (case Proactor_timeout E cur w of
                       Inl f \<Rightarrow> Some (Inl f)
                     | Inr w' \<Rightarrow> Proactor_timerLoop E now w')
               else Some (Inr w)))"

declare Proactor_timerLoop.simps [code]

definition Proactor_processTimer ::
  "('cb, 'acb, 'k) env \<Rightarrow> ('cb, 'acb, 'k) world \<Rightarrow> ('cb, 'acb, 'k) wres option" where
  "Proactor_processTimer E w =
     (case k_gettimeofday (e_kern E) (os w) of (now, k) \<Rightarrow> Proactor_timerLoop E now (w\<lparr>os := k\<rparr>))"

section \<open>Well-formed states\<close>

definition queued_mode :: "mode \<Rightarrow> bool" where
  "queued_mode m \<longleftrightarrow> m = M_DONE \<or> m = M_ERR"

definition pending_mode :: "mode \<Rightarrow> bool" where
  "pending_mode m \<longleftrightarrow> m = M_SOME \<or> m = M_ALL"

text \<open>
  A token that is not idle has a callback, a pending request has transferred some prefix of its
  buffer, and one that waits for its first bytes has transferred none.
\<close>

definition tok_ok :: "'cb token \<Rightarrow> bool" where
  "tok_ok x \<longleftrightarrow> (t_mode x \<noteq> M_NONE \<longrightarrow> t_cb x \<noteq> None) \<and>
     (pending_mode (t_mode x) \<longrightarrow> 0 \<le> t_ioSize x \<and> t_ioSize x \<le> t_bufSize x) \<and>
     (t_mode x = M_SOME \<longrightarrow> t_ioSize x = 0) \<and> Error_ok (t_err x)"

definition live_ok :: "'cb store \<Rightarrow> (nat \<rightharpoonup> int) \<Rightarrow> bool" where
  "live_ok h ss \<longleftrightarrow> (\<forall>s. (h (Rt s) = None \<longleftrightarrow> ss s = None) \<and> (h (Wt s) = None \<longleftrightarrow> ss s = None))"

definition modes_ok :: "'cb store \<Rightarrow> tokref list \<Rightarrow> bool" where
  "modes_ok h qs \<longleftrightarrow>
     (\<forall>t x. h t = Some x \<longrightarrow> t \<noteq> Head \<longrightarrow> tok_ok x \<and> (t \<in> set qs \<longleftrightarrow> queued_mode (t_mode x)))"

definition timers_ok :: "'cb store \<Rightarrow> tokref list \<Rightarrow> bool" where
  "timers_ok h ts \<longleftrightarrow> key_sorted (st_tv h) ts \<and>
     (\<forall>t\<in>set ts. t \<noteq> Head \<and> (\<exists>x. h t = Some x \<and> t_mode x \<noteq> M_NONE))"

definition wf :: "('cb, 'acb, 'k) world \<Rightarrow> tokref list \<Rightarrow> bool" where
  "wf w qs \<longleftrightarrow> queue_ok (toks w) qs \<and> live_ok (toks w) (socks w) \<and> modes_ok (toks w) qs \<and>
     timers_ok (toks w) (p_timerList w)"

lemma wfD:
  assumes "wf w qs"
  shows "queue_ok (toks w) qs" and "live_ok (toks w) (socks w)" and "modes_ok (toks w) qs"
    and "timers_ok (toks w) (p_timerList w)"
  using assms by (simp_all add: wf_def)

lemma mode_simps [simp]:
  "queued_mode M_DONE" "queued_mode M_ERR" "\<not> queued_mode M_NONE" "\<not> queued_mode M_SOME" "\<not> queued_mode M_ALL"
  "pending_mode M_SOME" "pending_mode M_ALL" "\<not> pending_mode M_NONE" "\<not> pending_mode M_DONE" "\<not> pending_mode M_ERR"
  by (simp_all add: queued_mode_def pending_mode_def)

lemma modes_okD:
  assumes "modes_ok h qs" and "h t = Some x" and "t \<noteq> Head"
  shows "tok_ok x" and "t \<in> set qs \<longleftrightarrow> queued_mode (t_mode x)"
  using assms unfolding modes_ok_def by blast+

lemma timers_okD:
  assumes "timers_ok h ts"
  shows "key_sorted (st_tv h) ts" and "t \<in> set ts \<Longrightarrow> t \<noteq> Head"
    and "t \<in> set ts \<Longrightarrow> \<exists>x. h t = Some x \<and> t_mode x \<noteq> M_NONE"
  using assms unfolding timers_ok_def by blast+

lemma live_ok_iff:
  assumes "live_ok h ss"
  shows "(\<exists>x. h (Rt s) = Some x) \<longleftrightarrow> (\<exists>fd. ss s = Some fd)" and "(\<exists>x. h (Wt s) = Some x) \<longleftrightarrow> (\<exists>fd. ss s = Some fd)"
  using assms unfolding live_ok_def by (metis not_None_eq)+

text \<open>Each part under an update of one token and under a change of links.\<close>

lemma live_ok_dom: "live_ok h ss \<Longrightarrow> dom h' = dom h \<Longrightarrow> live_ok h' ss"
  unfolding live_ok_def by (metis domIff)

lemma live_ok_upd: "live_ok h ss \<Longrightarrow> h t = Some x \<Longrightarrow> live_ok (h(t \<mapsto> y)) ss"
  by (erule live_ok_dom) auto

lemma modes_ok_upd:
  "modes_ok h qs \<Longrightarrow> tok_ok y \<Longrightarrow> (t \<in> set qs \<longleftrightarrow> queued_mode (t_mode y)) \<Longrightarrow> modes_ok (h(t \<mapsto> y)) qs"
  by (simp add: modes_ok_def)

lemma modes_ok_change:
  "modes_ok h qs \<Longrightarrow> tok_ok y \<Longrightarrow> (t \<in> set qs' \<longleftrightarrow> queued_mode (t_mode y)) \<Longrightarrow>
   (\<And>u. u \<noteq> t \<Longrightarrow> u \<in> set qs' \<longleftrightarrow> u \<in> set qs) \<Longrightarrow> modes_ok (h(t \<mapsto> y)) qs'"
  by (simp add: modes_ok_def)

lemma same_payload_sym: "same_payload h h' \<Longrightarrow> same_payload h' h"
  by (simp add: same_payload_def)

lemma tok_ok_unlink:
  assumes "unlink x = unlink y"
  shows "tok_ok x = tok_ok y"
  using unlink_eqD [OF assms] by (simp add: tok_ok_def)

lemma modes_ok_payload:
  assumes m: "modes_ok h qs" and p: "same_payload h h'"
  shows "modes_ok h' qs"
proof -
  have "tok_ok x \<and> (t \<in> set qs \<longleftrightarrow> queued_mode (t_mode x))" if x: "h' t = Some x" and t: "t \<noteq> Head" for t x
  proof -
    obtain y where y: "h t = Some y" "unlink y = unlink x"
      using same_payloadD [OF same_payload_sym [OF p] x] by blast
    show ?thesis
      using modes_okD [OF m y(1) t] tok_ok_unlink [OF y(2)] unlink_eqD [OF y(2)] by simp
  qed
  then show ?thesis by (simp add: modes_ok_def)
qed

lemma st_tv_payload: "same_payload h h' \<Longrightarrow> st_tv h' t = st_tv h t"
proof (cases "h t")
  case None
  assume "same_payload h h'"
  with None have "h' t = None" by (metis domIff same_payload_dom)
  with None show ?thesis by (simp add: st_tv_def)
next
  case (Some x)
  assume "same_payload h h'"
  with Some obtain y where "h' t = Some y" "unlink y = unlink x" by (blast dest: same_payloadD)
  with Some show ?thesis by (auto simp: st_tv_def dest: unlink_eqD)
qed

lemma timers_ok_payload:
  assumes t: "timers_ok h ts" and p: "same_payload h h'"
  shows "timers_ok h' ts"
proof -
  have "st_tv h' = st_tv h" using st_tv_payload [OF p] by blast
  moreover have "\<exists>y. h' u = Some y \<and> t_mode y \<noteq> M_NONE" if "u \<in> set ts" for u
    using timers_okD(3) [OF t that] same_payloadD [OF p] unlink_eqD by metis
  ultimately show ?thesis using t by (simp add: timers_ok_def)
qed

lemma timers_ok_upd:
  assumes "timers_ok h ts" and "t \<in> set ts \<Longrightarrow> t_mode y \<noteq> M_NONE \<and> t_tv y = st_tv h t"
  shows "timers_ok (h(t \<mapsto> y)) ts"
proof -
  have "st_tv (h(t \<mapsto> y)) u = st_tv h u" if "u \<in> set ts" for u
    using that assms(2) by (auto simp: st_tv_def)
  then have "key_sorted (st_tv (h(t \<mapsto> y))) ts"
    using timers_okD(1) [OF assms(1)] key_sorted_cong by blast
  then show ?thesis using assms by (auto simp: timers_ok_def)
qed

lemma timers_ok_del: "timers_ok h ts \<Longrightarrow> t \<notin> set ts \<Longrightarrow> timers_ok (h(t := None)) ts"
proof -
  assume a: "timers_ok h ts" "t \<notin> set ts"
  then have "st_tv (h(t := None)) u = st_tv h u" if "u \<in> set ts" for u
    using that by (auto simp: st_tv_def)
  then have "key_sorted (st_tv (h(t := None))) ts"
    using timers_okD(1) [OF a(1)] key_sorted_cong by blast
  then show ?thesis using a by (auto simp: timers_ok_def)
qed

lemma timers_ok_insert:
  assumes "timers_ok h ts" and "h t = Some x" "t_mode x \<noteq> M_NONE" "t \<noteq> Head"
  shows "timers_ok h (fst (set_insert (st_tv h) t ts))"
  using assms set_insert_subset [of "st_tv h" t ts] by (auto simp: timers_ok_def set_insert_sorted)

lemma timers_ok_erase: "timers_ok h ts \<Longrightarrow> timers_ok h (set_erase (st_tv h) t ts)"
  by (auto simp: timers_ok_def set_erase_filter key_sorted_filter)

lemma timers_deref_ok: "timers_ok (toks w) (p_timerList w) \<Longrightarrow> timers_deref w = Inr ()"
  by (fastforce simp: timers_deref_def list_all_iff timers_ok_def)

lemma queue_init_other: "t \<noteq> Head \<Longrightarrow> queue_init g t = None"
  by (simp add: queue_init_def)

lemma wf_new: "wf (Proactor_new K m k) []"
  by (auto simp: wf_def Proactor_new_def queue_ok_init live_ok_def modes_ok_def timers_ok_def queue_init_other)

text \<open>The payload of the tokens, without their links.\<close>

definition view :: "('cb, 'acb, 'k) world \<Rightarrow> tokref \<Rightarrow> 'cb token option" where
  "view w t = (if t = Head then None else map_option unlink (toks w t))"

lemma view_Some: "toks w t = Some x \<Longrightarrow> t \<noteq> Head \<Longrightarrow> view w t = Some (unlink x)"
  by (simp add: view_def)

lemma view_SomeD: "view w t = Some y \<Longrightarrow> \<exists>x. toks w t = Some x \<and> t \<noteq> Head \<and> y = unlink x"
  by (auto simp: view_def split: if_splits)

lemma view_upd: "t \<noteq> Head \<Longrightarrow> view (w\<lparr>toks := (toks w)(t \<mapsto> y)\<rparr>) = (view w)(t \<mapsto> unlink y)"
  by (auto simp: view_def)

lemma view_same_payload: "same_payload (toks w) h \<Longrightarrow> view (w\<lparr>toks := h\<rparr>) = view w"
  by (auto simp: view_def same_payload_def)

lemma view_frame [simp]:
  "view (w\<lparr>os := k\<rparr>) = view w" "view (w\<lparr>mem := m\<rparr>) = view w" "view (w\<lparr>p_deleted := d\<rparr>) = view w"
  "view (w\<lparr>p_err := e\<rparr>) = view w" "view (w\<lparr>accs := a\<rparr>) = view w" "view (w\<lparr>next_obj := n\<rparr>) = view w"
  "view (w\<lparr>p_fd := f\<rparr>) = view w" "view (w\<lparr>p_stop := b\<rparr>) = view w" "view (w\<lparr>socks := ss\<rparr>) = view w"
  "view (w\<lparr>p_timerList := ts\<rparr>) = view w"
  by (simp_all add: view_def fun_eq_iff)

lemma wf_frame [simp]:
  "wf (w\<lparr>os := k\<rparr>) qs = wf w qs" "wf (w\<lparr>mem := m\<rparr>) qs = wf w qs" "wf (w\<lparr>p_deleted := d\<rparr>) qs = wf w qs"
  "wf (w\<lparr>p_err := e\<rparr>) qs = wf w qs" "wf (w\<lparr>accs := a\<rparr>) qs = wf w qs" "wf (w\<lparr>next_obj := n\<rparr>) qs = wf w qs"
  "wf (w\<lparr>p_fd := f\<rparr>) qs = wf w qs" "wf (w\<lparr>p_stop := b\<rparr>) qs = wf w qs"
  by (simp_all add: wf_def)

text \<open>Changing what a token holds, but not its links nor whether it is queued.\<close>

lemma wf_upd:
  assumes w: "wf w qs" and x: "toks w t = Some x" and t: "t \<noteq> Head"
    and l: "t_next y = t_next x" "t_prev y = t_prev x" and y: "tok_ok y"
    and q: "queued_mode (t_mode y) = queued_mode (t_mode x)"
    and tm: "t \<in> set (p_timerList w) \<Longrightarrow> t_mode y \<noteq> M_NONE \<and> t_tv y = t_tv x"
  shows "wf (w\<lparr>toks := (toks w)(t \<mapsto> y)\<rparr>) qs"
  using queue_ok_upd [OF wfD(1) [OF w] x l] live_ok_upd [OF wfD(2) [OF w] x]
    modes_ok_upd [OF wfD(3) [OF w] y] modes_okD(2) [OF wfD(3) [OF w] x t] q
    timers_ok_upd [OF wfD(4) [OF w], of t y] tm x
  by (simp add: wf_def st_tv_def)

text \<open>Putting a token at the end of the queue, with the mode and count it completes with.\<close>

definition complete_token :: "tokref \<Rightarrow> int \<Rightarrow> mode \<Rightarrow> ('cb, 'acb, 'k) world \<Rightarrow> ('cb, 'acb, 'k) wres" where
  "complete_token t n m w = bindS (tok_upd t (Token_set n m) w) (on_toks (Proactor_enqueue t))"

lemma Token_set_fields [simp]:
  "t_next (Token_set n m x) = t_next x" "t_prev (Token_set n m x) = t_prev x" "t_cb (Token_set n m x) = t_cb x"
  "t_mode (Token_set n m x) = m" "t_ioSize (Token_set n m x) = n" "t_err (Token_set n m x) = t_err x"
  "t_tv (Token_set n m x) = t_tv x" "t_buf (Token_set n m x) = t_buf x" "t_bufSize (Token_set n m x) = t_bufSize x"
  by (simp_all add: Token_set_def)

lemma complete_token_ok:
  assumes w: "wf w qs" and x: "toks w t = Some x" and t: "t \<noteq> Head"
    and m: "\<not> queued_mode (t_mode x)" "queued_mode m" and c: "t_cb x \<noteq> None"
  shows "\<exists>h. complete_token t n m w = Inr (w\<lparr>toks := h\<rparr>) \<and> wf (w\<lparr>toks := h\<rparr>) (qs @ [t]) \<and>
    view (w\<lparr>toks := h\<rparr>) = (view w)(t \<mapsto> unlink (Token_set n m x))"
proof -
  let ?y = "Token_set n m x"
  let ?h = "(toks w)(t \<mapsto> ?y)"
  have ntq: "t \<notin> set qs" using modes_okD(2) [OF wfD(3) [OF w] x t] m by simp
  have "queue_ok ?h qs"
    using wfD(1) [OF w] x by (rule queue_ok_upd) simp_all
  then obtain h where h: "Proactor_enqueue t ?h = Inr h" "queue_ok h (qs @ [t])" "same_payload ?h h"
    using Proactor_enqueue_ok [of ?h qs t ?y] ntq t by auto
  have "tok_ok ?y" using modes_okD(1) [OF wfD(3) [OF w] x t] m c by (auto simp: tok_ok_def queued_mode_def)
  then have "modes_ok ?h (qs @ [t])"
    using wfD(3) [OF w] m by (intro modes_ok_change [of _ qs]) auto
  moreover have "timers_ok ?h (p_timerList w)"
    using wfD(4) [OF w] x m by (intro timers_ok_upd) (auto simp: st_tv_def queued_mode_def)
  moreover have "live_ok ?h (socks w)" using wfD(2) [OF w] x by (rule live_ok_upd)
  ultimately have "wf (w\<lparr>toks := h\<rparr>) (qs @ [t])"
    using h modes_ok_payload timers_ok_payload live_ok_dom same_payload_dom
    by (simp add: wf_def) blast
  moreover have "view (w\<lparr>toks := h\<rparr>) = (view w)(t \<mapsto> unlink ?y)"
    using view_same_payload [of "w\<lparr>toks := ?h\<rparr>" h] h(3) view_upd [OF t] by simp
  ultimately show ?thesis
    using h(1) x by (auto simp: complete_token_def on_toks_def)
qed

text \<open>Arming the timer of a token that has just become pending.\<close>

lemma Proactor_pushTimer_ok:
  assumes w: "wf w qs" and x: "toks w t = Some x" and t: "t \<noteq> Head" and m: "t_mode x \<noteq> M_NONE"
    and nt: "t \<notin> set (p_timerList w)"
  shows "\<exists>g ts k. Proactor_pushTimer K t ms w =
      Inr (w\<lparr>toks := (toks w)(t \<mapsto> x\<lparr>t_tv := g\<rparr>), p_timerList := ts, os := k\<rparr>) \<and>
    wf (w\<lparr>toks := (toks w)(t \<mapsto> x\<lparr>t_tv := g\<rparr>), p_timerList := ts, os := k\<rparr>) qs \<and>
    set ts \<subseteq> insert t (set (p_timerList w)) \<and>
    (k = os w \<or> k = snd (k_gettimeofday K (os w)))"
proof (cases "ms = 0")
  case True
  have "w\<lparr>toks := (toks w)(t \<mapsto> x\<lparr>t_tv := t_tv x\<rparr>), p_timerList := p_timerList w, os := os w\<rparr> = w"
    using x by (simp add: fun_upd_idem)
  with True w show ?thesis
    by (intro exI [of _ "t_tv x"] exI [of _ "p_timerList w"] exI [of _ "os w"])
      (auto simp: Proactor_pushTimer_def)
next
  case False
  obtain cur k where k: "k_gettimeofday K (os w) = (cur, k)" by fastforce
  define g where "g = timeradd cur (timeout_interval ms)"
  define h where "h = (toks w)(t \<mapsto> x\<lparr>t_tv := g\<rparr>)"
  define ts where "ts = fst (set_insert (st_tv h) t (p_timerList w))"
  have "wf (w\<lparr>toks := h\<rparr>) qs" unfolding h_def using w x t
    by (rule wf_upd) (use nt modes_okD(1) [OF wfD(3) [OF w] x t] in \<open>auto simp: tok_ok_def\<close>)
  then have h: "queue_ok h qs" "live_ok h (socks w)" "modes_ok h qs" "timers_ok h (p_timerList w)"
    by (simp_all add: wf_def)
  have "timers_ok h ts" unfolding ts_def
    using h(4) m t by (intro timers_ok_insert [where x = "x\<lparr>t_tv := g\<rparr>"]) (simp_all add: h_def)
  with h have "wf (w\<lparr>toks := h, p_timerList := ts, os := k\<rparr>) qs" by (simp add: wf_def)
  moreover have "Proactor_pushTimer K t ms w = Inr (w\<lparr>toks := h, p_timerList := ts, os := k\<rparr>)"
    using False k x timers_deref_ok [of "w\<lparr>os := k, toks := h\<rparr>"] h(4)
    by (simp add: Proactor_pushTimer_def ts_def g_def h_def)
  ultimately show ?thesis
    using set_insert_subset [of "st_tv h" t "p_timerList w"] k unfolding h_def ts_def by auto
qed

text \<open>
  \<open>_popTimer\<close>: afterwards the token is not in the timer list. When it was there, nothing else
  left the list; when it was not, a token of the same deadline may have left it.
\<close>

lemma Proactor_popTimer_eq:
  "timers_ok (toks w) (p_timerList w) \<Longrightarrow> toks w t = Some x \<Longrightarrow>
   Proactor_popTimer t w = Inr (w\<lparr>p_timerList := set_erase (st_tv (toks w)) t (p_timerList w)\<rparr>)"
  by (simp add: Proactor_popTimer_def timers_deref_ok)

lemma erase_gone: "t \<notin> set (set_erase k t ts)" and erase_subset: "set (set_erase k t ts) \<subseteq> set ts"
  by (auto simp: set_erase_filter)

lemma Proactor_take_ok:
  assumes w: "wf w qs" and q: "t \<in> set qs" and x: "toks w t = Some x"
  shows "\<exists>h ts. Proactor_take t w = Inr (w\<lparr>toks := h, p_timerList := ts\<rparr>) \<and>
    wf (w\<lparr>toks := h, p_timerList := ts\<rparr>) (remove1 t qs) \<and>
    view (w\<lparr>toks := h, p_timerList := ts\<rparr>) = (view w)(t \<mapsto> unlink (x\<lparr>t_mode := M_NONE\<rparr>)) \<and>
    t \<notin> set ts \<and> set ts \<subseteq> set (p_timerList w)"
proof -
  have t: "t \<noteq> Head" and d: "distinct qs" using queue_ok_distinct [OF wfD(1) [OF w]] q by auto
  obtain h1 where h1: "Proactor_remove t (toks w) = Inr h1" "queue_ok h1 (remove1 t qs)"
      "same_payload (toks w) h1"
    using Proactor_remove_ok [OF wfD(1) [OF w] q] by blast
  obtain x1 where x1: "h1 t = Some x1" "unlink x1 = unlink x"
    using same_payloadD [OF h1(3) x] by blast
  define h where "h = h1(t \<mapsto> x1\<lparr>t_mode := M_NONE\<rparr>)"
  define ts where "ts = set_erase (st_tv h1) t (p_timerList w)"
  have e: "unlink (x1\<lparr>t_mode := M_NONE\<rparr>) = unlink (x\<lparr>t_mode := M_NONE\<rparr>)"
    using x1(2) by (cases x; cases x1) (simp add: unlink_def)
  have tm: "timers_ok h1 (p_timerList w)" using timers_ok_payload [OF wfD(4) [OF w] h1(3)] .
  have "Proactor_take t w = Inr (w\<lparr>toks := h, p_timerList := ts\<rparr>)"
    using h1(1) x1(1) tm Proactor_popTimer_eq [of "w\<lparr>toks := h1\<rparr>" t x1]
    by (simp add: Proactor_take_def on_toks_def h_def ts_def)
  moreover have "queue_ok h (remove1 t qs)"
    unfolding h_def using h1(2) x1(1) by (rule queue_ok_upd) simp_all
  moreover have "live_ok h (socks w)"
    unfolding h_def using live_ok_upd [OF live_ok_dom [OF wfD(2) [OF w] same_payload_dom [OF h1(3)]] x1(1)] .
  moreover have "tok_ok (x1\<lparr>t_mode := M_NONE\<rparr>)"
    using modes_okD(1) [OF modes_ok_payload [OF wfD(3) [OF w] h1(3)] x1(1) t] by (simp add: tok_ok_def)
  then have "modes_ok h (remove1 t qs)"
    unfolding h_def using modes_ok_payload [OF wfD(3) [OF w] h1(3)] d
    by (intro modes_ok_change [of _ qs]) auto
  moreover have "timers_ok h ts"
    unfolding h_def ts_def using timers_ok_erase [OF tm] by (rule timers_ok_upd) (simp add: erase_gone)
  moreover have "view (w\<lparr>toks := h, p_timerList := ts\<rparr>) = (view w)(t \<mapsto> unlink (x\<lparr>t_mode := M_NONE\<rparr>))"
    using view_same_payload [OF h1(3)] view_upd [OF t, of "w\<lparr>toks := h1\<rparr>"] by (simp add: h_def e)
  moreover have "t \<notin> set ts" "set ts \<subseteq> set (p_timerList w)"
    unfolding ts_def by (rule erase_gone, rule erase_subset)
  ultimately show ?thesis
    by (intro exI [of _ h] exI [of _ ts]) (simp add: wf_def)
qed

text \<open>The effect of an expired timer up to its callback.\<close>

lemma timeout_upd_ok:
  assumes w: "wf w qs" and x: "toks w t = Some x" and tm: "p_timerList w = t # ts" and q: "t \<notin> set qs"
  defines "y \<equiv> x\<lparr>t_mode := M_NONE, t_err := Error_set (t_err x) ETIMEDOUT ''timeout'' []\<rparr>"
  shows "wf (w\<lparr>p_timerList := ts, toks := (toks w)(t \<mapsto> y)\<rparr>) qs"
proof -
  have t: "t \<noteq> Head" using timers_okD(2) [OF wfD(4) [OF w]] tm by simp
  have "wf (w\<lparr>p_timerList := ts\<rparr>) qs" and "t \<notin> set ts"
    using w tm by (auto simp: wf_def timers_ok_def)
  moreover have "\<not> queued_mode (t_mode x)" "tok_ok x"
    using modes_okD [OF wfD(3) [OF w] x t] q by auto
  ultimately show ?thesis
    using wf_upd [of "w\<lparr>p_timerList := ts\<rparr>" qs t x y] x t by (simp add: y_def tok_ok_def)
qed

end
