(* ===== verification/Sockets.thy ===== *)
theory Sockets
  imports Proactor
begin

text \<open>
  \<open>aio::Socket\<close> (aio/unix/proactor.cpp): construction and destruction, the asynchronous
  requests \<open>readSome\<close>, \<open>readAll\<close> and \<open>writeAll\<close>, and the event handlers \<open>onRead\<close>,
  \<open>onWrite\<close> and \<open>onClose\<close>. The registration with the poller differs between the epoll and the
  kqueue build and is a parameter here (\<open>reg\<close>, \<open>rem\<close>).
\<close>

type_synonym ('cb, 'acb, 'k) reg_fun =
  "handler \<Rightarrow> bool \<Rightarrow> ('cb, 'acb, 'k) world \<Rightarrow> fault + bool \<times> ('cb, 'acb, 'k) world"

type_synonym ('cb, 'acb, 'k) rem_fun =
  "handler \<Rightarrow> ('cb, 'acb, 'k) world \<Rightarrow> fault + bool \<times> ('cb, 'acb, 'k) world"

section \<open>Construction, close, destruction\<close>

text \<open>Both constructors build the members; the second one registers with the proactor.\<close>

definition Socket_new :: "'k kernel \<Rightarrow> nat \<Rightarrow> int \<Rightarrow> ('cb, 'acb, 'k) world \<Rightarrow> ('cb, 'acb, 'k) world" where
  "Socket_new K s soc w =
     w\<lparr>socks := (socks w)(s \<mapsto> soc),
       toks := (toks w)(Rt s \<mapsto> Token_new (k_fresh_tv K 0 (os w)), Wt s \<mapsto> Token_new (k_fresh_tv K 1 (os w)))\<rparr>"

definition Socket_ctor0 :: "'k kernel \<Rightarrow> nat \<Rightarrow> ('cb, 'acb, 'k) world \<Rightarrow> ('cb, 'acb, 'k) wres" where
  "Socket_ctor0 K s w = Inr (Socket_new K s (-1) w)"

definition Socket_ctor ::
  "('cb, 'acb, 'k) reg_fun \<Rightarrow> 'k kernel \<Rightarrow> nat \<Rightarrow> int \<Rightarrow> ('cb, 'acb, 'k) world \<Rightarrow> ('cb, 'acb, 'k) wres" where
  "Socket_ctor reg K s soc w =
     bindS (reg (HSock s) False (Socket_new K s soc w)) (\<lambda>(_, w). Inr w)"

definition Socket_close ::
  "('cb, 'acb, 'k) rem_fun \<Rightarrow> 'k kernel \<Rightarrow> nat \<Rightarrow> ('cb, 'acb, 'k) world \<Rightarrow> ('cb, 'acb, 'k) wres" where
  "Socket_close rem K s w =
     bindS (rem (HSock s) w) (\<lambda>(_, w).
     bindS (sock_fd s w) (\<lambda>soc.
     if soc \<noteq> -1 then Inr (w\<lparr>os := k_close K soc (os w), socks := (socks w)(s \<mapsto> -1)\<rparr>)
     else Inr w))"

definition unqueue :: "tokref \<Rightarrow> ('cb, 'acb, 'k) world \<Rightarrow> ('cb, 'acb, 'k) wres" where
  "unqueue t w =
     bindS (tok_get t w) (\<lambda>x.
     if t_prev x \<noteq> None then on_toks (Proactor_remove t) w else Inr w)"

definition Socket_dtor ::
  "('cb, 'acb, 'k) rem_fun \<Rightarrow> 'k kernel \<Rightarrow> nat \<Rightarrow> ('cb, 'acb, 'k) world \<Rightarrow> ('cb, 'acb, 'k) wres" where
  "Socket_dtor rem K s w =
     bindS (sock_fd s w) (\<lambda>soc.
     bindS (if soc \<noteq> -1 then Socket_close rem K s w else Inr w) (\<lambda>w.
     bindS (unqueue (Rt s) w) (\<lambda>w.
     bindS (unqueue (Wt s) w) (\<lambda>w.
     bindS (Proactor_popTimer (Rt s) w) (\<lambda>w.
     bindS (Proactor_popTimer (Wt s) w) (\<lambda>w.
     Inr (w\<lparr>toks := (toks w)(Rt s := None, Wt s := None), socks := (socks w)(s := None)\<rparr>)))))))"

section \<open>One transfer\<close>

text \<open>
  \<open>_read\<close> and \<open>_write\<close>: one system call; a failure is recorded in the token's error.
\<close>

definition Socket_read ::
  "'k kernel \<Rightarrow> nat \<Rightarrow> ptr \<Rightarrow> int \<Rightarrow> ('cb, 'acb, 'k) world \<Rightarrow> fault + int \<times> ('cb, 'acb, 'k) world" where
  "Socket_read K s b n w =
     bindS (tok_upd (Rt s) (\<lambda>t. t\<lparr>t_err := Error_clear (t_err t)\<rparr>) w) (\<lambda>w.
     bindS (sock_fd s w) (\<lambda>soc.
     case k_read K soc n (os w) of (ret, errno, bs, k) \<Rightarrow>
       let w = w\<lparr>os := k, mem := mem_store b bs (mem w)\<rparr>
       in if ret < 0
          then bindS (tok_upd (Rt s) (\<lambda>t. t\<lparr>t_err := Error_set (t_err t) errno
                        ''recv fail [%d][%s]'' [FD errno, FS (k_strerror K errno)]\<rparr>) w) (\<lambda>w.
               Inr (ret, w))
          else Inr (ret, w)))"

definition Socket_write ::
  "'k kernel \<Rightarrow> nat \<Rightarrow> ptr \<Rightarrow> int \<Rightarrow> ('cb, 'acb, 'k) world \<Rightarrow> fault + int \<times> ('cb, 'acb, 'k) world" where
  "Socket_write K s b n w =
     bindS (tok_upd (Wt s) (\<lambda>t. t\<lparr>t_err := Error_clear (t_err t)\<rparr>) w) (\<lambda>w.
     bindS (sock_fd s w) (\<lambda>soc.
     case k_write K soc (mem_load (mem w) b (nat n)) (os w) of (ret, errno, k) \<Rightarrow>
       let w = w\<lparr>os := k\<rparr>
       in if ret < 0
          then bindS (tok_upd (Wt s) (\<lambda>t. t\<lparr>t_err := Error_set (t_err t) errno
                        ''send fail [%d][%s]'' [FD errno, FS (k_strerror K errno)]\<rparr>) w) (\<lambda>w.
               Inr (ret, w))
          else Inr (ret, w)))"

section \<open>Requests\<close>

definition Socket_readSome ::
  "'k kernel \<Rightarrow> nat \<Rightarrow> ptr \<Rightarrow> int \<Rightarrow> 'cb \<Rightarrow> int \<Rightarrow> ('cb, 'acb, 'k) world \<Rightarrow> fault + bool \<times> ('cb, 'acb, 'k) world" where
  "Socket_readSome K s b n c timeoutMsec w =
     bindS (tok_get (Rt s) w) (\<lambda>rt.
     if t_mode rt \<noteq> M_NONE
     then bindS (tok_upd (Rt s) (\<lambda>t. t\<lparr>t_err := Error_set (t_err t) (-1) ''read in progress'' []\<rparr>) w) (\<lambda>w.
          Inr (False, w))
     else
       bindS (tok_upd (Rt s) (Token_init b n c) w) (\<lambda>w.
       bindS (Socket_read K s b n w) (\<lambda>(ret, w).
       bindS
         (if ret = 0 then complete_token (Rt s) 0 M_DONE w
          else if ret < 0
          then bindS (tok_get (Rt s) w) (\<lambda>rt.
               if e_code (t_err rt) = EAGAIN
               then bindS (tok_upd (Rt s) (Token_set 0 M_SOME) w) (Proactor_pushTimer K (Rt s) timeoutMsec)
               else complete_token (Rt s) 0 M_ERR w)
          else complete_token (Rt s) ret M_DONE w) (\<lambda>w.
       Inr (True, w)))))"

definition Socket_readAll ::
  "'k kernel \<Rightarrow> nat \<Rightarrow> ptr \<Rightarrow> int \<Rightarrow> 'cb \<Rightarrow> int \<Rightarrow> ('cb, 'acb, 'k) world \<Rightarrow> fault + bool \<times> ('cb, 'acb, 'k) world" where
  "Socket_readAll K s b n c timeoutMsec w =
     bindS (tok_get (Rt s) w) (\<lambda>rt.
     if t_mode rt \<noteq> M_NONE
     then bindS (tok_upd (Rt s) (\<lambda>t. t\<lparr>t_err := Error_set (t_err t) (-1) ''read in progress'' []\<rparr>) w) (\<lambda>w.
          Inr (False, w))
     else
       bindS (tok_upd (Rt s) (Token_init b n c) w) (\<lambda>w.
       bindS (Socket_read K s b n w) (\<lambda>(ret, w).
       bindS
         (if ret = 0 then complete_token (Rt s) 0 M_DONE w
          else if ret < 0
          then bindS (tok_get (Rt s) w) (\<lambda>rt.
               if e_code (t_err rt) = EAGAIN
               then bindS (tok_upd (Rt s) (Token_set 0 M_ALL) w) (Proactor_pushTimer K (Rt s) timeoutMsec)
               else complete_token (Rt s) 0 M_ERR w)
          else if ret < n
          then bindS (tok_upd (Rt s) (Token_set ret M_ALL) w) (Proactor_pushTimer K (Rt s) timeoutMsec)
          else complete_token (Rt s) ret M_DONE w) (\<lambda>w.
       Inr (True, w)))))"

definition Socket_writeAll ::
  "'k kernel \<Rightarrow> nat \<Rightarrow> ptr \<Rightarrow> int \<Rightarrow> 'cb \<Rightarrow> int \<Rightarrow> ('cb, 'acb, 'k) world \<Rightarrow> fault + bool \<times> ('cb, 'acb, 'k) world" where
  "Socket_writeAll K s b n c timeoutMsec w =
     bindS (tok_get (Wt s) w) (\<lambda>wt.
     if t_mode wt \<noteq> M_NONE
     then bindS (tok_upd (Wt s) (\<lambda>t. t\<lparr>t_err := Error_set (t_err t) (-1) ''write in progress'' []\<rparr>) w) (\<lambda>w.
          Inr (False, w))
     else
       bindS (tok_upd (Wt s) (Token_init b n c) w) (\<lambda>w.
       bindS (Socket_write K s b n w) (\<lambda>(ret, w).
       bindS
         (if ret \<le> 0
          then bindS (tok_get (Wt s) w) (\<lambda>wt.
               if e_code (t_err wt) = EAGAIN
               then bindS (tok_upd (Wt s) (Token_set 0 M_ALL) w) (Proactor_pushTimer K (Wt s) timeoutMsec)
               else complete_token (Wt s) 0 M_ERR w)
          else if ret < n
          then bindS (tok_upd (Wt s) (Token_set ret M_ALL) w) (Proactor_pushTimer K (Wt s) timeoutMsec)
          else complete_token (Wt s) ret M_DONE w) (\<lambda>w.
       Inr (True, w)))))"

section \<open>Event handlers\<close>

definition Socket_onRead ::
  "'k kernel \<Rightarrow> nat \<Rightarrow> ('cb, 'acb, 'k) world \<Rightarrow> ('cb, 'acb, 'k) wres" where
  "Socket_onRead K s w =
     bindS (tok_get (Rt s) w) (\<lambda>rt.
     if t_mode rt = M_SOME
     then bindS (Socket_read K s (t_buf rt) (t_bufSize rt) w) (\<lambda>(ret, w).
          if ret = 0 then complete_token (Rt s) 0 M_DONE w
          else if ret < 0
          then bindS (tok_get (Rt s) w) (\<lambda>rt.
               if e_code (t_err rt) = EAGAIN then Inr w else complete_token (Rt s) 0 M_ERR w)
          else complete_token (Rt s) ret M_DONE w)
     else if t_mode rt = M_ALL
     then bindS (Socket_read K s (ptr_add (t_buf rt) (t_ioSize rt)) (t_bufSize rt - t_ioSize rt) w) (\<lambda>(ret, w).
          if ret = 0 then complete_token (Rt s) 0 M_DONE w
          else if ret < 0
          then bindS (tok_get (Rt s) w) (\<lambda>rt.
               if e_code (t_err rt) = EAGAIN then Inr w else complete_token (Rt s) 0 M_ERR w)
          else bindS (tok_upd (Rt s) (Token_add ret) w) (\<lambda>w.
               bindS (tok_get (Rt s) w) (\<lambda>rt.
               if t_ioSize rt < t_bufSize rt then Inr w
               else complete_token (Rt s) (t_ioSize rt) M_DONE w)))
     else Inr w)"

definition Socket_onWrite ::
  "'k kernel \<Rightarrow> nat \<Rightarrow> ('cb, 'acb, 'k) world \<Rightarrow> ('cb, 'acb, 'k) wres" where
  "Socket_onWrite K s w =
     bindS (tok_get (Wt s) w) (\<lambda>wt.
     if t_mode wt = M_ALL
     then bindS (Socket_write K s (ptr_add (t_buf wt) (t_ioSize wt)) (t_bufSize wt - t_ioSize wt) w) (\<lambda>(ret, w).
          if ret \<le> 0
          then bindS (tok_get (Wt s) w) (\<lambda>wt.
               if e_code (t_err wt) = EAGAIN then Inr w else complete_token (Wt s) 0 M_ERR w)
          else bindS (tok_upd (Wt s) (Token_add ret) w) (\<lambda>w.
               bindS (tok_get (Wt s) w) (\<lambda>wt.
               if t_ioSize wt < t_bufSize wt then Inr w
               else complete_token (Wt s) (t_ioSize wt) M_DONE w)))
     else Inr w)"

definition Socket_onClose ::
  "('cb, 'acb, 'k) env \<Rightarrow> nat \<Rightarrow> ('cb, 'acb, 'k) world \<Rightarrow> ('cb, 'acb, 'k) wres" where
  "Socket_onClose E s w =
     bindS (tok_upd (Rt s) (\<lambda>t. t\<lparr>t_err := Error_set (t_err t) ECONNRESET ''closed'' []\<rparr>) w) (\<lambda>w.
     bindS (tok_upd (Wt s) (\<lambda>t. t\<lparr>t_err := Error_set (t_err t) ECONNRESET ''closed'' []\<rparr>) w) (\<lambda>w.
     bindS (tok_get (Rt s) w) (\<lambda>rt.
     bindS (tok_get (Wt s) w) (\<lambda>wt.
     if t_mode rt \<noteq> M_DONE then invoke E (t_cb rt) (t_err rt) 0 w
     else if t_mode wt \<noteq> M_DONE then invoke E (t_cb wt) (t_err wt) 0 w
     else Inr w))))"

end
