(* ===== verification/Acceptors.thy ===== *)
theory Acceptors
  imports Sockets
begin

unbundle bit_operations_syntax

text \<open>
  \<open>aio::Acceptor\<close> and the socket helpers of aio/unix/proactor.cpp: \<open>MakeSockAddrIn\<close>,
  \<open>Addr2str\<close>, \<open>SetNonBlock\<close>, the listening socket, and the accept loop of \<open>onRead\<close>.
\<close>

section \<open>Helpers\<close>

definition AF_INET :: int where "AF_INET = 2"
definition O_NONBLOCK :: int where "O_NONBLOCK = 2048"

text \<open>A null \<open>ip\<close> is \<open>None\<close>; \<open>INADDR_ANY\<close> is 0 in either byte order.\<close>

definition MakeSockAddrIn :: "'k kernel \<Rightarrow> string option \<Rightarrow> 16 word \<Rightarrow> sockaddr_in" where
  "MakeSockAddrIn K ip port =
     \<lparr>sin_family = AF_INET,
      sin_addr = (case ip of Some a \<Rightarrow> k_inet_addr K a | None \<Rightarrow> 0),
      sin_port = k_htons K port\<rparr>"

text \<open>The address as text, or the \<open>errno\<close> of the failed conversion.\<close>

definition Addr2str :: "'k kernel \<Rightarrow> sockaddr_in \<Rightarrow> int + string" where
  "Addr2str K addr = k_inet_ntop K (sin_addr addr)"

definition SetNonBlock :: "'k kernel \<Rightarrow> int \<Rightarrow> bool \<Rightarrow> error \<Rightarrow> 'k \<Rightarrow> bool \<times> error \<times> 'k" where
  "SetNonBlock K soc nonblock err k =
     (if soc = -1 then (False, Error_set err (-1) ''invalid fd'' [], k)
      else case k_getfl K soc k of (flags, errno, k) \<Rightarrow>
        if flags = -1
        then (False, Error_set err errno ''fcntl fail [%d][%s]'' [FD errno, FS (k_strerror K errno)], k)
        else let flags = (if nonblock then flags OR O_NONBLOCK else flags AND (NOT O_NONBLOCK))
          in case k_setfl K soc flags k of (r, errno, k) \<Rightarrow>
            if r = -1
            then (False, Error_set err errno ''fcntl fail [%d][%s]'' [FD errno, FS (k_strerror K errno)], k)
            else (True, err, k))"

section \<open>The acceptor\<close>

definition acc_upd ::
  "nat \<Rightarrow> ('acb acceptor \<Rightarrow> 'acb acceptor) \<Rightarrow> ('cb, 'acb, 'k) world \<Rightarrow> ('cb, 'acb, 'k) wres" where
  "acc_upd a f w = bindS (acc_get a w) (\<lambda>x. Inr (w\<lparr>accs := (accs w)(a \<mapsto> f x)\<rparr>))"

lemma acc_upd_Some [simp]: "accs w a = Some x \<Longrightarrow> acc_upd a f w = Inr (w\<lparr>accs := (accs w)(a \<mapsto> f x)\<rparr>)"
  by (simp add: acc_upd_def)

text \<open>The two constructors differ in the descriptor; neither registers.\<close>

definition Acceptor_ctor :: "nat \<Rightarrow> int \<Rightarrow> ('cb, 'acb, 'k) world \<Rightarrow> ('cb, 'acb, 'k) world" where
  "Acceptor_ctor a soc w = w\<lparr>accs := (accs w)(a \<mapsto> \<lparr>a_soc = soc, a_cb = None, a_err = Error_new\<rparr>)\<rparr>"

definition Acceptor_close ::
  "('cb, 'acb, 'k) rem_fun \<Rightarrow> 'k kernel \<Rightarrow> nat \<Rightarrow> ('cb, 'acb, 'k) world \<Rightarrow> ('cb, 'acb, 'k) wres" where
  "Acceptor_close rem K a w =
     bindS (rem (HAcc a) w) (\<lambda>(_, w).
     bindS (acc_get a w) (\<lambda>x.
     if a_soc x \<noteq> -1
     then acc_upd a (\<lambda>x. x\<lparr>a_soc := -1\<rparr>) (w\<lparr>os := k_close K (a_soc x) (os w)\<rparr>)
     else Inr w))"

definition Acceptor_dtor ::
  "('cb, 'acb, 'k) rem_fun \<Rightarrow> 'k kernel \<Rightarrow> nat \<Rightarrow> ('cb, 'acb, 'k) world \<Rightarrow> ('cb, 'acb, 'k) wres" where
  "Acceptor_dtor rem K a w =
     bindS (acc_get a w) (\<lambda>x.
     bindS (if a_soc x \<noteq> -1 then Acceptor_close rem K a w else Inr w) (\<lambda>w.
     Inr (w\<lparr>accs := (accs w)(a := None)\<rparr>)))"

text \<open>Recording a failed call in \<open>_err\<close>; the text names the call.\<close>

definition acc_fail ::
  "'k kernel \<Rightarrow> nat \<Rightarrow> string \<Rightarrow> int \<Rightarrow> ('cb, 'acb, 'k) world \<Rightarrow> ('cb, 'acb, 'k) wres" where
  "acc_fail K a f errno w =
     acc_upd a (\<lambda>x. x\<lparr>a_err := Error_set (a_err x) errno f [FD errno, FS (k_strerror K errno)]\<rparr>) w"

text \<open>\<open>_listen\<close>: each step that fails leaves the descriptor made so far in \<open>_soc\<close>.\<close>

definition Acceptor_listen' ::
  "'k kernel \<Rightarrow> nat \<Rightarrow> string option \<Rightarrow> 16 word \<Rightarrow> int \<Rightarrow> ('cb, 'acb, 'k) world \<Rightarrow> fault + bool \<times> ('cb, 'acb, 'k) world" where
  "Acceptor_listen' K a ip port backlog w =
     (let addr = MakeSockAddrIn K ip port;
          stop = (\<lambda>r. bindS r (\<lambda>w. Inr (False, w)))
      in case k_socket K (os w) of (soc, errno, k) \<Rightarrow>
      bindS (acc_upd a (\<lambda>x. x\<lparr>a_soc := soc\<rparr>) (w\<lparr>os := k\<rparr>)) (\<lambda>w.
      if soc = -1 then stop (acc_fail K a ''create socket fail [%d][%s]'' errno w)
      else case k_reuseaddr K soc 0 (os w) of (r, errno, k) \<Rightarrow>
      if r \<noteq> 0 then stop (acc_fail K a ''setsockopt fail [%d][%s]'' errno (w\<lparr>os := k\<rparr>))
      else bindS (acc_get a w) (\<lambda>x.
      case SetNonBlock K soc True (a_err x) k of (b, e, k) \<Rightarrow>
      bindS (acc_upd a (\<lambda>x. x\<lparr>a_err := e\<rparr>) (w\<lparr>os := k\<rparr>)) (\<lambda>w.
      if \<not> b then Inr (False, w)
      else case k_bind K soc addr (os w) of (r, errno, k) \<Rightarrow>
      if r \<noteq> 0 then stop (acc_fail K a ''bind fail [%d][%s]'' errno (w\<lparr>os := k\<rparr>))
      else case k_listen K soc backlog k of (r, errno, k) \<Rightarrow>
      if r \<noteq> 0 then stop (acc_fail K a ''listen fail [%d][%s]'' errno (w\<lparr>os := k\<rparr>))
      else Inr (True, w\<lparr>os := k\<rparr>)))))"

definition Acceptor_listen ::
  "('cb, 'acb, 'k) reg_fun \<Rightarrow> 'k kernel \<Rightarrow> nat \<Rightarrow> string option \<Rightarrow> 16 word \<Rightarrow> int \<Rightarrow> 'acb \<Rightarrow>
   ('cb, 'acb, 'k) world \<Rightarrow> fault + bool \<times> ('cb, 'acb, 'k) world" where
  "Acceptor_listen reg K a ip port backlog c w =
     bindS (Acceptor_listen' K a ip port backlog w) (\<lambda>(b, w).
     if \<not> b then Inr (False, w)
     else bindS (acc_upd a (\<lambda>x. x\<lparr>a_cb := Some c\<rparr>) w) (reg (HAcc a) True))"

text \<open>
  \<open>_accept\<close>: the accepted descriptor or -1, and the peer's address as text when the caller
  passes a buffer for it (\<open>want\<close>).
\<close>

definition Acceptor_accept ::
  "'k kernel \<Rightarrow> nat \<Rightarrow> bool \<Rightarrow> ('cb, 'acb, 'k) world \<Rightarrow> fault + int \<times> string option \<times> ('cb, 'acb, 'k) world" where
  "Acceptor_accept K a want w =
     bindS (acc_upd a (\<lambda>x. x\<lparr>a_err := Error_clear (a_err x)\<rparr>) w) (\<lambda>w.
     bindS (acc_get a w) (\<lambda>x.
     case k_accept K (a_soc x) (os w) of (soc, errno, addr, k) \<Rightarrow>
       let w = w\<lparr>os := k\<rparr>; stop = (\<lambda>r. bindS r (\<lambda>w. Inr (-1, None, w)))
       in if soc = -1
          then if errno = EAGAIN then stop (acc_upd a (\<lambda>x. x\<lparr>a_err := (a_err x)\<lparr>e_code := errno\<rparr>\<rparr>) w)
               else stop (acc_fail K a ''accept fail [%d][%s]'' errno w)
          else case SetNonBlock K soc True (a_err x) k of (b, e, k) \<Rightarrow>
            bindS (acc_upd a (\<lambda>x. x\<lparr>a_err := e\<rparr>) (w\<lparr>os := k\<rparr>)) (\<lambda>w.
            if \<not> b then Inr (-1, None, w)
            else if want
            then (case Addr2str K addr of
                    Inl errno \<Rightarrow> stop (acc_fail K a ''Addr2str fail [%d][%s]'' errno w)
                  | Inr t \<Rightarrow> Inr (soc, Some t, w))
            else Inr (soc, None, w))))"

definition acc_invoke ::
  "('cb, 'acb, 'k) env \<Rightarrow> nat \<Rightarrow> int \<Rightarrow> ('cb, 'acb, 'k) world \<Rightarrow> ('cb, 'acb, 'k) wres" where
  "acc_invoke E a soc w =
     bindS (acc_get a w) (\<lambda>x.
     case a_cb x of None \<Rightarrow> Inl Bad_function_call | Some f \<Rightarrow> e_acall E f (a_err x) soc w)"

text \<open>
  One round of the loop of \<open>onRead\<close>: \<open>Inr (True, _)\<close> asks for another round. The loop ends when
  the accept queue is drained (\<open>EAGAIN\<close>) or on an error, which is reported to the callback.
\<close>

definition Acceptor_round ::
  "('cb, 'acb, 'k) env \<Rightarrow> nat \<Rightarrow> ('cb, 'acb, 'k) world \<Rightarrow> fault + bool \<times> ('cb, 'acb, 'k) world" where
  "Acceptor_round E a w =
     bindS (Acceptor_accept (e_kern E) a False w) (\<lambda>(soc, _, w).
     if soc < 0
     then bindS (acc_get a w) (\<lambda>x.
          if e_code (a_err x) = EAGAIN then Inr (False, w)
          else bindS (acc_invoke E a soc w) (\<lambda>w. Inr (False, w)))
     else bindS (acc_upd a (\<lambda>x. x\<lparr>a_err := Error_clear (a_err x)\<rparr>) w) (\<lambda>w.
          bindS (acc_invoke E a soc w) (\<lambda>w. Inr (True, w))))"

partial_function (option) Acceptor_onRead ::
  "('cb, 'acb, 'k) env \<Rightarrow> nat \<Rightarrow> ('cb, 'acb, 'k) world \<Rightarrow> ('cb, 'acb, 'k) wres option" where
  "Acceptor_onRead E a w =
     (case Acceptor_round E a w of
        Inl f \<Rightarrow> Some (Inl f)
      | Inr (again, w') \<Rightarrow> if again then Acceptor_onRead E a w' else Some (Inr w'))"

declare Acceptor_onRead.simps [code]

definition Acceptor_onWrite ::
  "nat \<Rightarrow> ('cb, 'acb, 'k) world \<Rightarrow> ('cb, 'acb, 'k) wres" where
  "Acceptor_onWrite a w = bindS (acc_get a w) (\<lambda>_. Inr w)"

definition Acceptor_onClose ::
  "('cb, 'acb, 'k) env \<Rightarrow> nat \<Rightarrow> ('cb, 'acb, 'k) world \<Rightarrow> ('cb, 'acb, 'k) wres" where
  "Acceptor_onClose E a w =
     bindS (acc_upd a (\<lambda>x. x\<lparr>a_err := Error_set (a_err x) ECONNRESET ''closed'' []\<rparr>) w) (acc_invoke E a (-1))"

section \<open>Virtual calls on an event handler\<close>

definition handler_onRead ::
  "('cb, 'acb, 'k) env \<Rightarrow> handler \<Rightarrow> ('cb, 'acb, 'k) world \<Rightarrow> ('cb, 'acb, 'k) wres option" where
  "handler_onRead E h w = (case h of HSock s \<Rightarrow> Some (Socket_onRead (e_kern E) s w) | HAcc a \<Rightarrow> Acceptor_onRead E a w)"

definition handler_onWrite ::
  "('cb, 'acb, 'k) env \<Rightarrow> handler \<Rightarrow> ('cb, 'acb, 'k) world \<Rightarrow> ('cb, 'acb, 'k) wres" where
  "handler_onWrite E h w = (case h of HSock s \<Rightarrow> Socket_onWrite (e_kern E) s w | HAcc a \<Rightarrow> Acceptor_onWrite a w)"

definition handler_onClose ::
  "('cb, 'acb, 'k) env \<Rightarrow> handler \<Rightarrow> ('cb, 'acb, 'k) world \<Rightarrow> ('cb, 'acb, 'k) wres" where
  "handler_onClose E h w = (case h of HSock s \<Rightarrow> Socket_onClose E s w | HAcc a \<Rightarrow> Acceptor_onClose E a w)"

end
