(* ===== verification/Epoll.thy ===== *)
theory Epoll
  imports Acceptors
begin

unbundle bit_operations_syntax

text \<open>
  The epoll build of the proactor (aio/unix/proactor_epoll.cpp): creation, registration and removal
  of handlers, and the event loop \<open>run\<close>.
\<close>

definition EPOLLIN :: "32 word" where "EPOLLIN = 0x1"
definition EPOLLPRI :: "32 word" where "EPOLLPRI = 0x2"
definition EPOLLOUT :: "32 word" where "EPOLLOUT = 0x4"
definition EPOLLERR :: "32 word" where "EPOLLERR = 0x8"
definition EPOLLHUP :: "32 word" where "EPOLLHUP = 0x10"
definition EPOLLET :: "32 word" where "EPOLLET = 0x80000000"

lemmas epoll_bits = EPOLLIN_def EPOLLPRI_def EPOLLOUT_def EPOLLERR_def EPOLLHUP_def EPOLLET_def

section \<open>Creation, registration, removal\<close>

definition Epoll_create ::
  "'k kernel \<Rightarrow> int \<Rightarrow> ('cb, 'acb, 'k) world \<Rightarrow> bool \<times> ('cb, 'acb, 'k) world" where
  "Epoll_create K ms w =
     (case k_poll_create K (os w) of (fd, errno, k) \<Rightarrow>
      let w = w\<lparr>p_pollIntervalMsec := ms, p_fd := fd, os := k\<rparr>
      in if fd = -1
         then (False, w\<lparr>p_err := Error_set (p_err w) errno ''epoll_create fail [%d][%s]''
                          [FD errno, FS (k_strerror K errno)]\<rparr>)
         else (True, w))"

text \<open>
  The text for an invalid socket has a conversion but no argument: it prints what it finds.
\<close>

definition Epoll_register :: "'k kernel \<Rightarrow> ('cb, 'acb, 'k) reg_fun" where
  "Epoll_register K h acceptor w =
     bindS (handle h w) (\<lambda>fd.
     if fd = -1
     then Inr (False, w\<lparr>p_err := Error_set (p_err w) (-1) ''INVALID_SOCKET [%d]'' [FD (k_indet K)]\<rparr>)
     else let ev = (if acceptor then EPOLLIN OR EPOLLET else EPOLLIN OR EPOLLOUT OR EPOLLET)
       in case k_poll_add K (p_fd w) fd ev h (os w) of (r, errno, k) \<Rightarrow>
         if r = -1
         then Inr (False, w\<lparr>os := k, p_err := Error_set (p_err w) errno ''epoll_ctl error [%d][%d][%s]''
                              [FD fd, FD errno, FS (k_strerror K errno)]\<rparr>)
         else Inr (True, w\<lparr>os := k\<rparr>))"

definition Epoll_remove :: "'k kernel \<Rightarrow> ('cb, 'acb, 'k) rem_fun" where
  "Epoll_remove K h w =
     (let w = w\<lparr>p_deleted := p_deleted w @ [h]\<rparr>
      in bindS (handle h w) (\<lambda>fd.
         case k_poll_del K (p_fd w) fd (os w) of (r, errno, k) \<Rightarrow>
           if r = -1
           then Inr (False, w\<lparr>os := k, p_err := Error_set (p_err w) errno ''epoll_ctl error [%d][%d][%s]''
                                [FD fd, FD errno, FS (k_strerror K errno)]\<rparr>)
           else Inr (True, w\<lparr>os := k\<rparr>)))"

section \<open>The event loop\<close>

text \<open>One event of a batch.\<close>

definition Epoll_event ::
  "('cb, 'acb, 'k) env \<Rightarrow> 32 word \<times> handler \<Rightarrow> ('cb, 'acb, 'k) world \<Rightarrow> ('cb, 'acb, 'k) wres option" where
  "Epoll_event E ev w =
     (case ev of (events, h) \<Rightarrow>
      if events AND EPOLLERR \<noteq> 0 \<or> events AND EPOLLHUP \<noteq> 0
      then Some (handler_onClose E h w)
      else
        bindO (if events AND EPOLLIN \<noteq> 0 \<or> events AND EPOLLPRI \<noteq> 0
               then bindO (handler_onRead E h (w\<lparr>p_deleted := []\<rparr>)) (\<lambda>w.
                    bindO (Proactor_processCompletion E w) (\<lambda>w.
                    Some (Inr (h \<in> set (p_deleted w), w))))
               else Some (Inr (False, w))) (\<lambda>(gone, w).
        if gone then Some (Inr w)
        else if events AND EPOLLOUT \<noteq> 0
        then bindO (Some (handler_onWrite E h w)) (Proactor_processCompletion E)
        else Some (Inr w)))"

fun Epoll_events ::
  "('cb, 'acb, 'k) env \<Rightarrow> (32 word \<times> handler) list \<Rightarrow> ('cb, 'acb, 'k) world \<Rightarrow> ('cb, 'acb, 'k) wres option" where
  "Epoll_events E [] w = Some (Inr w)"
| "Epoll_events E (ev # evs) w = bindO (Epoll_event E ev w) (Epoll_events E evs)"

definition close_handle :: "'k kernel \<Rightarrow> ('cb, 'acb, 'k) world \<Rightarrow> ('cb, 'acb, 'k) world" where
  "close_handle K w = (if p_fd w \<noteq> -1 then w\<lparr>os := k_close K (p_fd w) (os w), p_fd := -1\<rparr> else w)"

text \<open>
  One round of the loop: the value \<open>run\<close> returns, or \<open>None\<close> to go on. Signals delivered
  while waiting have run their handler by the time \<open>_stop\<close> is read.
\<close>

definition Epoll_round ::
  "('cb, 'acb, 'k) env \<Rightarrow> ('cb, 'acb, 'k) world \<Rightarrow> (fault + bool option \<times> ('cb, 'acb, 'k) world) option" where
  "Epoll_round E w =
     (let K = e_kern E
      in case k_poll_wait K (p_fd w) (p_pollIntervalMsec w) (os w) of (ret, errno, evs, sigs, k) \<Rightarrow>
      let w = fold (e_signal E) sigs (w\<lparr>os := k\<rparr>)
      in if p_stop w then Some (Inr (Some True, close_handle K w))
      else if ret < 0
      then Some (Inr (Some False, close_handle K (w\<lparr>p_err := Error_set (p_err w) errno
                  ''epoll_wait fail [%d][%s]'' [FD errno, FS (k_strerror K errno)]\<rparr>)))
      else if ret = 0 then bindO (Proactor_processTimer E w) (\<lambda>w. Some (Inr (None, w)))
      else bindO (Epoll_events E (take (nat ret) evs) w) (\<lambda>w.
           bindO (Proactor_processTimer E w) (\<lambda>w. Some (Inr (None, w)))))"

partial_function (option) Epoll_run ::
  "('cb, 'acb, 'k) env \<Rightarrow> ('cb, 'acb, 'k) world \<Rightarrow> (fault + bool \<times> ('cb, 'acb, 'k) world) option" where
  "Epoll_run E w =
     (case Epoll_round E w of
        None \<Rightarrow> None
      | Some (Inl f) \<Rightarrow> Some (Inl f)
      | Some (Inr (Some b, w')) \<Rightarrow> Some (Inr (b, w'))
      | Some (Inr (None, w')) \<Rightarrow> Epoll_run E w')"

declare Epoll_run.simps [code]

end
