(* ===== verification/Kqueue.thy ===== *)
theory Kqueue
  imports Epoll
begin

unbundle bit_operations_syntax

text \<open>
  The kqueue build of the proactor (aio/unix/proactor_kqueue.cpp). The filters are negative numbers
  (\<open>EVFILT_READ\<close> is -1 and \<open>EVFILT_WRITE\<close> -2), which the code combines and tests as if they were
  flag bits; the model keeps the expressions of the source on 32-bit values.
\<close>

definition EVFILT_READ :: "32 word" where "EVFILT_READ = - 1"
definition EVFILT_WRITE :: "32 word" where "EVFILT_WRITE = - 2"
definition EV_ADD :: int where "EV_ADD = 1"
definition EV_DELETE :: int where "EV_DELETE = 2"
definition EV_CLEAR :: int where "EV_CLEAR = 32"
definition EV_EOF :: "32 word" where "EV_EOF = 0x8000"

definition Kqueue_create ::
  "'k kernel \<Rightarrow> int \<Rightarrow> ('cb, 'acb, 'k) world \<Rightarrow> bool \<times> ('cb, 'acb, 'k) world" where
  "Kqueue_create K ms w =
     (case k_kqueue K (os w) of (fd, errno, k) \<Rightarrow>
      let w = w\<lparr>p_pollIntervalMsec := ms, p_fd := fd, os := k\<rparr>
      in if fd = -1
         then (False, w\<lparr>p_err := Error_set (p_err w) errno ''kqueue fail [%d][%s]''
                          [FD errno, FS (k_strerror K errno)]\<rparr>)
         else (True, w))"

definition Kqueue_register :: "'k kernel \<Rightarrow> ('cb, 'acb, 'k) reg_fun" where
  "Kqueue_register K h acceptor w =
     bindS (handle h w) (\<lambda>fd.
     if fd = -1
     then Inr (False, w\<lparr>p_err := Error_set (p_err w) (-1) ''INVALID_SOCKET [%d]'' [FD (k_indet K)]\<rparr>)
     else let filt = (if acceptor then EVFILT_READ else EVFILT_READ OR EVFILT_READ)
       in case k_kevent_change K (p_fd w) fd (sint filt) (EV_ADD OR EV_CLEAR) (Some h) (os w) of (r, errno, k) \<Rightarrow>
         if r = -1
         then Inr (False, w\<lparr>os := k, p_err := Error_set (p_err w) errno ''kevent error [%d][%d][%s]''
                              [FD fd, FD errno, FS (k_strerror K errno)]\<rparr>)
         else Inr (True, w\<lparr>os := k\<rparr>))"

definition Kqueue_remove :: "'k kernel \<Rightarrow> ('cb, 'acb, 'k) rem_fun" where
  "Kqueue_remove K h w =
     (let w = w\<lparr>p_deleted := p_deleted w @ [h]\<rparr>
      in bindS (handle h w) (\<lambda>fd.
         case k_kevent_change K (p_fd w) fd (sint (EVFILT_READ OR EVFILT_WRITE)) EV_DELETE None (os w) of (r, errno, k) \<Rightarrow>
           if r = -1
           then Inr (False, w\<lparr>os := k, p_err := Error_set (p_err w) errno ''kevent error [%d][%d][%s]''
                                [FD fd, FD errno, FS (k_strerror K errno)]\<rparr>)
           else Inr (True, w\<lparr>os := k\<rparr>)))"

section \<open>The event loop\<close>

text \<open>One event: the tests are made on \<open>ev.flags\<close>.\<close>

definition Kqueue_event ::
  "('cb, 'acb, 'k) env \<Rightarrow> 32 word \<times> handler \<Rightarrow> ('cb, 'acb, 'k) world \<Rightarrow> ('cb, 'acb, 'k) wres option" where
  "Kqueue_event E ev w =
     (case ev of (flags, h) \<Rightarrow>
      if flags AND EV_EOF \<noteq> 0
      then Some (handler_onClose E h w)
      else
        bindO (if flags AND EVFILT_READ \<noteq> 0
               then bindO (handler_onRead E h (w\<lparr>p_deleted := []\<rparr>)) (\<lambda>w.
                    bindO (Proactor_processCompletion E w) (\<lambda>w.
                    Some (Inr (h \<in> set (p_deleted w), w))))
               else Some (Inr (False, w))) (\<lambda>(gone, w).
        if gone then Some (Inr w)
        else if flags AND EVFILT_WRITE \<noteq> 0
        then bindO (Some (handler_onWrite E h w)) (Proactor_processCompletion E)
        else Some (Inr w)))"

fun Kqueue_events ::
  "('cb, 'acb, 'k) env \<Rightarrow> (32 word \<times> handler) list \<Rightarrow> ('cb, 'acb, 'k) world \<Rightarrow> ('cb, 'acb, 'k) wres option" where
  "Kqueue_events E [] w = Some (Inr w)"
| "Kqueue_events E (ev # evs) w = bindO (Kqueue_event E ev w) (Kqueue_events E evs)"

definition Kqueue_timeout :: "int \<Rightarrow> int \<times> int" where
  "Kqueue_timeout ms = (ms sdiv 1000, (ms smod 1000) * 1000000)"

definition Kqueue_round ::
  "('cb, 'acb, 'k) env \<Rightarrow> int \<times> int \<Rightarrow> ('cb, 'acb, 'k) world \<Rightarrow> (fault + bool option \<times> ('cb, 'acb, 'k) world) option" where
  "Kqueue_round E timeout w =
     (let K = e_kern E
      in case k_kevent_wait K (p_fd w) timeout (os w) of (ret, errno, evs, sigs, k) \<Rightarrow>
      let w = fold (e_signal E) sigs (w\<lparr>os := k\<rparr>)
      in if p_stop w then Some (Inr (Some True, close_handle K w))
      else if ret < 0
      then Some (Inr (Some False, close_handle K (w\<lparr>p_err := Error_set (p_err w) errno
                  ''kevent fail [%d][%s]'' [FD errno, FS (k_strerror K errno)]\<rparr>)))
      else if ret = 0 then bindO (Proactor_processTimer E w) (\<lambda>w. Some (Inr (None, w)))
      else bindO (Kqueue_events E (take (nat ret) evs) w) (\<lambda>w.
           bindO (Proactor_processTimer E w) (\<lambda>w. Some (Inr (None, w)))))"

partial_function (option) Kqueue_loop ::
  "('cb, 'acb, 'k) env \<Rightarrow> int \<times> int \<Rightarrow> ('cb, 'acb, 'k) world \<Rightarrow> (fault + bool \<times> ('cb, 'acb, 'k) world) option" where
  "Kqueue_loop E timeout w =
     (case Kqueue_round E timeout w of
        None \<Rightarrow> None
      | Some (Inl f) \<Rightarrow> Some (Inl f)
      | Some (Inr (Some b, w')) \<Rightarrow> Some (Inr (b, w'))
      | Some (Inr (None, w')) \<Rightarrow> Kqueue_loop E timeout w')"

declare Kqueue_loop.simps [code]

definition Kqueue_run ::
  "('cb, 'acb, 'k) env \<Rightarrow> ('cb, 'acb, 'k) world \<Rightarrow> (fault + bool \<times> ('cb, 'acb, 'k) world) option" where
  "Kqueue_run E w = Kqueue_loop E (Kqueue_timeout (p_pollIntervalMsec w)) w"

end
