(* ===== verification/Signals.thy ===== *)
theory Signals
  imports Proactor
begin

text \<open>
  The signal handler of the echo programs (aio/echo/signal.cpp and its copy aio/test/signal.cpp):
  every handled signal stops the proactor, except \<open>SIGPIPE\<close>, which a write to a closed connection
  raises.
\<close>

definition SIGINT :: int where "SIGINT = 2"
definition SIGSEGV :: int where "SIGSEGV = 11"
definition SIGPIPE :: int where "SIGPIPE = 13"
definition SIGTERM :: int where "SIGTERM = 15"

text \<open>The text the handler prints, and the state it leaves.\<close>

definition SigHandler :: "int \<Rightarrow> ('cb, 'acb, 'k) world \<Rightarrow> string \<times> ('cb, 'acb, 'k) world" where
  "SigHandler nSig w =
     (if nSig = SIGINT then (''SigHandler: SIGINT signal'' @ [CHR 10], Proactor_stop w)
      else if nSig = SIGTERM then (''SigHandler: SIGTERM signal'' @ [CHR 10], Proactor_stop w)
      else if nSig = SIGSEGV then (''SigHandler: SIGSEGV signal'' @ [CHR 10], Proactor_stop w)
      else if nSig = SIGPIPE then (''SigHandler: SIGPIPE signal'' @ [CHR 10], w)
      else (printf ''SigHandler: %d signal'' [FD nSig] @ [CHR 10], Proactor_stop w))"

text \<open>The signals \<open>SetSigHandler\<close> installs it for.\<close>

definition SetSigHandler :: "int list" where
  "SetSigHandler = [SIGINT, SIGTERM, SIGPIPE]"

lemmas signal_numbers = SIGINT_def SIGSEGV_def SIGPIPE_def SIGTERM_def

lemma SigHandler_cases:
  "snd (SigHandler n w) = (if n = SIGPIPE then w else Proactor_stop w)"
  by (simp add: SigHandler_def signal_numbers)

lemma SigHandler_frame [simp]:
  "toks (snd (SigHandler n w)) = toks w" "socks (snd (SigHandler n w)) = socks w"
  "accs (snd (SigHandler n w)) = accs w" "os (snd (SigHandler n w)) = os w" "mem (snd (SigHandler n w)) = mem w"
  "next_obj (snd (SigHandler n w)) = next_obj w" "p_timerList (snd (SigHandler n w)) = p_timerList w"
  "p_deleted (snd (SigHandler n w)) = p_deleted w"
  by (simp_all add: SigHandler_cases Proactor_stop_def)

text \<open>Which signals, delivered while waiting, end the loop.\<close>

lemma signals_stop:
  "p_stop (fold (\<lambda>n w. snd (SigHandler n w)) sigs w) \<longleftrightarrow> p_stop w \<or> (\<exists>n\<in>set sigs. n \<noteq> SIGPIPE)"
  by (induction sigs arbitrary: w) (auto simp: SigHandler_cases Proactor_stop_def)

end
