(* ===== verification/EchoServer.thy ===== *)
theory EchoServer
  imports Kqueue Signals
begin

text \<open>
  The echo server (aio/echo/main.cpp): \<open>EchoClient\<close> reads what has arrived, writes all of it back
  and reads again, until an error, a timeout or the end of the connection deletes it; \<open>Server\<close>
  creates one client per accepted connection; \<open>main\<close> runs the proactor. The client made as the
  \<open>s\<close>-th object has the socket object \<open>s\<close> and its two arrays in the blocks \<open>2 * s\<close> and
  \<open>2 * s + 1\<close>. The poller's registration is a parameter, so that the epoll and the kqueue
  build are instances. \<open>LOG_INFO\<close> is below the level \<open>main\<close> sets and writes nothing.
\<close>

datatype echo_cb = OnRead nat | OnWrite nat

datatype accept_cb = OnAccept

type_synonym 'k echo_world = "(echo_cb, accept_cb, 'k) world"

definition BUFSIZE :: nat where "BUFSIZE = 1024"
definition TIMEOUT_MS :: int where "TIMEOUT_MS = 5 * 1000"
definition IP :: string where "IP = ''127.0.0.1''"
definition PORT :: "16 word" where "PORT = 9000"
definition SOMAXCONN :: int where "SOMAXCONN = 4096"

definition recvBuf :: "nat \<Rightarrow> ptr" where "recvBuf s = (2 * s, 0)"
definition sendBuf :: "nat \<Rightarrow> ptr" where "sendBuf s = (2 * s + 1, 0)"

section \<open>EchoClient\<close>

definition EchoClient_ctor ::
  "(echo_cb, accept_cb, 'k) reg_fun \<Rightarrow> 'k kernel \<Rightarrow> nat \<Rightarrow> int \<Rightarrow> 'k echo_world \<Rightarrow> fault + 'k echo_world" where
  "EchoClient_ctor reg K s soc w = Socket_ctor reg K s soc w"

definition EchoClient_dtor ::
  "(echo_cb, accept_cb, 'k) rem_fun \<Rightarrow> 'k kernel \<Rightarrow> nat \<Rightarrow> 'k echo_world \<Rightarrow> fault + 'k echo_world" where
  "EchoClient_dtor rem K s w = bindS (Socket_close rem K s w) (Socket_dtor rem K s)"

definition EchoClient_startRecv :: "'k kernel \<Rightarrow> nat \<Rightarrow> 'k echo_world \<Rightarrow> fault + 'k echo_world" where
  "EchoClient_startRecv K s w =
     bindS (Socket_readSome K s (recvBuf s) (int BUFSIZE) (OnRead s) TIMEOUT_MS w) (\<lambda>(_, w). Inr w)"

definition EchoClient_onRead ::
  "(echo_cb, accept_cb, 'k) rem_fun \<Rightarrow> 'k kernel \<Rightarrow> nat \<Rightarrow> error \<Rightarrow> int \<Rightarrow> 'k echo_world \<Rightarrow> fault + 'k echo_world" where
  "EchoClient_onRead rem K s err bytes w =
     (if e_code err \<noteq> 0 then EchoClient_dtor rem K s w
      else if bytes \<le> 0 then EchoClient_dtor rem K s w
      else let w = w\<lparr>mem := mem_store (sendBuf s) (mem_load (mem w) (recvBuf s) (nat bytes)) (mem w)\<rparr>
        in bindS (Socket_writeAll K s (sendBuf s) bytes (OnWrite s) TIMEOUT_MS w) (\<lambda>(_, w). Inr w))"

definition EchoClient_onWrite ::
  "(echo_cb, accept_cb, 'k) rem_fun \<Rightarrow> 'k kernel \<Rightarrow> nat \<Rightarrow> error \<Rightarrow> int \<Rightarrow> 'k echo_world \<Rightarrow> fault + 'k echo_world" where
  "EchoClient_onWrite rem K s err bytes w =
     (if e_code err \<noteq> 0 then EchoClient_dtor rem K s w
      else if bytes \<le> 0 then EchoClient_dtor rem K s w
      else EchoClient_startRecv K s w)"

section \<open>Server\<close>

definition Server_ctor :: "'k echo_world \<Rightarrow> 'k echo_world" where
  "Server_ctor w = Acceptor_ctor 0 (-1) w"

definition Server_startAccept ::
  "(echo_cb, accept_cb, 'k) reg_fun \<Rightarrow> 'k kernel \<Rightarrow> 'k echo_world \<Rightarrow> fault + bool \<times> 'k echo_world" where
  "Server_startAccept reg K w = Acceptor_listen reg K 0 (Some IP) PORT SOMAXCONN OnAccept w"

definition Server_onAccept ::
  "(echo_cb, accept_cb, 'k) reg_fun \<Rightarrow> 'k kernel \<Rightarrow> int \<Rightarrow> 'k echo_world \<Rightarrow> fault + 'k echo_world" where
  "Server_onAccept reg K acceptSoc w =
     (let s = next_obj w
      in bindS (EchoClient_ctor reg K s acceptSoc (w\<lparr>next_obj := s + 1\<rparr>)) (EchoClient_startRecv K s))"

definition Server_close ::
  "(echo_cb, accept_cb, 'k) rem_fun \<Rightarrow> 'k kernel \<Rightarrow> 'k echo_world \<Rightarrow> fault + 'k echo_world" where
  "Server_close rem K w = Acceptor_close rem K 0 w"

definition Server_dtor ::
  "(echo_cb, accept_cb, 'k) rem_fun \<Rightarrow> 'k kernel \<Rightarrow> 'k echo_world \<Rightarrow> fault + 'k echo_world" where
  "Server_dtor rem K w = Acceptor_dtor rem K 0 w"

section \<open>The program\<close>

text \<open>What the bound callbacks do.\<close>

definition echo_call ::
  "(echo_cb, accept_cb, 'k) rem_fun \<Rightarrow> 'k kernel \<Rightarrow> echo_cb \<Rightarrow> error \<Rightarrow> int \<Rightarrow> 'k echo_world \<Rightarrow> fault + 'k echo_world" where
  "echo_call rem K c err n w =
     (case c of OnRead s \<Rightarrow> EchoClient_onRead rem K s err n w | OnWrite s \<Rightarrow> EchoClient_onWrite rem K s err n w)"

definition echo_env ::
  "(echo_cb, accept_cb, 'k) reg_fun \<Rightarrow> (echo_cb, accept_cb, 'k) rem_fun \<Rightarrow> 'k kernel \<Rightarrow> (echo_cb, accept_cb, 'k) env" where
  "echo_env reg rem K =
     \<lparr>e_kern = K, e_call = echo_call rem K, e_acall = (\<lambda>_ _ soc w. Server_onAccept reg K soc w),
      e_signal = (\<lambda>n w. snd (SigHandler n w))\<rparr>"

definition epoll_env :: "'k kernel \<Rightarrow> (echo_cb, accept_cb, 'k) env" where
  "epoll_env K = echo_env (Epoll_register K) (Epoll_remove K) K"

definition kqueue_env :: "'k kernel \<Rightarrow> (echo_cb, accept_cb, 'k) env" where
  "kqueue_env K = echo_env (Kqueue_register K) (Kqueue_remove K) K"

text \<open>
  \<open>main\<close> up to the call of \<open>run\<close>: the exit code when it gives up before, or the state the
  loop starts in; and the whole of it. What the two builds of the proactor provide are parameters.
\<close>

definition main_startup ::
  "(int \<Rightarrow> 'k echo_world \<Rightarrow> bool \<times> 'k echo_world) \<Rightarrow> (echo_cb, accept_cb, 'k) reg_fun \<Rightarrow> (echo_cb, accept_cb, 'k) rem_fun \<Rightarrow>
   'k kernel \<Rightarrow> memory \<Rightarrow> 'k \<Rightarrow> fault + int option \<times> 'k echo_world" where
  "main_startup create reg rem K m k =
     (case create 100 (Proactor_new K m k) of (b, w) \<Rightarrow>
      if \<not> b then Inr (Some 1, w)
      else bindS (Server_startAccept reg K (Server_ctor w)) (\<lambda>(b, w).
           if \<not> b then bindS (Server_dtor rem K w) (\<lambda>w. Inr (Some 1, w))
           else Inr (None, w)))"

definition main_program ::
  "(int \<Rightarrow> 'k echo_world \<Rightarrow> bool \<times> 'k echo_world) \<Rightarrow> ('k echo_world \<Rightarrow> (fault + bool \<times> 'k echo_world) option) \<Rightarrow>
   (echo_cb, accept_cb, 'k) reg_fun \<Rightarrow> (echo_cb, accept_cb, 'k) rem_fun \<Rightarrow>
   'k kernel \<Rightarrow> memory \<Rightarrow> 'k \<Rightarrow> (fault + int \<times> 'k echo_world) option" where
  "main_program create run reg rem K m k =
     bindO (Some (main_startup create reg rem K m k)) (\<lambda>(code, w).
     case code of
       Some c \<Rightarrow> Some (Inr (c, w))
     | None \<Rightarrow>
         bindO (run w) (\<lambda>(ok, w).
         bindO (Some (Server_dtor rem K w)) (\<lambda>w.
         Some (Inr (if ok then 0 else 1, w)))))"

text \<open>The program on epoll and on kqueue.\<close>

definition echo_startup :: "'k kernel \<Rightarrow> memory \<Rightarrow> 'k \<Rightarrow> fault + int option \<times> 'k echo_world" where
  "echo_startup K m k = main_startup (Epoll_create K) (Epoll_register K) (Epoll_remove K) K m k"

definition echo_main :: "'k kernel \<Rightarrow> memory \<Rightarrow> 'k \<Rightarrow> (fault + int \<times> 'k echo_world) option" where
  "echo_main K m k = main_program (Epoll_create K) (Epoll_run (epoll_env K)) (Epoll_register K) (Epoll_remove K) K m k"

definition kq_startup :: "'k kernel \<Rightarrow> memory \<Rightarrow> 'k \<Rightarrow> fault + int option \<times> 'k echo_world" where
  "kq_startup K m k = main_startup (Kqueue_create K) (Kqueue_register K) (Kqueue_remove K) K m k"

definition kq_main :: "'k kernel \<Rightarrow> memory \<Rightarrow> 'k \<Rightarrow> (fault + int \<times> 'k echo_world) option" where
  "kq_main K m k = main_program (Kqueue_create K) (Kqueue_run (kqueue_env K)) (Kqueue_register K) (Kqueue_remove K) K m k"

end
