(* ===== verification/SocketRequests.thy ===== *)
theory SocketRequests
  imports Sockets
begin

text \<open>
  The requests of \<open>aio::Socket\<close>: what an operation on one token may change, one transfer, and the
  outcome of \<open>readSome\<close>, \<open>readAll\<close> and \<open>writeAll\<close> as a function of the one system call they make.
\<close>

section \<open>What an operation on one token leaves alone\<close>

definition same_rest :: "('cb, 'acb, 'k) world \<Rightarrow> ('cb, 'acb, 'k) world \<Rightarrow> bool" where
  "same_rest w w' \<longleftrightarrow> socks w' = socks w \<and> accs w' = accs w \<and> next_obj w' = next_obj w \<and>
     p_pollIntervalMsec w' = p_pollIntervalMsec w \<and> p_fd w' = p_fd w \<and> p_stop w' = p_stop w \<and>
     p_err w' = p_err w \<and> p_deleted w' = p_deleted w"

lemma same_restD:
  assumes "same_rest w w'"
  shows "socks w' = socks w" "accs w' = accs w" "next_obj w' = next_obj w" "p_fd w' = p_fd w"
    "p_stop w' = p_stop w" "p_err w' = p_err w" "p_deleted w' = p_deleted w"
    "p_pollIntervalMsec w' = p_pollIntervalMsec w"
  using assms by (simp_all add: same_rest_def)

text \<open>
  The outcome of an operation on the token \<open>t\<close>: its new payload \<open>y\<close>; the token joins the queue
  exactly when it completed, and no other token changes.
\<close>

definition settled ::
  "('cb, 'acb, 'k) world \<Rightarrow> tokref list \<Rightarrow> tokref \<Rightarrow> ('cb, 'acb, 'k) world \<Rightarrow> tokref list \<Rightarrow> 'cb token \<Rightarrow> bool" where
  "settled w qs t w' qs' y \<longleftrightarrow> wf w' qs' \<and> view w' = (view w)(t \<mapsto> y) \<and> same_rest w w' \<and>
     qs' = (if queued_mode (t_mode y) then qs @ [t] else qs) \<and>
     set (p_timerList w') \<subseteq> insert t (set (p_timerList w)) \<and>
     (queued_mode (t_mode y) \<longrightarrow> p_timerList w' = p_timerList w)"

definition outcome :: "'cb token \<Rightarrow> mode \<times> int \<times> int" where
  "outcome y = (t_mode y, t_ioSize y, e_code (t_err y))"

definition request :: "'cb token \<Rightarrow> ptr \<times> int \<times> 'cb option" where
  "request y = (t_buf y, t_bufSize y, t_cb y)"

lemma unlink_fields [simp]:
  "t_mode (unlink x) = t_mode x" "t_ioSize (unlink x) = t_ioSize x" "t_err (unlink x) = t_err x"
  "t_buf (unlink x) = t_buf x" "t_bufSize (unlink x) = t_bufSize x" "t_cb (unlink x) = t_cb x"
  by (simp_all add: unlink_def)

lemma outcome_unlink [simp]: "outcome (unlink x) = outcome x" and request_unlink [simp]: "request (unlink x) = request x"
  by (simp_all add: outcome_def request_def)

lemma settled_complete:
  assumes "wf w qs" and "toks w t = Some x" and "t \<noteq> Head" and "\<not> queued_mode (t_mode x)"
    and "queued_mode m" and "t_cb x \<noteq> None"
  shows "\<exists>w' y. complete_token t n m w = Inr w' \<and> settled w qs t w' (qs @ [t]) y \<and>
    outcome y = (m, n, e_code (t_err x)) \<and> request y = request x \<and> mem w' = mem w \<and> os w' = os w"
proof -
  obtain h where "complete_token t n m w = Inr (w\<lparr>toks := h\<rparr>)" "wf (w\<lparr>toks := h\<rparr>) (qs @ [t])"
      "view (w\<lparr>toks := h\<rparr>) = (view w)(t \<mapsto> unlink (Token_set n m x))"
    using complete_token_ok [OF assms] by blast
  with assms(5) show ?thesis
    by (intro exI [of _ "w\<lparr>toks := h\<rparr>"] exI [of _ "unlink (Token_set n m x)"])
      (auto simp: settled_def outcome_def request_def same_rest_def)
qed

definition pend :: "'k kernel \<Rightarrow> tokref \<Rightarrow> int \<Rightarrow> mode \<Rightarrow> int \<Rightarrow> ('cb, 'acb, 'k) world \<Rightarrow> ('cb, 'acb, 'k) wres" where
  "pend K t n m ms w = bindS (tok_upd t (Token_set n m) w) (Proactor_pushTimer K t ms)"

lemma settled_pend:
  assumes w: "wf w qs" and x: "toks w t = Some x" and t: "t \<noteq> Head" and q: "\<not> queued_mode (t_mode x)"
    and m: "pending_mode m" and c: "t_cb x \<noteq> None" and n: "0 \<le> n" "n \<le> t_bufSize x" "m = M_SOME \<longrightarrow> n = 0"
    and nt: "t \<notin> set (p_timerList w)"
  shows "\<exists>w' y. pend K t n m ms w = Inr w' \<and> settled w qs t w' qs y \<and>
    outcome y = (m, n, e_code (t_err x)) \<and> request y = request x \<and> mem w' = mem w \<and>
    os w' \<in> {os w, snd (k_gettimeofday K (os w))}"
proof -
  let ?y = "Token_set n m x"
  have m': "\<not> queued_mode m" "m \<noteq> M_NONE" using m by (auto simp: pending_mode_def)
  have "tok_ok ?y"
    using modes_okD(1) [OF wfD(3) [OF w] x t] c n by (auto simp: tok_ok_def)
  then have "wf (w\<lparr>toks := (toks w)(t \<mapsto> ?y)\<rparr>) qs"
    using w x t q m' nt by (intro wf_upd) auto
  let ?w = "\<lambda>g ts k. w\<lparr>toks := (toks w)(t \<mapsto> ?y\<lparr>t_tv := g\<rparr>), p_timerList := ts, os := k\<rparr>"
  from \<open>wf (w\<lparr>toks := (toks w)(t \<mapsto> ?y)\<rparr>) qs\<close>
  have "\<exists>g ts k. Proactor_pushTimer K t ms (w\<lparr>toks := (toks w)(t \<mapsto> ?y)\<rparr>) = Inr (?w g ts k) \<and>
      wf (?w g ts k) qs \<and> set ts \<subseteq> insert t (set (p_timerList w)) \<and>
      (k = os w \<or> k = snd (k_gettimeofday K (os w)))"
    using Proactor_pushTimer_ok [of "w\<lparr>toks := (toks w)(t \<mapsto> ?y)\<rparr>" qs t ?y K ms] t m' nt by simp
  then obtain g ts k where p: "Proactor_pushTimer K t ms (w\<lparr>toks := (toks w)(t \<mapsto> ?y)\<rparr>) = Inr (?w g ts k)"
      "wf (?w g ts k) qs" "set ts \<subseteq> insert t (set (p_timerList w))"
      "k = os w \<or> k = snd (k_gettimeofday K (os w))"
    by blast
  have "view (?w g ts k) = (view w)(t \<mapsto> unlink (?y\<lparr>t_tv := g\<rparr>))"
    using view_upd [OF t] by simp
  with p x m' show ?thesis
    by (intro exI [of _ "?w g ts k"] exI [of _ "unlink (?y\<lparr>t_tv := g\<rparr>)"])
      (auto simp: pend_def settled_def outcome_def request_def same_rest_def)
qed

section \<open>One transfer\<close>

definition io_err :: "'k kernel \<Rightarrow> string \<Rightarrow> int \<Rightarrow> int \<Rightarrow> error \<Rightarrow> error" where
  "io_err K f ret en e =
     (if ret < 0 then Error_set (Error_clear e) en f [FD en, FS (k_strerror K en)] else Error_clear e)"

lemma io_err_code [simp]: "e_code (io_err K f ret en e) = (if ret < 0 then en else 0)"
  and io_err_ok [simp]: "Error_ok e \<Longrightarrow> Error_ok (io_err K f ret en e)"
  by (simp_all add: io_err_def)

lemma wf_err:
  assumes "wf w qs" and "toks w t = Some x" and "t \<noteq> Head" and "Error_ok e"
  shows "wf (w\<lparr>toks := (toks w)(t \<mapsto> x\<lparr>t_err := e\<rparr>)\<rparr>) qs"
proof (rule wf_upd [OF assms(1-3)])
  show "tok_ok (x\<lparr>t_err := e\<rparr>)"
    using modes_okD(1) [OF wfD(3) [OF assms(1)] assms(2,3)] assms(4) by (simp add: tok_ok_def)
  show "t_mode (x\<lparr>t_err := e\<rparr>) \<noteq> M_NONE \<and> t_tv (x\<lparr>t_err := e\<rparr>) = t_tv x" if "t \<in> set (p_timerList w)"
    using timers_okD(3) [OF wfD(4) [OF assms(1)] that] assms(2) by simp
qed simp_all

lemma wf_Error_ok: "wf w qs \<Longrightarrow> toks w t = Some x \<Longrightarrow> t \<noteq> Head \<Longrightarrow> Error_ok (t_err x)"
  using modes_okD(1) wfD(3) by (fastforce simp: tok_ok_def)

lemma Socket_read_ok:
  fixes b :: ptr
  assumes w: "wf w qs" and x: "toks w (Rt s) = Some x" and fd: "socks w s = Some fd"
    and r: "k_read K fd n (os w) = (ret, en, bs, k)"
  defines "y \<equiv> x\<lparr>t_err := io_err K ''recv fail [%d][%s]'' ret en (t_err x)\<rparr>"
  defines "w' \<equiv> w\<lparr>os := k, mem := mem_store b bs (mem w), toks := (toks w)(Rt s \<mapsto> y)\<rparr>"
  shows "Socket_read K s b n w = Inr (ret, w') \<and> wf w' qs"
proof
  show "Socket_read K s b n w = Inr (ret, w')"
    using x fd r by (simp add: Socket_read_def w'_def y_def io_err_def)
  have "wf (w\<lparr>os := k, mem := mem_store b bs (mem w)\<rparr>) qs" using w by simp
  then show "wf w' qs" unfolding w'_def y_def
    using wf_err [of "w\<lparr>os := k, mem := mem_store b bs (mem w)\<rparr>" qs "Rt s" x] x wf_Error_ok [OF w x] by simp
qed

lemma Socket_write_ok:
  assumes w: "wf w qs" and x: "toks w (Wt s) = Some x" and fd: "socks w s = Some fd"
    and r: "k_write K fd (mem_load (mem w) b (nat n)) (os w) = (ret, en, k)"
  defines "y \<equiv> x\<lparr>t_err := io_err K ''send fail [%d][%s]'' ret en (t_err x)\<rparr>"
  defines "w' \<equiv> w\<lparr>os := k, toks := (toks w)(Wt s \<mapsto> y)\<rparr>"
  shows "Socket_write K s b n w = Inr (ret, w') \<and> wf w' qs"
proof
  show "Socket_write K s b n w = Inr (ret, w')"
    using x fd r by (simp add: Socket_write_def w'_def y_def io_err_def)
  have "wf (w\<lparr>os := k\<rparr>) qs" using w by simp
  then show "wf w' qs" unfolding w'_def y_def
    using wf_err [of "w\<lparr>os := k\<rparr>" qs "Wt s" x] x wf_Error_ok [OF w x] by simp
qed

section \<open>What a request comes to\<close>

text \<open>
  The specification of the three requests: from the result of the one system call they make to the
  token's mode, transferred count and error number.
\<close>

definition readSome_result :: "int \<Rightarrow> int \<Rightarrow> mode \<times> int \<times> int" where
  "readSome_result ret en =
     (if 0 \<le> ret then (M_DONE, ret, 0) else if en = EAGAIN then (M_SOME, 0, EAGAIN) else (M_ERR, 0, en))"

definition readAll_result :: "int \<Rightarrow> int \<Rightarrow> int \<Rightarrow> mode \<times> int \<times> int" where
  "readAll_result n ret en =
     (if ret < 0 then if en = EAGAIN then (M_ALL, 0, EAGAIN) else (M_ERR, 0, en)
      else if ret = 0 then (M_DONE, 0, 0) else if ret < n then (M_ALL, ret, 0) else (M_DONE, ret, 0))"

definition writeAll_result :: "int \<Rightarrow> int \<Rightarrow> int \<Rightarrow> mode \<times> int \<times> int" where
  "writeAll_result n ret en =
     (if ret < 0 then if en = EAGAIN then (M_ALL, 0, EAGAIN) else (M_ERR, 0, en)
      else if ret = 0 then (M_ERR, 0, 0) else if ret < n then (M_ALL, ret, 0) else (M_DONE, ret, 0))"

lemma Token_init_fields [simp]:
  "t_mode (Token_init b n c x) = M_NONE" "t_cb (Token_init b n c x) = Some c" "t_err (Token_init b n c x) = t_err x"
  "t_buf (Token_init b n c x) = b" "t_bufSize (Token_init b n c x) = n" "t_ioSize (Token_init b n c x) = 0"
  "t_next (Token_init b n c x) = t_next x" "t_prev (Token_init b n c x) = t_prev x" "t_tv (Token_init b n c x) = t_tv x"
  by (simp_all add: Token_init_def)

lemma wf_init:
  assumes w: "wf w qs" and x: "toks w t = Some x" and t: "t \<noteq> Head" and m: "t_mode x = M_NONE"
  shows "wf (w\<lparr>toks := (toks w)(t \<mapsto> Token_init b n c x)\<rparr>) qs" and "t \<notin> set (p_timerList w)" and "t \<notin> set qs"
proof -
  show nt: "t \<notin> set (p_timerList w)" using timers_okD(3) [OF wfD(4) [OF w]] x m by fastforce
  show "t \<notin> set qs" using modes_okD(2) [OF wfD(3) [OF w] x t] m by simp
  show "wf (w\<lparr>toks := (toks w)(t \<mapsto> Token_init b n c x)\<rparr>) qs"
    using w x t by (rule wf_upd) (use m nt wf_Error_ok [OF w x t] in \<open>auto simp: tok_ok_def\<close>)
qed

lemma settled_from:
  "settled w2 qs t w' qs' y \<Longrightarrow> view w2 = (view w)(t \<mapsto> z) \<Longrightarrow> same_rest w w2 \<Longrightarrow>
   p_timerList w2 = p_timerList w \<Longrightarrow> settled w qs t w' qs' y"
  by (auto simp: settled_def same_rest_def)

lemma Socket_read_settle:
  fixes b :: ptr
  assumes w: "wf w qs" and x: "toks w (Rt s) = Some x" and fd: "socks w s = Some fd"
    and r: "k_read K fd n (os w) = (ret, en, bs, k)"
  obtains w2 where "Socket_read K s b n w = Inr (ret, w2)" and "wf w2 qs"
    and "toks w2 (Rt s) = Some (x\<lparr>t_err := io_err K ''recv fail [%d][%s]'' ret en (t_err x)\<rparr>)"
    and "same_rest w w2" and "p_timerList w2 = p_timerList w" and "mem w2 = mem_store b bs (mem w)" and "os w2 = k"
    and "\<exists>z. view w2 = (view w)(Rt s \<mapsto> z)"
proof -
  let ?y = "x\<lparr>t_err := io_err K ''recv fail [%d][%s]'' ret en (t_err x)\<rparr>"
  let ?w = "w\<lparr>os := k, mem := mem_store b bs (mem w), toks := (toks w)(Rt s \<mapsto> ?y)\<rparr>"
  have "view ?w = (view w)(Rt s \<mapsto> unlink ?y)"
    using view_upd [of "Rt s" "w\<lparr>os := k, mem := mem_store b bs (mem w)\<rparr>" ?y] by simp
  with Socket_read_ok [OF w x fd r, of b] show ?thesis
    by (intro that [of ?w]) (auto simp: same_rest_def)
qed

lemma Socket_write_settle:
  assumes w: "wf w qs" and x: "toks w (Wt s) = Some x" and fd: "socks w s = Some fd"
    and r: "k_write K fd (mem_load (mem w) b (nat n)) (os w) = (ret, en, k)"
  obtains w2 where "Socket_write K s b n w = Inr (ret, w2)" and "wf w2 qs"
    and "toks w2 (Wt s) = Some (x\<lparr>t_err := io_err K ''send fail [%d][%s]'' ret en (t_err x)\<rparr>)"
    and "same_rest w w2" and "p_timerList w2 = p_timerList w" and "mem w2 = mem w" and "os w2 = k"
    and "\<exists>z. view w2 = (view w)(Wt s \<mapsto> z)"
proof -
  let ?y = "x\<lparr>t_err := io_err K ''send fail [%d][%s]'' ret en (t_err x)\<rparr>"
  let ?w = "w\<lparr>os := k, toks := (toks w)(Wt s \<mapsto> ?y)\<rparr>"
  have "view ?w = (view w)(Wt s \<mapsto> unlink ?y)"
    using view_upd [of "Wt s" "w\<lparr>os := k\<rparr>" ?y] by simp
  with Socket_write_ok [OF w x fd r] show ?thesis
    by (intro that [of ?w]) (auto simp: same_rest_def)
qed

text \<open>A request on a busy token is refused and only leaves an error text.\<close>

lemma Socket_busy:
  "toks w (Rt s) = Some x \<Longrightarrow> t_mode x \<noteq> M_NONE \<Longrightarrow>
   Socket_readSome K s b n c ms w = Inr (False, w\<lparr>toks := (toks w)(Rt s \<mapsto> x\<lparr>t_err := Error_set (t_err x) (-1) ''read in progress'' []\<rparr>)\<rparr>)"
  "toks w (Rt s) = Some x \<Longrightarrow> t_mode x \<noteq> M_NONE \<Longrightarrow>
   Socket_readAll K s b n c ms w = Inr (False, w\<lparr>toks := (toks w)(Rt s \<mapsto> x\<lparr>t_err := Error_set (t_err x) (-1) ''read in progress'' []\<rparr>)\<rparr>)"
  "toks w (Wt s) = Some x' \<Longrightarrow> t_mode x' \<noteq> M_NONE \<Longrightarrow>
   Socket_writeAll K s b n c ms w = Inr (False, w\<lparr>toks := (toks w)(Wt s \<mapsto> x'\<lparr>t_err := Error_set (t_err x') (-1) ''write in progress'' []\<rparr>)\<rparr>)"
  by (simp_all add: Socket_readSome_def Socket_readAll_def Socket_writeAll_def)

text \<open>How a request ends: the token completes at once, or waits with its timer armed.\<close>

definition dispose :: "'k kernel \<Rightarrow> tokref \<Rightarrow> int \<Rightarrow> mode \<Rightarrow> int \<Rightarrow> ('cb, 'acb, 'k) world \<Rightarrow> ('cb, 'acb, 'k) wres" where
  "dispose K t ms m n w = (if queued_mode m then complete_token t n m w else pend K t n m ms w)"

lemma dispose_ok:
  assumes w: "wf w qs" and w2: "wf w2 qs" and x: "toks w2 t = Some x" and t: "t \<noteq> Head" "t \<notin> set (p_timerList w)"
    and xm: "t_mode x = M_NONE" "t_cb x \<noteq> None"
    and fr: "same_rest w w2" "p_timerList w2 = p_timerList w" "\<exists>z. view w2 = (view w)(t \<mapsto> z)"
    and m: "m \<noteq> M_NONE" "pending_mode m \<Longrightarrow> 0 \<le> n \<and> n \<le> t_bufSize x \<and> (m = M_SOME \<longrightarrow> n = 0)"
  shows "\<exists>w' qs' y. dispose K t ms m n w2 = Inr w' \<and> settled w qs t w' qs' y \<and>
    outcome y = (m, n, e_code (t_err x)) \<and> request y = request x \<and> mem w' = mem w2 \<and>
    os w' \<in> {os w2, snd (k_gettimeofday K (os w2))}"
proof -
  obtain z where z: "view w2 = (view w)(t \<mapsto> z)" using fr(3) by blast
  note lft = settled_from [OF _ z fr(1,2)]
  have "queued_mode m \<or> pending_mode m" using m(1) by (cases m) auto
  then show ?thesis
  proof
    assume q: "queued_mode m"
    obtain w' y where "complete_token t n m w2 = Inr w'" "settled w2 qs t w' (qs @ [t]) y"
      "outcome y = (m, n, e_code (t_err x))" "request y = request x" "mem w' = mem w2" "os w' = os w2"
      using settled_complete [OF w2 x t(1) _ q xm(2), of n] xm(1) by auto
    then show ?thesis
      using q by (intro exI [of _ w'] exI [of _ "qs @ [t]"] exI [of _ y]) (simp add: dispose_def lft)
  next
    assume p: "pending_mode m"
    then obtain w' y where "pend K t n m ms w2 = Inr w'" "settled w2 qs t w' qs y"
      "outcome y = (m, n, e_code (t_err x))" "request y = request x" "mem w' = mem w2"
      "os w' \<in> {os w2, snd (k_gettimeofday K (os w2))}"
      using settled_pend [OF w2 x t(1) _ p xm(2), of n K ms] m(2) xm(1) t(2) fr(2) by auto
    moreover have "\<not> queued_mode m" using p by (auto simp: pending_mode_def)
    ultimately show ?thesis
      by (intro exI [of _ w'] exI [of _ qs] exI [of _ y]) (simp add: dispose_def lft)
  qed
qed

definition succeed :: "('cb, 'acb, 'k) wres \<Rightarrow> fault + bool \<times> ('cb, 'acb, 'k) world" where
  "succeed r = bindS r (\<lambda>w. Inr (True, w))"

lemma request_end:
  assumes "wf w qs" and "wf w2 qs" and "toks w2 t = Some x" and "t \<notin> set (p_timerList w)"
    and "t_mode x = M_NONE" and "request x = (b, n, Some c)"
    and "same_rest w w2" "p_timerList w2 = p_timerList w" "\<exists>z. view w2 = (view w)(t \<mapsto> z)"
    and "t \<noteq> Head" and "m \<noteq> M_NONE" "pending_mode m \<Longrightarrow> 0 \<le> i \<and> i \<le> t_bufSize x \<and> (m = M_SOME \<longrightarrow> i = 0)"
  shows "\<exists>w' qs' y. succeed (dispose K t ms m i w2) = Inr (True, w') \<and> settled w qs t w' qs' y \<and>
    outcome y = (m, i, e_code (t_err x)) \<and> request y = (b, n, Some c) \<and> mem w' = mem w2 \<and>
    os w' \<in> {os w2, snd (k_gettimeofday K (os w2))}"
proof -
  have "t_cb x \<noteq> None" using assms(6) by (auto simp: request_def)
  then obtain w' qs' y where "dispose K t ms m i w2 = Inr w'" "settled w qs t w' qs' y"
    "outcome y = (m, i, e_code (t_err x))" "request y = request x" "mem w' = mem w2"
    "os w' \<in> {os w2, snd (k_gettimeofday K (os w2))}"
    using dispose_ok [OF assms(1-3,10,4,5) _ assms(7-9,11,12)] by blast
  then show ?thesis
    using assms(6) by (intro exI [of _ w'] exI [of _ qs'] exI [of _ y]) (simp add: succeed_def)
qed

text \<open>A read request on an idle token: the transfer, and the state it is disposed from.\<close>

lemma read_request:
  fixes b :: ptr
  assumes w: "wf w qs" and x: "toks w (Rt s) = Some x" and m: "t_mode x = M_NONE" and fd: "socks w s = Some fd"
    and r: "k_read K fd n (os w) = (ret, en, bs, k)"
  obtains w2 x2 where "Socket_read K s b n (w\<lparr>toks := (toks w)(Rt s \<mapsto> Token_init b n c x)\<rparr>) = Inr (ret, w2)"
    and "wf w2 qs" and "toks w2 (Rt s) = Some x2" and "Rt s \<notin> set (p_timerList w)"
    and "t_mode x2 = M_NONE" and "request x2 = (b, n, Some c)" and "e_code (t_err x2) = (if ret < 0 then en else 0)"
    and "same_rest w w2" and "p_timerList w2 = p_timerList w" and "\<exists>z. view w2 = (view w)(Rt s \<mapsto> z)"
    and "mem w2 = mem_store b bs (mem w)" and "os w2 = k"
proof -
  let ?w1 = "w\<lparr>toks := (toks w)(Rt s \<mapsto> Token_init b n c x)\<rparr>"
  note i = wf_init [OF w x _ m, simplified]
  obtain w2 where w2: "Socket_read K s b n ?w1 = Inr (ret, w2)" "wf w2 qs"
    "toks w2 (Rt s) = Some ((Token_init b n c x)\<lparr>t_err := io_err K ''recv fail [%d][%s]'' ret en (t_err x)\<rparr>)"
    "same_rest ?w1 w2" "p_timerList w2 = p_timerList w" "mem w2 = mem_store b bs (mem w)" "os w2 = k"
    "\<exists>z. view w2 = (view ?w1)(Rt s \<mapsto> z)"
    using Socket_read_settle [of ?w1 qs s "Token_init b n c x" fd K n ret en bs k b] i(1) fd r by auto
  show ?thesis
    by (rule that [OF w2(1-3)]) (use w2 i(2) view_upd [of "Rt s" w] in \<open>auto simp: request_def same_rest_def\<close>)
qed

lemma write_request:
  assumes w: "wf w qs" and x: "toks w (Wt s) = Some x" and m: "t_mode x = M_NONE" and fd: "socks w s = Some fd"
    and r: "k_write K fd (mem_load (mem w) b (nat n)) (os w) = (ret, en, k)"
  obtains w2 x2 where "Socket_write K s b n (w\<lparr>toks := (toks w)(Wt s \<mapsto> Token_init b n c x)\<rparr>) = Inr (ret, w2)"
    and "wf w2 qs" and "toks w2 (Wt s) = Some x2" and "Wt s \<notin> set (p_timerList w)"
    and "t_mode x2 = M_NONE" and "request x2 = (b, n, Some c)" and "e_code (t_err x2) = (if ret < 0 then en else 0)"
    and "same_rest w w2" and "p_timerList w2 = p_timerList w" and "\<exists>z. view w2 = (view w)(Wt s \<mapsto> z)"
    and "mem w2 = mem w" and "os w2 = k"
proof -
  let ?w1 = "w\<lparr>toks := (toks w)(Wt s \<mapsto> Token_init b n c x)\<rparr>"
  note i = wf_init [OF w x _ m, simplified]
  obtain w2 where w2: "Socket_write K s b n ?w1 = Inr (ret, w2)" "wf w2 qs"
    "toks w2 (Wt s) = Some ((Token_init b n c x)\<lparr>t_err := io_err K ''send fail [%d][%s]'' ret en (t_err x)\<rparr>)"
    "same_rest ?w1 w2" "p_timerList w2 = p_timerList w" "mem w2 = mem w" "os w2 = k"
    "\<exists>z. view w2 = (view ?w1)(Wt s \<mapsto> z)"
    using Socket_write_settle [of ?w1 qs s "Token_init b n c x" fd K b n ret en k] i(1) fd r by auto
  show ?thesis
    by (rule that [OF w2(1-3)]) (use w2 i(2) view_upd [of "Wt s" w] in \<open>auto simp: request_def same_rest_def\<close>)
qed

lemma readSome_ok:
  assumes w: "wf w qs" and x: "toks w (Rt s) = Some x" and m: "t_mode x = M_NONE" and fd: "socks w s = Some fd"
    and n: "0 \<le> n" and r: "k_read K fd n (os w) = (ret, en, bs, k)"
  shows "\<exists>w' qs' y. Socket_readSome K s b n c ms w = Inr (True, w') \<and> settled w qs (Rt s) w' qs' y \<and>
    outcome y = readSome_result ret en \<and> request y = (b, n, Some c) \<and>
    mem w' = mem_store b bs (mem w) \<and> os w' \<in> {k, snd (k_gettimeofday K k)}"
proof -
  obtain w2 x2 where rd: "Socket_read K s b n (w\<lparr>toks := (toks w)(Rt s \<mapsto> Token_init b n c x)\<rparr>) = Inr (ret, w2)"
    and w2: "wf w2 qs" "toks w2 (Rt s) = Some x2" "Rt s \<notin> set (p_timerList w)"
      "t_mode x2 = M_NONE" "request x2 = (b, n, Some c)" "e_code (t_err x2) = (if ret < 0 then en else 0)"
      "same_rest w w2" "p_timerList w2 = p_timerList w" "\<exists>z. view w2 = (view w)(Rt s \<mapsto> z)"
      "mem w2 = mem_store b bs (mem w)" "os w2 = k"
    using read_request [OF w x m fd r] by metis
  obtain m' i e where res: "readSome_result ret en = (m', i, e)" by (cases "readSome_result ret en")
  have "Socket_readSome K s b n c ms w = succeed (dispose K (Rt s) ms m' i w2)"
    using res x m rd w2(2,6)
    by (auto simp: Socket_readSome_def readSome_result_def dispose_def pend_def succeed_def split: if_splits)
  moreover have "e = e_code (t_err x2)" using res w2(6) by (auto simp: readSome_result_def split: if_splits)
  moreover have "m' \<noteq> M_NONE" "pending_mode m' \<Longrightarrow> 0 \<le> i \<and> i \<le> t_bufSize x2 \<and> (m' = M_SOME \<longrightarrow> i = 0)"
    using res n w2(5) by (auto simp: readSome_result_def request_def split: if_splits)
  ultimately show ?thesis
    using request_end [OF w w2(1-5,7-9), of m' i K ms] w2(10,11) res by simp
qed

lemma readAll_ok:
  assumes w: "wf w qs" and x: "toks w (Rt s) = Some x" and m: "t_mode x = M_NONE" and fd: "socks w s = Some fd"
    and n: "0 \<le> n" and r: "k_read K fd n (os w) = (ret, en, bs, k)"
  shows "\<exists>w' qs' y. Socket_readAll K s b n c ms w = Inr (True, w') \<and> settled w qs (Rt s) w' qs' y \<and>
    outcome y = readAll_result n ret en \<and> request y = (b, n, Some c) \<and>
    mem w' = mem_store b bs (mem w) \<and> os w' \<in> {k, snd (k_gettimeofday K k)}"
proof -
  obtain w2 x2 where rd: "Socket_read K s b n (w\<lparr>toks := (toks w)(Rt s \<mapsto> Token_init b n c x)\<rparr>) = Inr (ret, w2)"
    and w2: "wf w2 qs" "toks w2 (Rt s) = Some x2" "Rt s \<notin> set (p_timerList w)"
      "t_mode x2 = M_NONE" "request x2 = (b, n, Some c)" "e_code (t_err x2) = (if ret < 0 then en else 0)"
      "same_rest w w2" "p_timerList w2 = p_timerList w" "\<exists>z. view w2 = (view w)(Rt s \<mapsto> z)"
      "mem w2 = mem_store b bs (mem w)" "os w2 = k"
    using read_request [OF w x m fd r] by metis
  obtain m' i e where res: "readAll_result n ret en = (m', i, e)" by (cases "readAll_result n ret en")
  have "Socket_readAll K s b n c ms w = succeed (dispose K (Rt s) ms m' i w2)"
    using res x m rd w2(2,6)
    by (auto simp: Socket_readAll_def readAll_result_def dispose_def pend_def succeed_def split: if_splits)
  moreover have "e = e_code (t_err x2)" using res w2(6) by (auto simp: readAll_result_def split: if_splits)
  moreover have "m' \<noteq> M_NONE" "pending_mode m' \<Longrightarrow> 0 \<le> i \<and> i \<le> t_bufSize x2 \<and> (m' = M_SOME \<longrightarrow> i = 0)"
    using res n w2(5) by (auto simp: readAll_result_def request_def split: if_splits)
  ultimately show ?thesis
    using request_end [OF w w2(1-5,7-9), of m' i K ms] w2(10,11) res by simp
qed

lemma writeAll_ok:
  assumes w: "wf w qs" and x: "toks w (Wt s) = Some x" and m: "t_mode x = M_NONE" and fd: "socks w s = Some fd"
    and n: "0 \<le> n" and r: "k_write K fd (mem_load (mem w) b (nat n)) (os w) = (ret, en, k)"
  shows "\<exists>w' qs' y. Socket_writeAll K s b n c ms w = Inr (True, w') \<and> settled w qs (Wt s) w' qs' y \<and>
    outcome y = writeAll_result n ret en \<and> request y = (b, n, Some c) \<and>
    mem w' = mem w \<and> os w' \<in> {k, snd (k_gettimeofday K k)}"
proof -
  obtain w2 x2 where rd: "Socket_write K s b n (w\<lparr>toks := (toks w)(Wt s \<mapsto> Token_init b n c x)\<rparr>) = Inr (ret, w2)"
    and w2: "wf w2 qs" "toks w2 (Wt s) = Some x2" "Wt s \<notin> set (p_timerList w)"
      "t_mode x2 = M_NONE" "request x2 = (b, n, Some c)" "e_code (t_err x2) = (if ret < 0 then en else 0)"
      "same_rest w w2" "p_timerList w2 = p_timerList w" "\<exists>z. view w2 = (view w)(Wt s \<mapsto> z)"
      "mem w2 = mem w" "os w2 = k"
    using write_request [OF w x m fd r] by metis
  obtain m' i e where res: "writeAll_result n ret en = (m', i, e)" by (cases "writeAll_result n ret en")
  have "Socket_writeAll K s b n c ms w = succeed (dispose K (Wt s) ms m' i w2)"
    using res x m rd w2(2,6)
    by (auto simp: Socket_writeAll_def writeAll_result_def dispose_def pend_def succeed_def split: if_splits)
  moreover have "e = e_code (t_err x2)" using res w2(6) by (auto simp: writeAll_result_def split: if_splits)
  moreover have "m' \<noteq> M_NONE" "pending_mode m' \<Longrightarrow> 0 \<le> i \<and> i \<le> t_bufSize x2 \<and> (m' = M_SOME \<longrightarrow> i = 0)"
    using res n w2(5) by (auto simp: writeAll_result_def request_def split: if_splits)
  ultimately show ?thesis
    using request_end [OF w w2(1-5,7-9), of m' i K ms] w2(10,11) res by simp
qed

end
