(* ===== verification/SocketEvents.thy ===== *)
theory SocketEvents
  imports SocketRequests
begin

text \<open>
  The event handlers of \<open>aio::Socket\<close>: the outcome of \<open>onRead\<close> and \<open>onWrite\<close> on a pending token as a
  function of the one system call they make.
\<close>

section \<open>What an event comes to\<close>

definition onRead_result :: "mode \<Rightarrow> int \<Rightarrow> int \<Rightarrow> int \<Rightarrow> int \<Rightarrow> mode \<times> int \<times> int" where
  "onRead_result m io n ret en =
     (if ret < 0 then if en = EAGAIN then (m, io, EAGAIN) else (M_ERR, 0, en)
      else if m = M_SOME \<or> ret = 0 then (M_DONE, ret, 0)
      else if io + ret < n then (M_ALL, io + ret, 0) else (M_DONE, io + ret, 0))"

definition onWrite_result :: "int \<Rightarrow> int \<Rightarrow> int \<Rightarrow> int \<Rightarrow> mode \<times> int \<times> int" where
  "onWrite_result io n ret en =
     (if ret < 0 then if en = EAGAIN then (M_ALL, io, EAGAIN) else (M_ERR, 0, en)
      else if ret = 0 then (M_ERR, 0, 0)
      else if io + ret < n then (M_ALL, io + ret, 0) else (M_DONE, io + ret, 0))"

text \<open>How an event on a pending token ends: it completes, or stays pending as it is now.\<close>

definition event_end :: "tokref \<Rightarrow> mode \<Rightarrow> int \<Rightarrow> ('cb, 'acb, 'k) world \<Rightarrow> ('cb, 'acb, 'k) wres" where
  "event_end t m n w = (if queued_mode m then complete_token t n m w else Inr w)"

lemma event_end_ok:
  assumes w2: "wf w2 qs" and x: "toks w2 t = Some x" and t: "t \<noteq> Head" and p: "pending_mode (t_mode x)"
    and fr: "same_rest w w2" "p_timerList w2 = p_timerList w" "\<exists>z. view w2 = (view w)(t \<mapsto> z)"
    and m: "queued_mode m \<or> m = t_mode x \<and> n = t_ioSize x"
  shows "\<exists>w' qs' y. event_end t m n w2 = Inr w' \<and> settled w qs t w' qs' y \<and>
    outcome y = (m, n, e_code (t_err x)) \<and> request y = request x \<and> mem w' = mem w2 \<and> os w' = os w2 \<and>
    p_timerList w' = p_timerList w"
proof -
  obtain z where z: "view w2 = (view w)(t \<mapsto> z)" using fr(3) by blast
  have xok: "tok_ok x" using modes_okD(1) [OF wfD(3) [OF w2] x t] .
  have nq: "\<not> queued_mode (t_mode x)" using p by (auto simp: pending_mode_def)
  show ?thesis
  proof (cases "queued_mode m")
    case True
    have "t_cb x \<noteq> None" using xok p by (auto simp: tok_ok_def pending_mode_def)
    then obtain w' y where "complete_token t n m w2 = Inr w'" "settled w2 qs t w' (qs @ [t]) y"
      "outcome y = (m, n, e_code (t_err x))" "request y = request x" "mem w' = mem w2" "os w' = os w2"
      using settled_complete [OF w2 x t nq True, of n] by auto
    then show ?thesis using True fr(2)
      by (intro exI [of _ w'] exI [of _ "qs @ [t]"] exI [of _ y])
        (simp add: event_end_def settled_from [OF _ z fr(1,2)], simp add: settled_def outcome_def)
  next
    case False
    then have "settled w qs t w2 qs (unlink x)"
      using m w2 fr view_Some [OF x t] z by (auto simp: settled_def)
    with False m fr(2) show ?thesis
      by (intro exI [of _ w2] exI [of _ qs] exI [of _ "unlink x"]) (auto simp: event_end_def outcome_def)
  qed
qed

text \<open>Advancing a pending token by a positive transfer that fits.\<close>

lemma wf_add:
  assumes w: "wf w qs" and x: "toks w t = Some x" and t: "t \<noteq> Head" and m: "t_mode x = M_ALL"
    and r: "0 \<le> ret" "t_ioSize x + ret \<le> t_bufSize x"
  shows "wf (w\<lparr>toks := (toks w)(t \<mapsto> Token_add ret x)\<rparr>) qs"
proof (rule wf_upd [OF w x t])
  show "tok_ok (Token_add ret x)"
    using modes_okD(1) [OF wfD(3) [OF w] x t] m r by (auto simp: tok_ok_def Token_add_def)
qed (use m in \<open>simp_all add: Token_add_def\<close>)

lemma Token_add_fields [simp]:
  "t_ioSize (Token_add n x) = t_ioSize x + n" "t_mode (Token_add n x) = t_mode x" "t_err (Token_add n x) = t_err x"
  "t_bufSize (Token_add n x) = t_bufSize x" "t_buf (Token_add n x) = t_buf x" "t_cb (Token_add n x) = t_cb x"
  by (simp_all add: Token_add_def)

text \<open>The handlers on a pending token, by the result of the system call.\<close>

lemma onRead_body_some:
  assumes "toks w (Rt s) = Some x" and "t_mode x = M_SOME"
    and "Socket_read K s (t_buf x) (t_bufSize x) w = Inr (ret, w2)" and "toks w2 (Rt s) = Some (x\<lparr>t_err := e\<rparr>)"
  shows "Socket_onRead K s w =
    (if ret < 0 then if e_code e = EAGAIN then Inr w2 else complete_token (Rt s) 0 M_ERR w2
     else complete_token (Rt s) ret M_DONE w2)"
  using assms by (simp add: Socket_onRead_def)

lemma onRead_body_all:
  assumes "toks w (Rt s) = Some x" and "t_mode x = M_ALL"
    and "Socket_read K s (ptr_add (t_buf x) (t_ioSize x)) (t_bufSize x - t_ioSize x) w = Inr (ret, w2)"
    and "toks w2 (Rt s) = Some (x\<lparr>t_err := e\<rparr>)"
  shows "Socket_onRead K s w =
    (if ret < 0 then if e_code e = EAGAIN then Inr w2 else complete_token (Rt s) 0 M_ERR w2
     else if ret = 0 then complete_token (Rt s) 0 M_DONE w2
     else let w3 = w2\<lparr>toks := (toks w2)(Rt s \<mapsto> Token_add ret (x\<lparr>t_err := e\<rparr>))\<rparr>
          in if t_ioSize x + ret < t_bufSize x then Inr w3 else complete_token (Rt s) (t_ioSize x + ret) M_DONE w3)"
  using assms by (simp add: Socket_onRead_def)

lemma onWrite_body:
  assumes "toks w (Wt s) = Some x" and "t_mode x = M_ALL"
    and "Socket_write K s (ptr_add (t_buf x) (t_ioSize x)) (t_bufSize x - t_ioSize x) w = Inr (ret, w2)"
    and "toks w2 (Wt s) = Some (x\<lparr>t_err := e\<rparr>)"
  shows "Socket_onWrite K s w =
    (if ret \<le> 0 then if e_code e = EAGAIN then Inr w2 else complete_token (Wt s) 0 M_ERR w2
     else let w3 = w2\<lparr>toks := (toks w2)(Wt s \<mapsto> Token_add ret (x\<lparr>t_err := e\<rparr>))\<rparr>
          in if t_ioSize x + ret < t_bufSize x then Inr w3 else complete_token (Wt s) (t_ioSize x + ret) M_DONE w3)"
  using assms by (simp add: Socket_onWrite_def)

lemma onRead_ok:
  assumes w: "wf w qs" and x: "toks w (Rt s) = Some x" and p: "pending_mode (t_mode x)" and fd: "socks w s = Some fd"
    and P: "posix_read K" and r: "k_read K fd (t_bufSize x - t_ioSize x) (os w) = (ret, en, bs, k)"
  shows "\<exists>w' qs' y. Socket_onRead K s w = Inr w' \<and> settled w qs (Rt s) w' qs' y \<and>
    outcome y = onRead_result (t_mode x) (t_ioSize x) (t_bufSize x) ret en \<and> request y = request x \<and>
    mem w' = mem_store (ptr_add (t_buf x) (t_ioSize x)) bs (mem w) \<and> os w' = k \<and> p_timerList w' = p_timerList w"
proof -
  have xok: "tok_ok x" using modes_okD(1) [OF wfD(3) [OF w] x] by simp
  have "ret \<le> t_bufSize x - t_ioSize x" if "0 \<le> ret"
    using posix_readD(1) [OF P r] that xok p by (auto simp: tok_ok_def)
  note bound = this
  let ?e = "io_err K ''recv fail [%d][%s]'' ret en (t_err x)"
  obtain w2 where rd: "Socket_read K s (ptr_add (t_buf x) (t_ioSize x)) (t_bufSize x - t_ioSize x) w = Inr (ret, w2)"
    and w2: "wf w2 qs" "toks w2 (Rt s) = Some (x\<lparr>t_err := ?e\<rparr>)" "same_rest w w2"
      "p_timerList w2 = p_timerList w" "mem w2 = mem_store (ptr_add (t_buf x) (t_ioSize x)) bs (mem w)" "os w2 = k"
      "\<exists>z. view w2 = (view w)(Rt s \<mapsto> z)"
    using Socket_read_settle [OF w x fd r, of "ptr_add (t_buf x) (t_ioSize x)"] by metis
  define x3 where "x3 = (if 0 < ret \<and> t_mode x = M_ALL then Token_add ret (x\<lparr>t_err := ?e\<rparr>) else x\<lparr>t_err := ?e\<rparr>)"
  define w3 where "w3 = w2\<lparr>toks := (toks w2)(Rt s \<mapsto> x3)\<rparr>"
  have "wf w3 qs" unfolding w3_def x3_def
    using w2(1,2) wf_add [OF w2(1,2), of ret] bound p by (auto simp: fun_upd_idem)
  moreover have "toks w3 (Rt s) = Some x3" by (simp add: w3_def)
  moreover have "same_rest w w3" "p_timerList w3 = p_timerList w"
    using w2(3,4) by (simp_all add: w3_def same_rest_def)
  moreover have "\<exists>z. view w3 = (view w)(Rt s \<mapsto> z)"
    using w2(7) view_upd [of "Rt s" w2] by (auto simp: w3_def)
  moreover have x3: "pending_mode (t_mode x3)" "t_mode x3 = t_mode x" "request x3 = request x" "t_err x3 = ?e"
    using p by (auto simp: x3_def request_def)
  moreover obtain m' i e where res: "onRead_result (t_mode x) (t_ioSize x) (t_bufSize x) ret en = (m', i, e)" by (cases "onRead_result (t_mode x) (t_ioSize x) (t_bufSize x) ret en")
  moreover have "queued_mode m' \<or> m' = t_mode x3 \<and> i = t_ioSize x3" "e = e_code (t_err x3)"
    using res p xok x3(1,2,4) by (auto simp: onRead_result_def x3_def tok_ok_def pending_mode_def split: if_splits)
  moreover have "w3 = w2" if "\<not> (0 < ret \<and> t_mode x = M_ALL)"
    using that w2(2) by (auto simp: w3_def x3_def fun_upd_idem)
  note w3 = this
  have "Socket_onRead K s w = event_end (Rt s) m' i w3"
  proof (cases "t_mode x = M_SOME")
    case True
    with xok have "t_ioSize x = 0" by (simp add: tok_ok_def)
    then have rd': "Socket_read K s (t_buf x) (t_bufSize x) w = Inr (ret, w2)" using rd by simp
    show ?thesis
      unfolding onRead_body_some [OF x True rd' w2(2)] using True \<open>t_ioSize x = 0\<close> res w3
      by (auto simp: onRead_result_def event_end_def split: if_splits)
  next
    case False
    then have m: "t_mode x = M_ALL" using p by (simp add: pending_mode_def)
    have b: "Socket_onRead K s w = (if ret < 0 then if en = EAGAIN then Inr w2 else complete_token (Rt s) 0 M_ERR w2
       else if ret = 0 then complete_token (Rt s) 0 M_DONE w2
       else if t_ioSize x + ret < t_bufSize x then Inr w3 else complete_token (Rt s) (t_ioSize x + ret) M_DONE w3)"
      unfolding onRead_body_all [OF x m rd w2(2)] by (simp add: w3_def x3_def m)
    show ?thesis
      unfolding b using res w3 m by (auto simp: onRead_result_def event_end_def split: if_splits)
  qed
  moreover have "mem w3 = mem w2" "os w3 = os w2" by (simp_all add: w3_def)
  ultimately show ?thesis
    using event_end_ok [of w3 qs "Rt s" x3 w m' i] w2(5,6) by simp
qed

lemma onWrite_ok:
  assumes w: "wf w qs" and x: "toks w (Wt s) = Some x" and p: "t_mode x = M_ALL" and fd: "socks w s = Some fd"
    and P: "posix_write K" and r: "k_write K fd (mem_load (mem w) (ptr_add (t_buf x) (t_ioSize x)) (nat (t_bufSize x - t_ioSize x))) (os w) = (ret, en, k)"
  shows "\<exists>w' qs' y. Socket_onWrite K s w = Inr w' \<and> settled w qs (Wt s) w' qs' y \<and>
    outcome y = onWrite_result (t_ioSize x) (t_bufSize x) ret en \<and> request y = request x \<and>
    mem w' = mem w \<and> os w' = k \<and> p_timerList w' = p_timerList w"
proof -
  have xok: "tok_ok x" using modes_okD(1) [OF wfD(3) [OF w] x] by simp
  have "ret \<le> t_bufSize x - t_ioSize x"
    using posix_writeD(1) [OF P r] xok p by (auto simp: tok_ok_def)
  note bound = this
  let ?e = "io_err K ''send fail [%d][%s]'' ret en (t_err x)"
  obtain w2 where rd: "Socket_write K s (ptr_add (t_buf x) (t_ioSize x)) (t_bufSize x - t_ioSize x) w = Inr (ret, w2)"
    and w2: "wf w2 qs" "toks w2 (Wt s) = Some (x\<lparr>t_err := ?e\<rparr>)" "same_rest w w2"
      "p_timerList w2 = p_timerList w" "mem w2 = mem w" "os w2 = k"
      "\<exists>z. view w2 = (view w)(Wt s \<mapsto> z)"
    using Socket_write_settle [OF w x fd r] by metis
  define x3 where "x3 = (if 0 < ret then Token_add ret (x\<lparr>t_err := ?e\<rparr>) else x\<lparr>t_err := ?e\<rparr>)"
  define w3 where "w3 = w2\<lparr>toks := (toks w2)(Wt s \<mapsto> x3)\<rparr>"
  have "wf w3 qs" unfolding w3_def x3_def
    using w2(1,2) wf_add [OF w2(1,2), of ret] bound p by (auto simp: fun_upd_idem)
  moreover have "toks w3 (Wt s) = Some x3" by (simp add: w3_def)
  moreover have "same_rest w w3" "p_timerList w3 = p_timerList w"
    using w2(3,4) by (simp_all add: w3_def same_rest_def)
  moreover have "\<exists>z. view w3 = (view w)(Wt s \<mapsto> z)"
    using w2(7) view_upd [of "Wt s" w2] by (auto simp: w3_def)
  moreover have x3: "pending_mode (t_mode x3)" "t_mode x3 = t_mode x" "request x3 = request x" "t_err x3 = ?e"
    using p by (auto simp: x3_def request_def)
  moreover obtain m' i e where res: "onWrite_result (t_ioSize x) (t_bufSize x) ret en = (m', i, e)" by (cases "onWrite_result (t_ioSize x) (t_bufSize x) ret en")
  moreover have "queued_mode m' \<or> m' = t_mode x3 \<and> i = t_ioSize x3" "e = e_code (t_err x3)"
    using res p xok x3(1,2,4) by (auto simp: onWrite_result_def x3_def tok_ok_def split: if_splits)
  moreover have "w3 = w2" if "\<not> 0 < ret"
    using that w2(2) by (auto simp: w3_def x3_def fun_upd_idem)
  note w3 = this
  have b: "Socket_onWrite K s w = (if ret \<le> 0 then if ret < 0 \<and> en = EAGAIN then Inr w2 else complete_token (Wt s) 0 M_ERR w2
       else if t_ioSize x + ret < t_bufSize x then Inr w3 else complete_token (Wt s) (t_ioSize x + ret) M_DONE w3)"
    unfolding onWrite_body [OF x p rd w2(2)] by (simp add: w3_def x3_def eq_commute [of 0 EAGAIN])
  have "Socket_onWrite K s w = event_end (Wt s) m' i w3"
    unfolding b using res w3 p by (auto simp: onWrite_result_def event_end_def split: if_splits)
  moreover have "mem w3 = mem w2" "os w3 = os w2" by (simp_all add: w3_def)
  ultimately show ?thesis
    using event_end_ok [of w3 qs "Wt s" x3 w m' i] w2(5,6) by simp
qed

text \<open>An event on a socket with no pending request of its kind changes nothing.\<close>

lemma onRead_idle: "toks w (Rt s) = Some x \<Longrightarrow> \<not> pending_mode (t_mode x) \<Longrightarrow> Socket_onRead K s w = Inr w"
  by (simp add: Socket_onRead_def pending_mode_def)

lemma onWrite_idle: "toks w (Wt s) = Some x \<Longrightarrow> t_mode x \<noteq> M_ALL \<Longrightarrow> Socket_onWrite K s w = Inr w"
  by (simp add: Socket_onWrite_def)

end
