(* ===== verification/Poller.thy ===== *)
theory Poller
  imports SocketEvents Kqueue
begin

unbundle bit_operations_syntax

text \<open>
  The interface between the sockets and the poller. The epoll and the kqueue build provide
  registration and removal; a socket relies on them to change nothing but the proactor's error, the
  list of deleted handlers and the state of the operating system. The laws are stated once, the
  lifetime of a socket is proved once against them, and both builds are shown to provide them.
\<close>

section \<open>Lifetime steps that do not involve the poller\<close>

lemma unqueue_ok:
  assumes q: "queue_ok (toks w) qs" and x: "toks w t = Some x" and t: "t \<noteq> Head"
  shows "\<exists>h. unqueue t w = Inr (w\<lparr>toks := h\<rparr>) \<and> queue_ok h (remove1 t qs) \<and> same_payload (toks w) h"
proof (cases "t \<in> set qs")
  case True
  then obtain h where "Proactor_remove t (toks w) = Inr h" "queue_ok h (remove1 t qs)" "same_payload (toks w) h"
    using Proactor_remove_ok [OF q] by blast
  moreover have "t_prev x \<noteq> None" using queue_ok_linked_iff [OF q t] True pv_get [of "toks w", OF x] by simp
  ultimately show ?thesis using x by (auto simp: unqueue_def on_toks_def)
next
  case False
  then have "t_prev x = None" using queue_ok_linked_iff [OF q t] pv_get [of "toks w", OF x] by simp
  then show ?thesis
    using x q False by (intro exI [of _ "toks w"]) (simp add: unqueue_def remove1_idem)
qed

lemma queue_ok_del:
  assumes q: "queue_ok h qs" and t: "t \<notin> insert Head (set qs)"
  shows "queue_ok (h(t := None)) qs"
proof -
  have "nx h t = None" "pv h t = None" using q t by (auto simp: queue_ok_def)
  then show ?thesis by (intro queue_ok_cong [OF q]) auto
qed

lemma wf_dead:
  assumes "wf w qs" and "socks w s = None"
  shows "toks w (Rt s) = None" "toks w (Wt s) = None" "Rt s \<notin> set qs" "Wt s \<notin> set qs"
    "Rt s \<notin> set (p_timerList w)" "Wt s \<notin> set (p_timerList w)"
proof -
  show d: "toks w (Rt s) = None" "toks w (Wt s) = None"
    using wfD(2) [OF assms(1)] assms(2) by (auto simp: live_ok_def)
  show "Rt s \<notin> set qs" "Wt s \<notin> set qs"
    using queue_ok_live [OF wfD(1) [OF assms(1)]] d by fastforce+
  show "Rt s \<notin> set (p_timerList w)" "Wt s \<notin> set (p_timerList w)"
    using timers_okD(3) [OF wfD(4) [OF assms(1)]] d by fastforce+
qed

lemma Token_new_fields [simp]:
  "t_next (Token_new g) = None" "t_prev (Token_new g) = None" "t_mode (Token_new g) = M_NONE" "tok_ok (Token_new g)"
  by (simp_all add: Token_new_def tok_ok_def)

lemma wf_Socket_new:
  assumes w: "wf w qs" and s: "socks w s = None"
  shows "wf (Socket_new K s fd w) qs"
proof -
  note d = wf_dead [OF w s]
  let ?h = "(toks w)(Rt s \<mapsto> Token_new (k_fresh_tv K 0 (os w)), Wt s \<mapsto> Token_new (k_fresh_tv K 1 (os w)))"
  have "queue_ok ?h qs"
    by (rule queue_ok_cong [OF wfD(1) [OF w]]) (use d in \<open>auto simp: nx_def pv_def\<close>)
  moreover have "live_ok ?h ((socks w)(s \<mapsto> fd))" using wfD(2) [OF w] by (auto simp: live_ok_def)
  moreover have "modes_ok ?h qs" using wfD(3) [OF w] d by (intro modes_ok_upd) auto
  moreover have "timers_ok ?h (p_timerList w)"
    using wfD(4) [OF w] d(5,6) by (intro timers_ok_upd) simp_all
  ultimately show ?thesis by (simp add: wf_def Socket_new_def)
qed

text \<open>
  What is left when a socket's tokens leave the queue and the timer list and are destroyed.
\<close>

lemma wf_destroy:
  assumes w: "wf w qs" and p: "same_payload (toks w) h" and q: "queue_ok h (remove1 (Wt s) (remove1 (Rt s) qs))"
    and t: "timers_ok h ts" "Rt s \<notin> set ts" "Wt s \<notin> set ts"
  shows "wf (w\<lparr>toks := h(Rt s := None, Wt s := None), socks := (socks w)(s := None), p_timerList := ts\<rparr>)
    (remove1 (Wt s) (remove1 (Rt s) qs))"
proof -
  let ?qs = "remove1 (Wt s) (remove1 (Rt s) qs)"
  have mem: "set ?qs = set qs - {Rt s, Wt s}"
    using queue_ok_distinct [OF wfD(1) [OF w]] by (auto simp: set_remove1_eq)
  have "queue_ok (h(Rt s := None, Wt s := None)) ?qs"
    using mem by (intro queue_ok_del q) auto
  moreover have "live_ok h (socks w)"
    using live_ok_dom [OF wfD(2) [OF w] same_payload_dom [OF p]] .
  then have "live_ok (h(Rt s := None, Wt s := None)) ((socks w)(s := None))" by (auto simp: live_ok_def)
  moreover have "modes_ok h qs" using modes_ok_payload [OF wfD(3) [OF w] p] .
  then have "modes_ok (h(Rt s := None, Wt s := None)) ?qs" unfolding modes_ok_def mem by auto
  moreover have "timers_ok (h(Rt s := None, Wt s := None)) ts" using t by (intro timers_ok_del) auto
  ultimately show ?thesis by (simp add: wf_def)
qed

text \<open>
  Destroying a socket removes timers by their deadline: the timers with another deadline than its
  two tokens have are left.
\<close>

definition spared :: "nat \<Rightarrow> ('cb, 'acb, 'k) world \<Rightarrow> tokref list \<Rightarrow> bool" where
  "spared s w ts \<longleftrightarrow> (\<forall>u\<in>set (p_timerList w). st_tv (toks w) u \<notin> st_tv (toks w) ` {Rt s, Wt s} \<longrightarrow> u \<in> set ts)"

text \<open>The destructor of a socket that was closed before.\<close>

lemma Socket_dtor_closed:
  assumes w: "wf w qs" and s: "socks w s = Some (-1)"
  shows "\<exists>h ts. Socket_dtor rem K s w = Inr (w\<lparr>toks := h, socks := (socks w)(s := None), p_timerList := ts\<rparr>) \<and>
    wf (w\<lparr>toks := h, socks := (socks w)(s := None), p_timerList := ts\<rparr>) (remove1 (Wt s) (remove1 (Rt s) qs)) \<and>
    view (w\<lparr>toks := h\<rparr>) = (view w)(Rt s := None, Wt s := None) \<and> set ts \<subseteq> set (p_timerList w) - {Rt s, Wt s} \<and>
    spared s w ts"
proof -
  obtain x y where x: "toks w (Rt s) = Some x" "toks w (Wt s) = Some y"
    using live_ok_iff [OF wfD(2) [OF w]] s by metis
  obtain h1 where h1: "unqueue (Rt s) w = Inr (w\<lparr>toks := h1\<rparr>)" "queue_ok h1 (remove1 (Rt s) qs)"
      "same_payload (toks w) h1"
    using unqueue_ok [OF wfD(1) [OF w] x(1)] by auto
  obtain y1 where y1: "h1 (Wt s) = Some y1" using same_payloadD [OF h1(3) x(2)] by blast
  obtain h2 where h2: "unqueue (Wt s) (w\<lparr>toks := h1\<rparr>) = Inr (w\<lparr>toks := h2\<rparr>)"
      "queue_ok h2 (remove1 (Wt s) (remove1 (Rt s) qs))" "same_payload h1 h2"
    using unqueue_ok [of "w\<lparr>toks := h1\<rparr>" _ "Wt s" y1] h1(2) y1 by auto
  have p: "same_payload (toks w) h2" using same_payload_trans [OF h1(3) h2(3)] .
  obtain x2 y2 where xy: "h2 (Rt s) = Some x2" "h2 (Wt s) = Some y2"
    using same_payloadD [OF p x(1)] same_payloadD [OF p x(2)] by blast
  define ts1 where "ts1 = set_erase (st_tv h2) (Rt s) (p_timerList w)"
  define ts where "ts = set_erase (st_tv h2) (Wt s) ts1"
  have t0: "timers_ok h2 (p_timerList w)" using timers_ok_payload [OF wfD(4) [OF w] p] .
  then have t1: "timers_ok h2 ts1" unfolding ts1_def by (rule timers_ok_erase)
  then have t2: "timers_ok h2 ts" unfolding ts_def by (rule timers_ok_erase)
  have sub: "set ts \<subseteq> set (p_timerList w) - {Rt s, Wt s}"
    unfolding ts_def ts1_def by (auto simp: set_erase_filter)
  have sp: "spared s w ts"
    using st_tv_payload [OF p] by (auto simp: spared_def ts_def ts1_def set_erase_filter)
  let ?h = "h2(Rt s := None, Wt s := None)"
  have "Socket_dtor rem K s w = Inr (w\<lparr>toks := ?h, socks := (socks w)(s := None), p_timerList := ts\<rparr>)"
    using s h1(1) h2(1) xy Proactor_popTimer_eq [of "w\<lparr>toks := h2\<rparr>" "Rt s" x2] t0
      Proactor_popTimer_eq [of "w\<lparr>toks := h2, p_timerList := ts1\<rparr>" "Wt s" y2] t1
    by (simp add: Socket_dtor_def ts1_def ts_def)
  moreover have "view (w\<lparr>toks := ?h\<rparr>) = (view w)(Rt s := None, Wt s := None)"
    using p by (auto simp: view_def same_payload_def)
  moreover have "wf (w\<lparr>toks := ?h, socks := (socks w)(s := None), p_timerList := ts\<rparr>) (remove1 (Wt s) (remove1 (Rt s) qs))"
    using wf_destroy [OF w p h2(2) t2] sub by auto
  ultimately show ?thesis using sub sp by blast
qed

lemma view_toks: "view (w\<lparr>toks := h\<rparr>) t = (if t = Head then None else map_option unlink (h t))"
  by (simp add: view_def)

section \<open>The interface\<close>

text \<open>
  \<open>added fd h k k'\<close> and \<open>removed k k'\<close> relate the states of the operating system before and after a
  registration and a removal.
\<close>

locale poller =
  fixes reg :: "('cb, 'acb, 'k) reg_fun" and rem :: "('cb, 'acb, 'k) rem_fun"
    and added :: "int \<Rightarrow> handler \<Rightarrow> 'k \<Rightarrow> 'k \<Rightarrow> bool" and removed :: "'k \<Rightarrow> 'k \<Rightarrow> bool"
  assumes register: "handle h w = Inr fd \<Longrightarrow> fd \<noteq> -1 \<Longrightarrow>
      \<exists>b e k. reg h acc w = Inr (b, w\<lparr>p_err := e, os := k\<rparr>) \<and> added fd h (os w) k"
    and refuse: "handle h w = Inr (-1) \<Longrightarrow> \<exists>e. reg h acc w = Inr (False, w\<lparr>p_err := e\<rparr>)"
    and remove: "handle h w = Inr fd \<Longrightarrow>
      \<exists>b e k. rem h w = Inr (b, w\<lparr>p_deleted := p_deleted w @ [h], p_err := e, os := k\<rparr>) \<and> removed (os w) k"
begin

lemma register_any:
  assumes "handle h w = Inr fd"
  shows "\<exists>b e k. reg h acc w = Inr (b, w\<lparr>p_err := e, os := k\<rparr>) \<and>
    (if fd = -1 then k = os w \<and> \<not> b else added fd h (os w) k)"
proof (cases "fd = -1")
  case True
  then obtain e where e: "reg h acc w = Inr (False, w\<lparr>p_err := e\<rparr>)" using refuse [of h w acc] assms by auto
  have "w\<lparr>p_err := e\<rparr> = w\<lparr>p_err := e, os := os w\<rparr>" by simp
  with e True show ?thesis by (intro exI [of _ False] exI [of _ e] exI [of _ "os w"]) simp
next
  case False
  then show ?thesis using register [OF assms] by auto
qed

text \<open>A constructed socket is well formed, idle, and holds the descriptor, registered or not.\<close>

lemma ctor_ok:
  assumes w: "wf w qs" and s: "socks w s = None"
  shows "\<exists>e k. Socket_ctor reg K s fd w = Inr ((Socket_new K s fd w)\<lparr>p_err := e, os := k\<rparr>) \<and>
    wf ((Socket_new K s fd w)\<lparr>p_err := e, os := k\<rparr>) qs \<and>
    (if fd = -1 then k = os w else added fd (HSock s) (os w) k)"
proof -
  have "handle (HSock s) (Socket_new K s fd w) = Inr fd" by (simp add: handle_def Socket_new_def)
  then obtain b e k where "reg (HSock s) False (Socket_new K s fd w) = Inr (b, (Socket_new K s fd w)\<lparr>p_err := e, os := k\<rparr>)"
    "if fd = -1 then k = os (Socket_new K s fd w) \<and> \<not> b else added fd (HSock s) (os (Socket_new K s fd w)) k"
    using register_any [of "HSock s" "Socket_new K s fd w" fd False] by blast
  moreover have "os (Socket_new K s fd w) = os w" by (simp add: Socket_new_def)
  ultimately show ?thesis
    using wf_Socket_new [OF w s, of K fd]
    by (intro exI [of _ e] exI [of _ k]) (auto simp: Socket_ctor_def)
qed

text \<open>Closing marks the handler deleted and the descriptor invalid; a second close is harmless.\<close>

lemma close_ok:
  assumes s: "socks w s = Some fd"
  shows "\<exists>e k. Socket_close rem K s w =
      Inr (w\<lparr>p_deleted := p_deleted w @ [HSock s], p_err := e, os := (if fd = -1 then k else k_close K fd k),
             socks := (socks w)(s \<mapsto> -1)\<rparr>) \<and> removed (os w) k"
proof -
  have "handle (HSock s) w = Inr fd" using s by (simp add: handle_def)
  then obtain b e k where
    "rem (HSock s) w = Inr (b, w\<lparr>p_deleted := p_deleted w @ [HSock s], p_err := e, os := k\<rparr>)" "removed (os w) k"
    using remove [of "HSock s" w fd] by auto
  then show ?thesis
    using s by (intro exI [of _ e] exI [of _ k]) (auto simp: Socket_close_def fun_upd_idem)
qed

lemma wf_closed:
  assumes w: "wf w qs" and s: "socks w s = Some fd"
  shows "wf (w\<lparr>p_deleted := d, p_err := e, os := k, socks := (socks w)(s \<mapsto> -1)\<rparr>) qs"
proof -
  have "live_ok (toks w) ((socks w)(s \<mapsto> -1))" using wfD(2) [OF w] s by (auto simp: live_ok_def)
  then show ?thesis using w by (simp add: wf_def)
qed

text \<open>
  Closing and destroying a socket: the object is gone, neither the queue nor the timer list refers to
  it, and every other token is as it was.
\<close>

lemma delete_ok:
  assumes w: "wf w qs" and s: "socks w s = Some fd"
  shows "\<exists>w' k. bindS (Socket_close rem K s w) (Socket_dtor rem K s) = Inr w' \<and>
    wf w' (remove1 (Wt s) (remove1 (Rt s) qs)) \<and> view w' = (view w)(Rt s := None, Wt s := None) \<and>
    socks w' = (socks w)(s := None) \<and> set (p_timerList w') \<subseteq> set (p_timerList w) - {Rt s, Wt s} \<and>
    accs w' = accs w \<and> next_obj w' = next_obj w \<and> p_fd w' = p_fd w \<and> p_stop w' = p_stop w \<and> mem w' = mem w \<and>
    p_deleted w' = p_deleted w @ [HSock s] \<and> spared s w (p_timerList w') \<and>
    removed (os w) k \<and> os w' = (if fd = -1 then k else k_close K fd k)"
proof -
  obtain e k where c: "Socket_close rem K s w =
      Inr (w\<lparr>p_deleted := p_deleted w @ [HSock s], p_err := e, os := (if fd = -1 then k else k_close K fd k),
             socks := (socks w)(s \<mapsto> -1)\<rparr>)" (is "_ = Inr ?w") and k: "removed (os w) k"
    using close_ok [OF s] by blast
  have "wf ?w qs" using wf_closed [OF w s] by simp
  then obtain h ts where d: "Socket_dtor rem K s ?w = Inr (?w\<lparr>toks := h, socks := (socks ?w)(s := None), p_timerList := ts\<rparr>)"
    "wf (?w\<lparr>toks := h, socks := (socks ?w)(s := None), p_timerList := ts\<rparr>) (remove1 (Wt s) (remove1 (Rt s) qs))"
    "view (?w\<lparr>toks := h\<rparr>) = (view ?w)(Rt s := None, Wt s := None)"
    "set ts \<subseteq> set (p_timerList ?w) - {Rt s, Wt s}" "spared s ?w ts"
    using Socket_dtor_closed [of ?w qs s rem K] by auto
  let ?w' = "?w\<lparr>toks := h, socks := (socks ?w)(s := None), p_timerList := ts\<rparr>"
  have "view ?w' = view (?w\<lparr>toks := h\<rparr>)" and "view ?w = view w" by (simp_all add: fun_eq_iff view_toks)
  then have v: "view ?w' = (view w)(Rt s := None, Wt s := None)" using d(3) by simp
  show ?thesis
    by (rule exI [of _ ?w'], rule exI [of _ k]) (use c d(1,2,4,5) k v in \<open>simp add: spared_def\<close>)
qed

end

section \<open>Both builds provide the interface\<close>

definition epoll_added :: "'k kernel \<Rightarrow> int \<Rightarrow> handler \<Rightarrow> 'k \<Rightarrow> 'k \<Rightarrow> bool" where
  "epoll_added K fd h k k' \<longleftrightarrow> (\<exists>efd ev. k' = snd (snd (k_poll_add K efd fd ev h k)))"

definition epoll_removed :: "'k kernel \<Rightarrow> 'k \<Rightarrow> 'k \<Rightarrow> bool" where
  "epoll_removed K k k' \<longleftrightarrow> (\<exists>efd fd. k' = snd (snd (k_poll_del K efd fd k)))"

definition kqueue_added :: "'k kernel \<Rightarrow> int \<Rightarrow> handler \<Rightarrow> 'k \<Rightarrow> 'k \<Rightarrow> bool" where
  "kqueue_added K fd h k k' \<longleftrightarrow>
     (\<exists>kfd filt. k' = snd (snd (k_kevent_change K kfd fd filt (EV_ADD OR EV_CLEAR) (Some h) k)))"

definition kqueue_removed :: "'k kernel \<Rightarrow> 'k \<Rightarrow> 'k \<Rightarrow> bool" where
  "kqueue_removed K k k' \<longleftrightarrow> (\<exists>kfd fd filt. k' = snd (snd (k_kevent_change K kfd fd filt EV_DELETE None k)))"

lemma Epoll_register_ok:
  assumes "handle h w = Inr fd" and "fd \<noteq> -1"
  shows "\<exists>b e k. Epoll_register K h acc w = Inr (b, w\<lparr>p_err := e, os := k\<rparr>) \<and> epoll_added K fd h (os w) k"
proof -
  let ?ev = "if acc then EPOLLIN OR EPOLLET else EPOLLIN OR EPOLLOUT OR EPOLLET"
  obtain r en k where k: "k_poll_add K (p_fd w) fd ?ev h (os w) = (r, en, k)" by (metis prod_cases3)
  have "epoll_added K fd h (os w) k" using k unfolding epoll_added_def by (metis snd_conv)
  then show ?thesis
    using assms k
    by (intro exI [of _ "r \<noteq> -1"] exI [of _ "if r = -1 then Error_set (p_err w) en ''epoll_ctl error [%d][%d][%s]''
          [FD fd, FD en, FS (k_strerror K en)] else p_err w"] exI [of _ k])
      (auto simp: Epoll_register_def)
qed

lemma Epoll_remove_ok:
  assumes "handle h w = Inr fd"
  shows "\<exists>b e k. Epoll_remove K h w = Inr (b, w\<lparr>p_deleted := p_deleted w @ [h], p_err := e, os := k\<rparr>) \<and>
    epoll_removed K (os w) k"
proof -
  have h: "handle h (w\<lparr>p_deleted := d\<rparr>) = Inr fd" for d
    using assms by (cases h) (simp_all add: handle_def sock_fd_def acc_get_def)
  obtain r en k where k: "k_poll_del K (p_fd w) fd (os w) = (r, en, k)" by (metis prod_cases3)
  have "epoll_removed K (os w) k" using k unfolding epoll_removed_def by (metis snd_conv)
  then show ?thesis
    using h k
    by (intro exI [of _ "r \<noteq> -1"] exI [of _ "if r = -1 then Error_set (p_err w) en ''epoll_ctl error [%d][%d][%s]''
          [FD fd, FD en, FS (k_strerror K en)] else p_err w"] exI [of _ k])
      (auto simp: Epoll_remove_def)
qed

lemma Epoll_register_invalid:
  "handle h w = Inr (-1) \<Longrightarrow> \<exists>e. Epoll_register K h acc w = Inr (False, w\<lparr>p_err := e\<rparr>)"
  by (auto simp: Epoll_register_def)

interpretation ep: poller "Epoll_register K" "Epoll_remove K" "epoll_added K" "epoll_removed K" for K
  by unfold_locales (fact Epoll_register_ok Epoll_register_invalid Epoll_remove_ok)+

lemma Kqueue_register_ok:
  assumes "handle h w = Inr fd" and "fd \<noteq> -1"
  shows "\<exists>b e k. Kqueue_register K h acc w = Inr (b, w\<lparr>p_err := e, os := k\<rparr>) \<and> kqueue_added K fd h (os w) k"
proof -
  let ?f = "sint (if acc then EVFILT_READ else EVFILT_READ OR EVFILT_READ)"
  obtain r en k where k: "k_kevent_change K (p_fd w) fd ?f (EV_ADD OR EV_CLEAR) (Some h) (os w) = (r, en, k)"
    by (metis prod_cases3)
  have "kqueue_added K fd h (os w) k" using k unfolding kqueue_added_def by (metis snd_conv)
  then show ?thesis
    using assms k
    by (intro exI [of _ "r \<noteq> -1"] exI [of _ "if r = -1 then Error_set (p_err w) en ''kevent error [%d][%d][%s]''
          [FD fd, FD en, FS (k_strerror K en)] else p_err w"] exI [of _ k])
      (auto simp: Kqueue_register_def)
qed

lemma Kqueue_remove_ok:
  assumes "handle h w = Inr fd"
  shows "\<exists>b e k. Kqueue_remove K h w = Inr (b, w\<lparr>p_deleted := p_deleted w @ [h], p_err := e, os := k\<rparr>) \<and>
    kqueue_removed K (os w) k"
proof -
  have h: "handle h (w\<lparr>p_deleted := d\<rparr>) = Inr fd" for d
    using assms by (cases h) (simp_all add: handle_def sock_fd_def acc_get_def)
  obtain r en k where
    k: "k_kevent_change K (p_fd w) fd (sint (EVFILT_READ OR EVFILT_WRITE)) EV_DELETE None (os w) = (r, en, k)"
    by (metis prod_cases3)
  have "kqueue_removed K (os w) k" using k unfolding kqueue_removed_def by (metis snd_conv)
  then show ?thesis
    using h k
    by (intro exI [of _ "r \<noteq> -1"] exI [of _ "if r = -1 then Error_set (p_err w) en ''kevent error [%d][%d][%s]''
          [FD fd, FD en, FS (k_strerror K en)] else p_err w"] exI [of _ k])
      (auto simp: Kqueue_remove_def)
qed

lemma Kqueue_register_invalid:
  "handle h w = Inr (-1) \<Longrightarrow> \<exists>e. Kqueue_register K h acc w = Inr (False, w\<lparr>p_err := e\<rparr>)"
  by (auto simp: Kqueue_register_def)

interpretation kq: poller "Kqueue_register K" "Kqueue_remove K" "kqueue_added K" "kqueue_removed K" for K
  by unfold_locales (fact Kqueue_register_ok Kqueue_register_invalid Kqueue_remove_ok)+

end
