(* ===== verification/Environment.thy ===== *)
theory Environment
  imports Poller "HOL-Library.Sublist"
begin

unbundle bit_operations_syntax

text \<open>
  What the echo server relies on of the operating system, as laws about the system calls seen
  through an observer: the descriptors that are open, the registrations of the poller, and for every
  descriptor the bytes delivered to the process and the bytes accepted from it since the connection
  was made. The observer does not influence the calls; the laws are the documented behaviour of
  \<open>read(2)\<close>, \<open>write(2)\<close>, \<open>accept(2)\<close>, \<open>close(2)\<close>, \<open>fcntl(2)\<close>, \<open>epoll_ctl(2)\<close> and \<open>epoll_wait(2)\<close>.
\<close>

record 'k observer =
  o_open :: "'k \<Rightarrow> int set"
  o_reg :: "'k \<Rightarrow> int \<rightharpoonup> handler"
  o_in :: "'k \<Rightarrow> int \<Rightarrow> byte list"
  o_out :: "'k \<Rightarrow> int \<Rightarrow> byte list"

text \<open>A call that opens, transfers and registers nothing; registrations may vanish.\<close>

definition same_obs :: "'k observer \<Rightarrow> 'k \<Rightarrow> 'k \<Rightarrow> bool" where
  "same_obs ob k k' \<longleftrightarrow> o_open ob k' = o_open ob k \<and> o_in ob k' = o_in ob k \<and> o_out ob k' = o_out ob k \<and>
     o_reg ob k' \<subseteq>\<^sub>m o_reg ob k"

text \<open>A transfer appends to the stream of its descriptor; -1 is no descriptor.\<close>

definition io_laws :: "'k kernel \<Rightarrow> 'k observer \<Rightarrow> bool" where
  "io_laws K ob \<longleftrightarrow> posix_read K \<and> posix_write K \<and>
     (\<forall>fd n k ret en bs k'. k_read K fd n k = (ret, en, bs, k') \<longrightarrow>
        o_open ob k' = o_open ob k \<and> o_reg ob k' \<subseteq>\<^sub>m o_reg ob k \<and> o_out ob k' = o_out ob k \<and>
        o_in ob k' = (o_in ob k)(fd := o_in ob k fd @ bs) \<and> (fd = -1 \<longrightarrow> ret < 0)) \<and>
     (\<forall>fd bs k ret en k'. k_write K fd bs k = (ret, en, k') \<longrightarrow>
        o_open ob k' = o_open ob k \<and> o_reg ob k' \<subseteq>\<^sub>m o_reg ob k \<and> o_in ob k' = o_in ob k \<and>
        o_out ob k' = (o_out ob k)(fd := o_out ob k fd @ take (nat ret) bs))"

text \<open>An accepted descriptor is new and its streams are empty.\<close>

definition conn_laws :: "'k kernel \<Rightarrow> 'k observer \<Rightarrow> bool" where
  "conn_laws K ob \<longleftrightarrow>
     (\<forall>fd k soc en addr k'. k_accept K fd k = (soc, en, addr, k') \<longrightarrow>
        (if soc = -1 then same_obs ob k k'
         else 0 \<le> soc \<and> soc \<notin> o_open ob k \<and> o_open ob k' = insert soc (o_open ob k) \<and>
           o_in ob k' = (o_in ob k)(soc := []) \<and> o_out ob k' = (o_out ob k)(soc := []) \<and>
           o_reg ob k' \<subseteq>\<^sub>m o_reg ob k)) \<and>
     (\<forall>fd k. o_open ob (k_close K fd k) = o_open ob k - {fd} \<and>
        o_in ob (k_close K fd k) = o_in ob k \<and> o_out ob (k_close K fd k) = o_out ob k \<and>
        o_reg ob (k_close K fd k) \<subseteq>\<^sub>m (o_reg ob k)(fd := None)) \<and>
     (\<forall>fd k r en k'. k_getfl K fd k = (r, en, k') \<longrightarrow> same_obs ob k k') \<and>
     (\<forall>fd fl k r en k'. k_setfl K fd fl k = (r, en, k') \<longrightarrow> same_obs ob k k') \<and>
     (\<forall>k tv k'. k_gettimeofday K k = (tv, k') \<longrightarrow> same_obs ob k k')"

definition poll_laws :: "(int \<Rightarrow> handler \<Rightarrow> 'k \<Rightarrow> 'k \<Rightarrow> bool) \<Rightarrow> ('k \<Rightarrow> 'k \<Rightarrow> bool) \<Rightarrow> 'k observer \<Rightarrow> bool" where
  "poll_laws added removed ob \<longleftrightarrow>
     (\<forall>fd h k k'. added fd h k k' \<longrightarrow>
        o_open ob k' = o_open ob k \<and> o_in ob k' = o_in ob k \<and> o_out ob k' = o_out ob k \<and>
        o_reg ob k' \<subseteq>\<^sub>m (o_reg ob k)(fd \<mapsto> h)) \<and>
     (\<forall>k k'. removed k k' \<longrightarrow> same_obs ob k k')"

text \<open>A batch holds each registered handler at most once, and no other handler.\<close>

definition wait_law :: "(int \<times> int \<times> (32 word \<times> handler) list \<times> int list \<times> 'k) \<Rightarrow> 'k observer \<Rightarrow> 'k \<Rightarrow> bool" where
  "wait_law res ob k \<longleftrightarrow>
     (case res of (ret, en, evs, sigs, k') \<Rightarrow> same_obs ob k k' \<and>
        (let hs = map snd (take (nat ret) evs) in distinct hs \<and> set hs \<subseteq> ran (o_reg ob k')))"

text \<open>The calls of the listening socket; a new descriptor is not one that is open.\<close>

definition opens :: "'k observer \<Rightarrow> 'k \<Rightarrow> int \<times> int \<times> 'k \<Rightarrow> bool" where
  "opens ob k res \<longleftrightarrow>
     (case res of (fd, en, k') \<Rightarrow>
        if fd = -1 then same_obs ob k k'
        else fd \<notin> o_open ob k \<and> o_open ob k' = insert fd (o_open ob k) \<and> o_in ob k' = o_in ob k \<and>
          o_out ob k' = o_out ob k \<and> o_reg ob k' \<subseteq>\<^sub>m o_reg ob k)"

definition setup_laws :: "'k kernel \<Rightarrow> 'k observer \<Rightarrow> bool" where
  "setup_laws K ob \<longleftrightarrow>
     (\<forall>k. opens ob k (k_socket K k)) \<and> (\<forall>k. opens ob k (k_poll_create K k)) \<and> (\<forall>k. opens ob k (k_kqueue K k)) \<and>
     (\<forall>fd v k. same_obs ob k (snd (snd (k_reuseaddr K fd v k)))) \<and>
     (\<forall>fd a k. same_obs ob k (snd (snd (k_bind K fd a k)))) \<and>
     (\<forall>fd n k. same_obs ob k (snd (snd (k_listen K fd n k))))"

definition linux :: "'k kernel \<Rightarrow> 'k observer \<Rightarrow> bool" where
  "linux K ob \<longleftrightarrow> io_laws K ob \<and> conn_laws K ob \<and> setup_laws K ob \<and>
     poll_laws (epoll_added K) (epoll_removed K) ob \<and> (\<forall>efd ms k. wait_law (k_poll_wait K efd ms k) ob k)"

definition bsd :: "'k kernel \<Rightarrow> 'k observer \<Rightarrow> bool" where
  "bsd K ob \<longleftrightarrow> io_laws K ob \<and> conn_laws K ob \<and> setup_laws K ob \<and>
     poll_laws (kqueue_added K) (kqueue_removed K) ob \<and> (\<forall>kfd tmo k. wait_law (k_kevent_wait K kfd tmo k) ob k)"

section \<open>The laws as rules\<close>

lemma same_obs_refl [simp]: "same_obs ob k k"
  by (simp add: same_obs_def)

lemma same_obs_trans [trans]: "same_obs ob k k' \<Longrightarrow> same_obs ob k' k'' \<Longrightarrow> same_obs ob k k''"
  unfolding same_obs_def by (auto intro: map_le_trans)

lemma io_lawsD:
  assumes "io_laws K ob"
  shows "posix_read K" and "posix_write K"
    and "k_read K fd n k = (ret, en, bs, k') \<Longrightarrow>
        o_open ob k' = o_open ob k \<and> o_reg ob k' \<subseteq>\<^sub>m o_reg ob k \<and> o_out ob k' = o_out ob k \<and>
        o_in ob k' = (o_in ob k)(fd := o_in ob k fd @ bs) \<and> (fd = -1 \<longrightarrow> ret < 0)"
    and "k_write K fd ws k = (ret, en, k') \<Longrightarrow>
        o_open ob k' = o_open ob k \<and> o_reg ob k' \<subseteq>\<^sub>m o_reg ob k \<and> o_in ob k' = o_in ob k \<and>
        o_out ob k' = (o_out ob k)(fd := o_out ob k fd @ take (nat ret) ws)"
  using assms unfolding io_laws_def by blast+

lemma conn_lawsD:
  assumes "conn_laws K ob"
  shows "k_accept K fd k = (soc, en, addr, k') \<Longrightarrow>
        if soc = -1 then same_obs ob k k'
         else 0 \<le> soc \<and> soc \<notin> o_open ob k \<and> o_open ob k' = insert soc (o_open ob k) \<and>
           o_in ob k' = (o_in ob k)(soc := []) \<and> o_out ob k' = (o_out ob k)(soc := []) \<and>
           o_reg ob k' \<subseteq>\<^sub>m o_reg ob k"
    and "o_open ob (k_close K fd k) = o_open ob k - {fd} \<and>
        o_in ob (k_close K fd k) = o_in ob k \<and> o_out ob (k_close K fd k) = o_out ob k \<and>
        o_reg ob (k_close K fd k) \<subseteq>\<^sub>m (o_reg ob k)(fd := None)"
    and "k_getfl K fd k = (r, en, k') \<Longrightarrow> same_obs ob k k'"
    and "k_setfl K fd fl k = (r, en, k') \<Longrightarrow> same_obs ob k k'"
    and "same_obs ob k (snd (k_gettimeofday K k))"
proof -
  show "same_obs ob k (snd (k_gettimeofday K k))"
    using assms unfolding conn_laws_def by (metis surjective_pairing)
  note c = assms [unfolded conn_laws_def]
  show "k_accept K fd k = (soc, en, addr, k') \<Longrightarrow>
        if soc = -1 then same_obs ob k k'
         else 0 \<le> soc \<and> soc \<notin> o_open ob k \<and> o_open ob k' = insert soc (o_open ob k) \<and>
           o_in ob k' = (o_in ob k)(soc := []) \<and> o_out ob k' = (o_out ob k)(soc := []) \<and>
           o_reg ob k' \<subseteq>\<^sub>m o_reg ob k"
    by (rule c [THEN conjunct1, rule_format])
  show "k_getfl K fd k = (r, en, k') \<Longrightarrow> same_obs ob k k'" and "k_setfl K fd fl k = (r, en, k') \<Longrightarrow> same_obs ob k k'"
    using c by blast+
qed (use assms in \<open>simp add: conn_laws_def\<close>)

lemma poll_lawsD:
  assumes "poll_laws added removed ob"
  shows "added fd h k k' \<Longrightarrow> o_open ob k' = o_open ob k \<and> o_in ob k' = o_in ob k \<and> o_out ob k' = o_out ob k \<and>
        o_reg ob k' \<subseteq>\<^sub>m (o_reg ob k)(fd \<mapsto> h)"
    and "removed k k' \<Longrightarrow> same_obs ob k k'"
  using assms unfolding poll_laws_def by blast+

end
