(* ===== verification/Client.thy ===== *)
theory Client
  imports Poller
begin

unbundle bit_operations_syntax

text \<open>
  The interface between the event loops and the program that uses the library. A client states an
  invariant of the states between two callbacks and shows it for one completion, one expired timer,
  one event of a handler; the loops of the proactor, with their queue, their timer list and their
  batches of events, then keep it and never fault.
\<close>

section \<open>Live handlers\<close>

definition alive :: "handler \<Rightarrow> ('cb, 'acb, 'k) world \<Rightarrow> bool" where
  "alive h w = (case h of HSock s \<Rightarrow> socks w s \<noteq> None | HAcc a \<Rightarrow> accs w a \<noteq> None)"

text \<open>Every handler that went away was reported in \<open>_deleted\<close>.\<close>

definition reports :: "('cb, 'acb, 'k) world \<Rightarrow> ('cb, 'acb, 'k) world \<Rightarrow> bool" where
  "reports w w' \<longleftrightarrow> set (p_deleted w) \<subseteq> set (p_deleted w') \<and>
     (\<forall>h. alive h w \<longrightarrow> alive h w' \<or> h \<in> set (p_deleted w'))"

lemma reports_refl [simp]: "reports w w"
  by (simp add: reports_def)

lemma reports_trans [trans]: "reports w w' \<Longrightarrow> reports w' w'' \<Longrightarrow> reports w w''"
  unfolding reports_def by blast

definition drained :: "('cb, 'acb, 'k) world \<Rightarrow> bool" where
  "drained w \<longleftrightarrow> queue_front (toks w) = Inr Head"

section \<open>The common shape of the two loops\<close>

text \<open>
  Both builds handle a batch of events one by one, and the outcome of the wait in the same way; they
  differ in the test of the flags of an event (\<open>step\<close>) and in an error text.
\<close>

fun batch ::
  "(32 word \<times> handler \<Rightarrow> ('cb, 'acb, 'k) world \<Rightarrow> ('cb, 'acb, 'k) wres option) \<Rightarrow>
   (32 word \<times> handler) list \<Rightarrow> ('cb, 'acb, 'k) world \<Rightarrow> ('cb, 'acb, 'k) wres option" where
  "batch step [] w = Some (Inr w)"
| "batch step (ev # evs) w = bindO (step ev w) (batch step evs)"

definition waited ::
  "('cb, 'acb, 'k) env \<Rightarrow> (32 word \<times> handler \<Rightarrow> ('cb, 'acb, 'k) world \<Rightarrow> ('cb, 'acb, 'k) wres option) \<Rightarrow> string \<Rightarrow>
   int \<times> int \<times> (32 word \<times> handler) list \<times> int list \<times> 'k \<Rightarrow> ('cb, 'acb, 'k) world \<Rightarrow>
   (fault + bool option \<times> ('cb, 'acb, 'k) world) option" where
  "waited E step msg res w =
     (let K = e_kern E
      in case res of (ret, errno, evs, sigs, k) \<Rightarrow>
      let w = fold (e_signal E) sigs (w\<lparr>os := k\<rparr>)
      in if p_stop w then Some (Inr (Some True, close_handle K w))
      else if ret < 0
      then Some (Inr (Some False, close_handle K (w\<lparr>p_err := Error_set (p_err w) errno msg [FD errno, FS (k_strerror K errno)]\<rparr>)))
      else if ret = 0 then bindO (Proactor_processTimer E w) (\<lambda>w. Some (Inr (None, w)))
      else bindO (batch step (take (nat ret) evs) w) (\<lambda>w.
           bindO (Proactor_processTimer E w) (\<lambda>w. Some (Inr (None, w)))))"

lemma Epoll_events_batch: "Epoll_events E evs w = batch (Epoll_event E) evs w"
  by (induction evs arbitrary: w) (simp_all add: fun_eq_iff bindO_def split: option.splits sum.splits)

lemma Kqueue_events_batch: "Kqueue_events E evs w = batch (Kqueue_event E) evs w"
  by (induction evs arbitrary: w) (simp_all add: fun_eq_iff bindO_def split: option.splits sum.splits)

lemma Epoll_round_waited:
  "Epoll_round E w = waited E (Epoll_event E) ''epoll_wait fail [%d][%s]''
     (k_poll_wait (e_kern E) (p_fd w) (p_pollIntervalMsec w) (os w)) w"
  by (simp add: Epoll_round_def waited_def Epoll_events_batch Let_def split: prod.split)

lemma Kqueue_round_waited:
  "Kqueue_round E tmo w = waited E (Kqueue_event E) ''kevent fail [%d][%s]''
     (k_kevent_wait (e_kern E) (p_fd w) tmo (os w)) w"
  by (simp add: Kqueue_round_def waited_def Kqueue_events_batch Let_def split: prod.split)

section \<open>The interface\<close>

text \<open>
  \<open>J A w\<close>: the invariant, and the handlers \<open>A\<close> still to be served in this batch are live with
  nothing of theirs completed; \<open>Q w\<close>: whatever has completed has no timer and no registration.
\<close>

locale proactor_client =
  fixes E :: "('cb, 'acb, 'k) env"
    and J :: "handler set \<Rightarrow> ('cb, 'acb, 'k) world \<Rightarrow> bool"
    and Q :: "('cb, 'acb, 'k) world \<Rightarrow> bool"
  assumes front: "J A w \<Longrightarrow> \<exists>t. queue_front (toks w) = Inr t"
    and complete: "J A w \<Longrightarrow> queue_front (toks w) = Inr t \<Longrightarrow> t \<noteq> Head \<Longrightarrow>
       \<exists>w'. Proactor_complete E t w = Inr w' \<and> J A w' \<and> reports w w'"
    and quiet: "J A w \<Longrightarrow> drained w \<Longrightarrow> Q w"
    and extend: "J A w \<Longrightarrow> drained w \<Longrightarrow> alive h w \<Longrightarrow> J (insert h A) w"
    and weaken: "J A w \<Longrightarrow> B \<subseteq> A \<Longrightarrow> J B w"
    and expire: "J {} w \<Longrightarrow> Q w \<Longrightarrow> p_timerList w = t # ts \<Longrightarrow>
       \<exists>w'. Proactor_timeout E t w = Inr w' \<and> J {} w' \<and> Q w'"
    and timed: "J A w \<Longrightarrow> t \<in> set (p_timerList w) \<Longrightarrow> \<exists>x. tok_get t w = Inr x"
    and read_step: "J (insert h A) w \<Longrightarrow> h \<notin> A \<Longrightarrow> handler_onRead E h (w\<lparr>p_deleted := []\<rparr>) = Some r \<Longrightarrow>
       \<exists>w'. r = Inr w' \<and> J A w' \<and> reports (w\<lparr>p_deleted := []\<rparr>) w'"
    and was_alive: "J (insert h A) w \<Longrightarrow> alive h w"
    and write_step: "J (insert h A) w \<Longrightarrow> h \<notin> A \<Longrightarrow> \<exists>w'. handler_onWrite E h w = Inr w' \<and> J A w'"
    and close_step: "J (insert h A) w \<Longrightarrow> Q w \<Longrightarrow> h \<notin> A \<Longrightarrow> \<exists>w'. handler_onClose E h w = Inr w' \<and> J A w' \<and> Q w'"
    and clock: "J A w \<Longrightarrow> J A (w\<lparr>os := snd (k_gettimeofday (e_kern E) (os w))\<rparr>) \<and>
       (Q w \<longrightarrow> Q (w\<lparr>os := snd (k_gettimeofday (e_kern E) (os w))\<rparr>))"
    and signal: "J A w \<Longrightarrow> J A (e_signal E n w) \<and> (Q w \<longrightarrow> Q (e_signal E n w))"
begin

text \<open>The completion queue is drained without a fault, whatever the callbacks enqueue meanwhile.\<close>

lemma processCompletion:
  assumes "Proactor_processCompletion E w = Some r" and "J A w"
  shows "\<exists>w'. r = Inr w' \<and> J A w' \<and> reports w w' \<and> drained w'"
proof -
  have "E' = E \<longrightarrow> J A w \<longrightarrow> (\<exists>w'. r = Inr w' \<and> J A w' \<and> reports w w' \<and> drained w')"
    if "Proactor_processCompletion E' w = Some r" for E' w r
  proof (rule Proactor_processCompletion.raw_induct [OF _ that], goal_cases)
    case (1 rec E' w r)
    show ?case
    proof (intro impI)
      assume e: "E' = E" and j: "J A w"
      obtain t where t: "queue_front (toks w) = Inr t" using front [OF j] by blast
      show "\<exists>w'. r = Inr w' \<and> J A w' \<and> reports w w' \<and> drained w'"
      proof (cases "t = Head")
        case True
        then show ?thesis using 1(2) t j by (auto simp: drained_def)
      next
        case False
        then obtain w1 where w1: "Proactor_complete E t w = Inr w1" "J A w1" "reports w w1"
          using complete [OF j t] by blast
        then have "rec E w1 = Some r" using 1(2) t False e by simp
        then obtain w' where "r = Inr w'" "J A w'" "reports w1 w'" "drained w'"
          using 1(1) [of E w1 r] w1(2) by blast
        then show ?thesis using reports_trans [OF w1(3)] by blast
      qed
    qed
  qed
  then show ?thesis using assms by blast
qed

lemma timerLoop:
  assumes "Proactor_timerLoop E now w = Some r" and "J {} w" and "Q w"
  shows "\<exists>w'. r = Inr w' \<and> J {} w' \<and> Q w'"
proof -
  have "E' = E \<longrightarrow> J {} w \<longrightarrow> Q w \<longrightarrow> (\<exists>w'. r = Inr w' \<and> J {} w' \<and> Q w')"
    if "Proactor_timerLoop E' now w = Some r" for E' now w r
  proof (rule Proactor_timerLoop.raw_induct [OF _ that], goal_cases)
    case (1 rec E' now w r)
    show ?case
    proof (intro impI)
      assume e: "E' = E" and j: "J {} w" and q: "Q w"
      show "\<exists>w'. r = Inr w' \<and> J {} w' \<and> Q w'"
      proof (cases "p_timerList w")
        case Nil
        then show ?thesis using 1(2) j q by auto
      next
        case (Cons t ts)
        then obtain x where x: "tok_get t w = Inr x" using timed [OF j, of t] by auto
        obtain w1 where w1: "Proactor_timeout E t w = Inr w1" "J {} w1" "Q w1"
          using expire [OF j q Cons] by blast
        show ?thesis
        proof (cases "t_tv x < now")
          case True
          then have "rec E now w1 = Some r" using 1(2) Cons x w1(1) e by simp
          then show ?thesis using 1(1) [of E now w1 r] w1(2,3) by blast
        next
          case False
          then show ?thesis using 1(2) Cons x j q by auto
        qed
      qed
    qed
  qed
  then show ?thesis using assms by blast
qed

lemma processTimer:
  assumes "Proactor_processTimer E w = Some r" and "J {} w" and "Q w"
  shows "\<exists>w'. r = Inr w' \<and> J {} w' \<and> Q w'"
proof -
  obtain now k where k: "k_gettimeofday (e_kern E) (os w) = (now, k)" by fastforce
  show ?thesis
    using assms(1) clock [OF assms(2)] assms(3) timerLoop [of now "w\<lparr>os := k\<rparr>" r] k
    by (simp add: Proactor_processTimer_def)
qed

text \<open>
  One event, as both loops handle it: a close, or a read with its completions and, unless that
  deleted the handler, a write with its completions.
\<close>

definition one_event :: "bool \<Rightarrow> bool \<Rightarrow> bool \<Rightarrow> handler \<Rightarrow> ('cb, 'acb, 'k) world \<Rightarrow> ('cb, 'acb, 'k) wres option" where
  "one_event cls rd wr h w =
     (if cls then Some (handler_onClose E h w)
      else
        bindO (if rd
               then bindO (handler_onRead E h (w\<lparr>p_deleted := []\<rparr>)) (\<lambda>w.
                    bindO (Proactor_processCompletion E w) (\<lambda>w.
                    Some (Inr (h \<in> set (p_deleted w), w))))
               else Some (Inr (False, w))) (\<lambda>(gone, w).
        if gone then Some (Inr w)
        else if wr
        then bindO (Some (handler_onWrite E h w)) (Proactor_processCompletion E)
        else Some (Inr w)))"

lemma write_event:
  assumes j: "J (insert h A) w" and h: "h \<notin> A" and q: "Q w"
    and r: "(if wr then bindO (Some (handler_onWrite E h w)) (Proactor_processCompletion E) else Some (Inr w)) = Some r"
  shows "\<exists>w'. r = Inr w' \<and> J A w' \<and> Q w'"
proof (cases wr)
  case True
  obtain w1 where w1: "handler_onWrite E h w = Inr w1" "J A w1" using write_step [OF j h] by blast
  with True r have "Proactor_processCompletion E w1 = Some r" by simp
  from processCompletion [OF this w1(2)] show ?thesis using quiet by blast
next
  case False
  then show ?thesis using r q weaken [OF j, of A] by auto
qed

lemma one_event_ok:
  assumes j: "J (insert h A) w" and h: "h \<notin> A" and q: "Q w" and r: "one_event cls rd wr h w = Some r"
  shows "\<exists>w'. r = Inr w' \<and> J A w' \<and> Q w'"
proof (cases cls)
  case True
  then show ?thesis using r close_step [OF j q h] by (auto simp: one_event_def)
next
  case cls: False
  show ?thesis
  proof (cases rd)
    case False
    then show ?thesis using write_event [OF j h q, of wr r] r cls by (simp add: one_event_def)
  next
    case True
    then obtain r1 where r1: "handler_onRead E h (w\<lparr>p_deleted := []\<rparr>) = Some r1"
      using r cls by (cases "handler_onRead E h (w\<lparr>p_deleted := []\<rparr>)") (auto simp: one_event_def)
    then obtain w1 where w1: "r1 = Inr w1" "J A w1" "reports (w\<lparr>p_deleted := []\<rparr>) w1"
      using read_step [OF j h] by blast
    then obtain r2 where r2: "Proactor_processCompletion E w1 = Some r2"
      using r cls True r1 by (cases "Proactor_processCompletion E w1") (auto simp: one_event_def)
    then obtain w2 where w2: "r2 = Inr w2" "J A w2" "reports w1 w2" "drained w2"
      using processCompletion w1(2) by blast
    have rest: "(if h \<in> set (p_deleted w2) then Some (Inr w2)
        else if wr then bindO (Some (handler_onWrite E h w2)) (Proactor_processCompletion E) else Some (Inr w2)) = Some r"
      using r cls True r1 r2 w1(1) w2(1) by (simp add: one_event_def)
    show ?thesis
    proof (cases "h \<in> set (p_deleted w2)")
      case True
      then show ?thesis using rest w2 quiet by auto
    next
      case False
      have "alive h (w\<lparr>p_deleted := []\<rparr>)" using was_alive [OF j] by (simp add: alive_def split: handler.splits)
      then have "alive h w2" using reports_trans [OF w1(3) w2(3)] False by (auto simp: reports_def)
      then have "J (insert h A) w2" using extend w2 by blast
      then show ?thesis using write_event [OF _ h quiet [OF w2(2,4)]] rest False by simp
    qed
  qed
qed

lemma Epoll_event_one:
  "Epoll_event E (ev, h) = one_event (ev AND EPOLLERR \<noteq> 0 \<or> ev AND EPOLLHUP \<noteq> 0)
     (ev AND EPOLLIN \<noteq> 0 \<or> ev AND EPOLLPRI \<noteq> 0) (ev AND EPOLLOUT \<noteq> 0) h"
  by (simp add: Epoll_event_def one_event_def fun_eq_iff)

lemma Kqueue_event_one:
  "Kqueue_event E (ev, h) = one_event (ev AND EV_EOF \<noteq> 0) (ev AND EVFILT_READ \<noteq> 0) (ev AND EVFILT_WRITE \<noteq> 0) h"
  by (simp add: Kqueue_event_def one_event_def fun_eq_iff)

text \<open>The steps of the two builds are events in this sense.\<close>

definition event_step :: "(32 word \<times> handler \<Rightarrow> ('cb, 'acb, 'k) world \<Rightarrow> ('cb, 'acb, 'k) wres option) \<Rightarrow> bool" where
  "event_step step \<longleftrightarrow> (\<forall>ev h. \<exists>cls rd wr. step (ev, h) = one_event cls rd wr h)"

lemma event_steps: "event_step (Epoll_event E)" "event_step (Kqueue_event E)"
  unfolding event_step_def by (meson Epoll_event_one [THEN ext] Kqueue_event_one [THEN ext])+

lemma batch_ok:
  assumes st: "event_step step"
  shows "J (set (map snd evs)) w \<Longrightarrow> distinct (map snd evs) \<Longrightarrow> Q w \<Longrightarrow> batch step evs w = Some r \<Longrightarrow>
    \<exists>w'. r = Inr w' \<and> J {} w' \<and> Q w'"
proof (induction evs arbitrary: w)
  case (Cons a evs)
  obtain ev h where a: "a = (ev, h)" by fastforce
  obtain cls rd wr where e: "step (ev, h) = one_event cls rd wr h" using st unfolding event_step_def by blast
  obtain r1 where r1: "step (ev, h) w = Some r1" using Cons.prems(4) a by (cases "step (ev, h) w") auto
  have "J (insert h (set (map snd evs))) w" "h \<notin> set (map snd evs)" using Cons.prems(1,2) a by auto
  then obtain w1 where w1: "r1 = Inr w1" "J (set (map snd evs)) w1" "Q w1"
    using one_event_ok [OF _ _ Cons.prems(3) r1 [unfolded e]] by blast
  then show ?case using Cons.IH [OF w1(2) _ w1(3)] Cons.prems(2,4) a r1 by simp
qed auto

lemma signals:
  "J A w \<Longrightarrow> Q w \<Longrightarrow> J A (fold (e_signal E) sigs w) \<and> Q (fold (e_signal E) sigs w)"
  by (induction sigs arbitrary: w) (auto dest: signal)

text \<open>What the poller must not do: report a handler twice in a batch, or one the invariant does not cover.\<close>

definition polls :: "('cb, 'acb, 'k) world \<Rightarrow> (32 word \<times> handler) list \<Rightarrow> 'k \<Rightarrow> bool" where
  "polls w evs k \<longleftrightarrow> distinct (map snd evs) \<and> J (set (map snd evs)) (w\<lparr>os := k\<rparr>) \<and> Q (w\<lparr>os := k\<rparr>)"

lemma polls_after:
  fixes sigs :: "int list"
  assumes "polls w evs k"
  defines "w1 \<equiv> fold (e_signal E) sigs (w\<lparr>os := k\<rparr>)"
  shows "J (set (map snd evs)) w1" and "J {} w1" and "Q w1"
  using assms signals [of "set (map snd evs)" "w\<lparr>os := k\<rparr>" sigs] weaken [of "set (map snd evs)" _ "{}"]
  by (auto simp: polls_def)

lemma timer_end:
  assumes r: "bindO (Proactor_processTimer E w) (\<lambda>w. Some (Inr (None, w))) = Some r" and j: "J {} w" "Q w"
  shows "\<exists>w'. r = Inr (None, w') \<and> J {} w' \<and> Q w'"
proof -
  obtain r1 where r1: "Proactor_processTimer E w = Some r1" using r by (cases "Proactor_processTimer E w") auto
  from processTimer [OF this j] show ?thesis using r r1 by auto
qed

lemma waited_ok:
  assumes st: "event_step step" and ok: "polls w (take (nat ret) evs) k"
    and r: "waited E step msg (ret, en, evs, sigs, k) w = Some r"
  shows "\<exists>b w'. r = Inr (b, w') \<and> (b = None \<longrightarrow> J {} w' \<and> Q w') \<and> (b \<noteq> None \<longrightarrow> (\<exists>w1. J {} w1 \<and> accs w' = accs w1))"
proof -
  define w1 where "w1 = fold (e_signal E) sigs (w\<lparr>os := k\<rparr>)"
  note j = polls_after [OF ok, of sigs, folded w1_def]
  show ?thesis
  proof (cases "p_stop w1 \<or> ret < 0")
    case True
    then obtain b w' where "r = Inr (Some b, w')" "accs w' = accs w1"
      using r by (auto simp: waited_def Let_def w1_def [symmetric] close_handle_def split: if_splits)
    then show ?thesis using j(2) by auto
  next
    case False
    show ?thesis
    proof (cases "ret = 0")
      case True
      then have "bindO (Proactor_processTimer E w1) (\<lambda>w. Some (Inr (None, w))) = Some r"
        using r False by (simp add: waited_def Let_def w1_def [symmetric])
      from timer_end [OF this j(2,3)] show ?thesis by blast
    next
      case n0: False
      then have r': "bindO (batch step (take (nat ret) evs) w1) (\<lambda>w.
          bindO (Proactor_processTimer E w) (\<lambda>w. Some (Inr (None, w)))) = Some r"
        using r False by (simp add: waited_def Let_def w1_def [symmetric])
      then obtain r1 where r1: "batch step (take (nat ret) evs) w1 = Some r1"
        by (cases "batch step (take (nat ret) evs) w1") auto
      then obtain w2 where w2: "r1 = Inr w2" "J {} w2" "Q w2"
        using batch_ok [OF st j(1) _ j(3)] ok unfolding polls_def by blast
      then have "bindO (Proactor_processTimer E w2) (\<lambda>w. Some (Inr (None, w))) = Some r" using r' r1 by simp
      from timer_end [OF this w2(2,3)] show ?thesis by blast
    qed
  qed
qed

end

end
