(* ===== verification/EchoInvariant.thy ===== *)
theory EchoInvariant
  imports EchoServer Environment Client
begin

text \<open>
  The invariant of the running echo server. Every client is either reading or writing; what its
  buffers hold and what its tokens count is exactly the part of the received stream that has not
  been sent back yet.
\<close>

section \<open>One client\<close>

definition owed :: "'k observer \<Rightarrow> 'k \<Rightarrow> int \<Rightarrow> byte list \<Rightarrow> bool" where
  "owed ob k fd bs \<longleftrightarrow> (fd \<noteq> -1 \<longrightarrow> o_in ob k fd = o_out ob k fd @ bs)"

definition reading :: "'k observer \<Rightarrow> 'k \<Rightarrow> memory \<Rightarrow> nat \<Rightarrow> int \<Rightarrow> echo_cb token \<Rightarrow> bool" where
  "reading ob k m s fd x \<longleftrightarrow>
     (t_mode x = M_SOME \<and> owed ob k fd [] \<or>
      t_mode x = M_DONE \<and> 0 \<le> t_ioSize x \<and> t_ioSize x \<le> int BUFSIZE \<and>
        owed ob k fd (mem_load m (recvBuf s) (nat (t_ioSize x))) \<or>
      t_mode x = M_ERR \<and> t_ioSize x = 0 \<and> owed ob k fd [])"

definition writing :: "'k observer \<Rightarrow> 'k \<Rightarrow> memory \<Rightarrow> nat \<Rightarrow> int \<Rightarrow> echo_cb token \<Rightarrow> bool" where
  "writing ob k m s fd y \<longleftrightarrow>
     t_cb y = Some (OnWrite s) \<and> t_buf y = sendBuf s \<and> 0 < t_bufSize y \<and> t_bufSize y \<le> int BUFSIZE \<and>
     (t_mode y = M_ALL \<and> 0 \<le> t_ioSize y \<and> t_ioSize y \<le> t_bufSize y \<and>
        owed ob k fd (mem_load m (ptr_add (sendBuf s) (t_ioSize y)) (nat (t_bufSize y - t_ioSize y))) \<or>
      t_mode y = M_DONE \<and> owed ob k fd [] \<or>
      t_mode y = M_ERR \<and> t_ioSize y = 0 \<and> (\<exists>bs. owed ob k fd bs))"

definition client_tokens ::
  "'k observer \<Rightarrow> 'k \<Rightarrow> memory \<Rightarrow> nat \<Rightarrow> int \<Rightarrow> echo_cb token \<Rightarrow> echo_cb token \<Rightarrow> bool" where
  "client_tokens ob k m s fd x y \<longleftrightarrow>
     t_cb x = Some (OnRead s) \<and> t_buf x = recvBuf s \<and> t_bufSize x = int BUFSIZE \<and>
     (t_mode y = M_NONE \<and> reading ob k m s fd x \<or> t_mode x = M_NONE \<and> writing ob k m s fd y)"

definition client_ok :: "'k observer \<Rightarrow> 'k echo_world \<Rightarrow> nat \<Rightarrow> int \<Rightarrow> bool" where
  "client_ok ob w s fd \<longleftrightarrow>
     (\<exists>x y. view w (Rt s) = Some x \<and> view w (Wt s) = Some y \<and> client_tokens ob (os w) (mem w) s fd x y)"

lemma client_ok_stream:
  assumes "client_ok ob w s fd" and "fd \<noteq> -1"
  shows "prefix (o_out ob (os w) fd) (o_in ob (os w) fd)"
  using assms by (auto simp: client_ok_def client_tokens_def reading_def writing_def owed_def)

lemma owed_cong: "o_in ob k' fd = o_in ob k fd \<Longrightarrow> o_out ob k' fd = o_out ob k fd \<Longrightarrow> owed ob k' fd = owed ob k fd"
  by (simp add: owed_def fun_eq_iff)

lemma client_tokens_cong:
  assumes o: "owed ob k' fd = owed ob k fd" and m: "m' (2 * s) = m (2 * s)" "m' (2 * s + 1) = m (2 * s + 1)"
  shows "client_tokens ob k' m' s fd x y = client_tokens ob k m s fd x y"
proof -
  have "mem_load m' (recvBuf s) n = mem_load m (recvBuf s) n" for n
    using m(1) by (intro mem_load_cong) (simp add: recvBuf_def)
  moreover have "mem_load m' (ptr_add (sendBuf s) i) n = mem_load m (ptr_add (sendBuf s) i) n" for i n
    using m(2) by (intro mem_load_cong) (simp add: sendBuf_def)
  ultimately show ?thesis
    by (simp only: client_tokens_def reading_def writing_def o)
qed

section \<open>The server\<close>

definition served :: "handler set \<Rightarrow> 'k echo_world \<Rightarrow> bool" where
  "served A w \<longleftrightarrow>
     (\<forall>s. HSock s \<in> A \<longrightarrow> socks w s \<noteq> None \<and>
        (\<forall>t\<in>{Rt s, Wt s}. \<forall>x. view w t = Some x \<longrightarrow> \<not> queued_mode (t_mode x))) \<and>
     (\<forall>a. HAcc a \<in> A \<longrightarrow> accs w a \<noteq> None) \<and> accs w 0 \<noteq> None \<and> (\<forall>a c. accs w a = Some c \<longrightarrow> a_cb c \<noteq> None)"

definition registered :: "'k observer \<Rightarrow> 'k echo_world \<Rightarrow> bool" where
  "registered ob w \<longleftrightarrow>
     (\<forall>fd s. o_reg ob (os w) fd = Some (HSock s) \<longrightarrow> socks w s = Some fd \<and> fd \<noteq> -1) \<and>
     (\<forall>fd a. o_reg ob (os w) fd = Some (HAcc a) \<longrightarrow> accs w a \<noteq> None)"

definition owners :: "'k observer \<Rightarrow> 'k echo_world \<Rightarrow> bool" where
  "owners ob w \<longleftrightarrow>
     (\<forall>s fd. socks w s = Some fd \<longrightarrow> s < next_obj w \<and> (fd \<noteq> -1 \<longrightarrow> fd \<in> o_open ob (os w))) \<and>
     (\<forall>s s' fd. socks w s = Some fd \<longrightarrow> socks w s' = Some fd \<longrightarrow> fd \<noteq> -1 \<longrightarrow> s = s')"

text \<open>\<open>X\<close>: the clients whose callback is running, which are between reading and writing.\<close>

definition core :: "'k observer \<Rightarrow> handler set \<Rightarrow> nat set \<Rightarrow> 'k echo_world \<Rightarrow> tokref list \<Rightarrow> bool" where
  "core ob A X w qs \<longleftrightarrow> wf w qs \<and> owners ob w \<and> registered ob w \<and> served A w \<and>
     (\<forall>s fd. s \<notin> X \<longrightarrow> socks w s = Some fd \<longrightarrow> client_ok ob w s fd)"

lemma coreD:
  assumes "core ob A X w qs"
  shows "wf w qs" "owners ob w" "registered ob w" "served A w"
    "s \<notin> X \<Longrightarrow> socks w s = Some fd \<Longrightarrow> client_ok ob w s fd"
  using assms by (simp_all add: core_def)

lemma served_accs: "served A w \<Longrightarrow> accs w a = Some c \<Longrightarrow> \<exists>f. a_cb c = Some f"
  unfolding served_def by blast

lemma core_weaken: "core ob A X w qs \<Longrightarrow> B \<subseteq> A \<Longrightarrow> X \<subseteq> Y \<Longrightarrow> core ob B Y w qs"
  unfolding core_def served_def by blast

lemma core_settle:
  "core ob A {s} w qs \<Longrightarrow> socks w s = Some fd \<Longrightarrow> client_ok ob w s fd \<Longrightarrow> core ob A {} w qs"
  unfolding core_def by (metis empty_iff insert_iff option.inject)

lemma ownersD:
  assumes "owners ob w"
  shows "socks w s = Some fd \<Longrightarrow> s < next_obj w" "socks w s = Some fd \<Longrightarrow> fd \<noteq> -1 \<Longrightarrow> fd \<in> o_open ob (os w)"
    "socks w s = Some fd \<Longrightarrow> socks w s' = Some fd \<Longrightarrow> fd \<noteq> -1 \<Longrightarrow> s' = s"
  using assms unfolding owners_def by blast+

lemma registered_mono:
  assumes r: "registered ob w" and le: "o_reg ob (os w') \<subseteq>\<^sub>m o_reg ob (os w)" and e: "socks w' = socks w" "accs w' = accs w"
  shows "registered ob w'"
proof -
  have "o_reg ob (os w) f = Some h" if "o_reg ob (os w') f = Some h" for f h
    using that le by (auto simp: map_le_def dom_def)
  note m = this
  show ?thesis unfolding registered_def e
    using r [unfolded registered_def] m by blast
qed

text \<open>What a step on behalf of the client \<open>s\<close> may change.\<close>

definition only :: "'k observer \<Rightarrow> nat \<Rightarrow> int \<Rightarrow> 'k echo_world \<Rightarrow> 'k echo_world \<Rightarrow> bool" where
  "only ob s fd w w' \<longleftrightarrow>
     socks w' = socks w \<and> accs w' = accs w \<and> next_obj w' = next_obj w \<and>
     (\<forall>t. t \<noteq> Rt s \<longrightarrow> t \<noteq> Wt s \<longrightarrow> view w' t = view w t) \<and>
     (\<forall>b. b \<noteq> 2 * s \<longrightarrow> b \<noteq> 2 * s + 1 \<longrightarrow> mem w' b = mem w b) \<and>
     o_open ob (os w') = o_open ob (os w) \<and> o_reg ob (os w') \<subseteq>\<^sub>m o_reg ob (os w) \<and>
     (\<forall>fd'. fd' \<noteq> fd \<longrightarrow> o_in ob (os w') fd' = o_in ob (os w) fd' \<and> o_out ob (os w') fd' = o_out ob (os w) fd')"

lemma only_refl [simp]: "only ob s fd w w"
  by (simp add: only_def)

lemma only_trans: "only ob s fd w w' \<Longrightarrow> only ob s fd w' w'' \<Longrightarrow> only ob s fd w w''"
  unfolding only_def by (auto intro: map_le_trans)

lemma client_ok_other:
  assumes c: "client_ok ob w s' fd'" and o: "only ob s fd w w'" and n: "s' \<noteq> s" "fd' = -1 \<or> fd' \<noteq> fd"
  shows "client_ok ob w' s' fd'"
proof -
  obtain x y where xy: "view w (Rt s') = Some x" "view w (Wt s') = Some y" "client_tokens ob (os w) (mem w) s' fd' x y"
    using c by (auto simp: client_ok_def)
  have v: "view w' (Rt s') = Some x" "view w' (Wt s') = Some y" using o n(1) xy by (auto simp: only_def)
  have "2 * s' \<noteq> 2 * s" "2 * s' \<noteq> 2 * s + 1" "2 * s' + 1 \<noteq> 2 * s" "2 * s' + 1 \<noteq> 2 * s + 1" using n(1) by presburger+
  then have m: "mem w' (2 * s') = mem w (2 * s')" "mem w' (2 * s' + 1) = mem w (2 * s' + 1)"
    using o by (simp_all add: only_def)
  have "owed ob (os w') fd' = owed ob (os w) fd'"
    using n(2) o owed_cong [of ob "os w'" fd' "os w"] by (cases "fd' = -1") (auto simp: owed_def only_def)
  from client_tokens_cong [OF this m] xy(3) v show ?thesis by (auto simp: client_ok_def)
qed

lemma core_only:
  assumes c: "core ob A X w qs" and s: "socks w s = Some fd" and o: "only ob s fd w w'" and w': "wf w' qs'"
    and a: "HSock s \<notin> A"
  shows "core ob A (insert s X) w' qs'"
proof -
  have fr: "socks w' = socks w" "accs w' = accs w" "next_obj w' = next_obj w"
    "o_reg ob (os w') \<subseteq>\<^sub>m o_reg ob (os w)" "o_open ob (os w') = o_open ob (os w)"
    using o by (simp_all add: only_def)
  have "view w' t = view w t" if "t \<in> {Rt s', Wt s'}" "HSock s' \<in> A" for t s'
    using that a o by (auto simp: only_def)
  then have "served A w'" using coreD(4) [OF c] fr unfolding served_def by metis
  moreover have "client_ok ob w' s' fd'" if "s' \<notin> insert s X" "socks w' s' = Some fd'" for s' fd'
    using client_ok_other [OF coreD(5) [OF c] o] that fr(1) ownersD(3) [OF coreD(2) [OF c] s, of s'] by auto
  moreover have "owners ob w'" using coreD(2) [OF c] fr by (simp add: owners_def)
  moreover have "registered ob w'" using registered_mono [OF coreD(3) [OF c] fr(4,1,2)] .
  ultimately show ?thesis using w' by (simp add: core_def)
qed

text \<open>Steps that touch no client.\<close>

lemma core_frame:
  assumes c: "core ob A X w qs" and w': "wf w' qs'" and v: "view w' = view w" "mem w' = mem w"
    "socks w' = socks w" "accs w' = accs w" "next_obj w' = next_obj w" and k: "same_obs ob (os w) (os w')"
  shows "core ob A X w' qs'"
proof -
  have "client_ok ob w' s fd = client_ok ob w s fd" for s fd
    using k v client_tokens_cong [OF owed_cong, of ob "os w'" fd "os w" "mem w'" s "mem w"]
    by (simp add: client_ok_def same_obs_def)
  moreover have "registered ob w'" using registered_mono [OF coreD(3) [OF c]] k v by (simp add: same_obs_def)
  ultimately show ?thesis
    using c k v w' by (simp add: core_def owners_def served_def same_obs_def)
qed

end
