(* ===== verification/EchoSteps.thy ===== *)
theory EchoSteps
  imports EchoInvariant
begin

text \<open>
  Every step of the echo server keeps the invariant: deleting a client, starting a read, answering
  what was read, the events of a socket, an expired timer, and accepting connections.
\<close>

definition host :: "(int \<Rightarrow> handler \<Rightarrow> 'k \<Rightarrow> 'k \<Rightarrow> bool) \<Rightarrow> ('k \<Rightarrow> 'k \<Rightarrow> bool) \<Rightarrow> 'k kernel \<Rightarrow> 'k observer \<Rightarrow> bool" where
  "host added removed K ob \<longleftrightarrow> io_laws K ob \<and> conn_laws K ob \<and> poll_laws added removed ob"

lemma hostD:
  assumes "host added removed K ob"
  shows "io_laws K ob" "conn_laws K ob" "poll_laws added removed ob" "posix_read K" "posix_write K"
  using assms io_lawsD(1,2) by (auto simp: host_def)

section \<open>Deleting a client\<close>

lemma delete_registered:
  assumes r: "registered ob w" and s: "socks w s = Some fd" and le: "o_reg ob (os w') \<subseteq>\<^sub>m o_reg ob (os w)"
    and fd: "fd \<noteq> -1 \<Longrightarrow> o_reg ob (os w') fd = None"
    and w': "socks w' = (socks w)(s := None)" "accs w' = accs w"
  shows "registered ob w'"
proof -
  have m: "o_reg ob (os w) f = Some h" if "o_reg ob (os w') f = Some h" for f h
    using that le by (auto simp: map_le_def dom_def)
  have "socks w' t = Some f \<and> f \<noteq> -1" if h: "o_reg ob (os w') f = Some (HSock t)" for f t
  proof -
    have t: "socks w t = Some f" "f \<noteq> -1" using r m [OF h] by (auto simp: registered_def)
    moreover have "t \<noteq> s" using t s fd h by auto
    ultimately show ?thesis using w'(1) by simp
  qed
  moreover have "accs w' a \<noteq> None" if "o_reg ob (os w') f = Some (HAcc a)" for f a
    using r m [OF that] w'(2) by (auto simp: registered_def)
  ultimately show ?thesis by (simp add: registered_def)
qed

lemma core_delete:
  assumes c: "core ob A {s} w qs" and s: "socks w s = Some fd" "HSock s \<notin> A" and w': "wf w' qs'"
    and fr: "view w' = (view w)(Rt s := None, Wt s := None)" "socks w' = (socks w)(s := None)" "accs w' = accs w"
      "next_obj w' = next_obj w" "mem w' = mem w"
    and o: "o_in ob (os w') = o_in ob (os w)" "o_out ob (os w') = o_out ob (os w)" "o_reg ob (os w') \<subseteq>\<^sub>m o_reg ob (os w)"
      "if fd = -1 then o_open ob (os w') = o_open ob (os w)
       else o_open ob (os w') = o_open ob (os w) - {fd} \<and> o_reg ob (os w') fd = None"
  shows "core ob A {} w' qs'"
proof -
  have "registered ob w'"
    using o(4) by (intro delete_registered [OF coreD(3) [OF c] s(1) o(3) _ fr(2,3)]) (simp split: if_splits)
  moreover have "client_ok ob w' t f" if t: "socks w' t = Some f" for t f
  proof -
    have ts: "t \<noteq> s" "socks w t = Some f" using t fr(2) by (auto split: if_splits)
    then have "client_ok ob w t f" using coreD(5) [OF c] by simp
    then show ?thesis using ts(1) fr client_tokens_cong [OF owed_cong, of ob "os w'" f "os w" "mem w'" t "mem w"] o(1,2)
      by (simp add: client_ok_def)
  qed
  moreover have "owners ob w'"
    using coreD(2) [OF c] s(1) o(4) fr(2,4) unfolding owners_def by (auto split: if_splits)
  moreover have "served A w'" using coreD(4) [OF c] s(2) fr(1,2,3) unfolding served_def by auto
  ultimately show ?thesis using w' by (simp add: core_def)
qed

text \<open>What a callback did: the client that ran is gone, or it went on.\<close>

definition shrinks :: "nat \<Rightarrow> 'k echo_world \<Rightarrow> 'k echo_world \<Rightarrow> bool" where
  "shrinks s w w' \<longleftrightarrow> view w' = (view w)(Rt s := None, Wt s := None) \<and> socks w' = (socks w)(s := None) \<and>
     accs w' = accs w \<and> next_obj w' = next_obj w \<and> p_deleted w' = p_deleted w @ [HSock s] \<and>
     set (p_timerList w') \<subseteq> set (p_timerList w) \<and> spared s w (p_timerList w')"

text \<open>What the system sees of a deletion.\<close>

definition frees :: "('k \<Rightarrow> 'k \<Rightarrow> bool) \<Rightarrow> 'k kernel \<Rightarrow> int \<Rightarrow> 'k \<Rightarrow> 'k \<Rightarrow> bool" where
  "frees removed K fd k k' \<longleftrightarrow> (\<exists>k1. removed k k1 \<and> k' \<in> {k1, k_close K fd k1})"

lemma shrinks_reports: "shrinks s w w' \<Longrightarrow> reports w w'"
  by (auto simp: shrinks_def reports_def alive_def split: handler.splits)

text \<open>
  What the system sees of a step on behalf of the client \<open>s\<close> with the descriptor \<open>fd\<close>: one read, one
  write, or the end of the client, after steps it does not see.
\<close>

definition reads :: "'k kernel \<Rightarrow> nat \<Rightarrow> int \<Rightarrow> 'k echo_world \<Rightarrow> 'k echo_world \<Rightarrow> bool" where
  "reads K s fd w w' \<longleftrightarrow> same_rest w w' \<and> (\<forall>y. view w (Wt s) = Some y \<longrightarrow> t_mode y = M_NONE) \<and>
     (\<exists>n ret en bs k y. k_read K fd n (os w) = (ret, en, bs, k) \<and> os w' \<in> {k, snd (k_gettimeofday K k)} \<and>
        view w' = (view w)(Rt s \<mapsto> y) \<and> outcome y = readSome_result ret en)"

definition writes :: "'k kernel \<Rightarrow> nat \<Rightarrow> int \<Rightarrow> 'k echo_world \<Rightarrow> 'k echo_world \<Rightarrow> bool" where
  "writes K s fd w w' \<longleftrightarrow> same_rest w w' \<and> (\<forall>x. view w (Rt s) = Some x \<longrightarrow> t_mode x = M_NONE) \<and>
     (\<exists>ws io n ret en k y. k_write K fd ws (os w) = (ret, en, k) \<and> os w' \<in> {k, snd (k_gettimeofday K k)} \<and>
        int (List.length ws) = n - io \<and> view w' = (view w)(Wt s \<mapsto> y) \<and> outcome y = onWrite_result io n ret en)"

definition silent :: "nat \<Rightarrow> 'k echo_world \<Rightarrow> 'k echo_world \<Rightarrow> bool" where
  "silent s w w' \<longleftrightarrow> socks w' = socks w \<and> next_obj w' = next_obj w \<and> p_deleted w' = p_deleted w \<and> os w' = os w \<and>
     (\<forall>t. t \<noteq> Rt s \<longrightarrow> t \<noteq> Wt s \<longrightarrow> view w' t = view w t)"

definition acts :: "('k \<Rightarrow> 'k \<Rightarrow> bool) \<Rightarrow> 'k kernel \<Rightarrow> nat \<Rightarrow> int \<Rightarrow> 'k echo_world \<Rightarrow> 'k echo_world \<Rightarrow> bool" where
  "acts removed K s fd w w' \<longleftrightarrow> socks w s = Some fd \<and>
     (\<exists>w1. silent s w w1 \<and> (reads K s fd w1 w' \<or> writes K s fd w1 w' \<or> shrinks s w1 w' \<and> frees removed K fd (os w1) (os w')))"

lemma silent_refl [simp]: "silent s w w"
  by (simp add: silent_def)

lemma actsI:
  assumes "socks w s = Some fd" and "silent s w w1"
  shows "reads K s fd w1 w' \<Longrightarrow> acts removed K s fd w w'" and "writes K s fd w1 w' \<Longrightarrow> acts removed K s fd w w'"
    and "shrinks s w1 w' \<Longrightarrow> frees removed K fd (os w1) (os w') \<Longrightarrow> acts removed K s fd w w'"
  using assms unfolding acts_def by blast+

text \<open>The poller's interface at the server's callbacks.\<close>

locale echo_poller = poller reg rem added removed
  for reg :: "(echo_cb, accept_cb, 'k) reg_fun" and rem :: "(echo_cb, accept_cb, 'k) rem_fun"
    and added :: "int \<Rightarrow> handler \<Rightarrow> 'k \<Rightarrow> 'k \<Rightarrow> bool" and removed :: "'k \<Rightarrow> 'k \<Rightarrow> bool"
begin

lemma delete_core:
  assumes L: "host added removed K ob" and c: "core ob A {s} w qs" and s: "socks w s = Some fd" "HSock s \<notin> A"
  shows "\<exists>w' qs'. EchoClient_dtor rem K s w = Inr w' \<and> core ob A {} w' qs' \<and> shrinks s w w' \<and>
    frees removed K fd (os w) (os w')"
proof -
  obtain w' k where d: "EchoClient_dtor rem K s w = Inr w'"
    and w': "wf w' (remove1 (Wt s) (remove1 (Rt s) qs))" "view w' = (view w)(Rt s := None, Wt s := None)"
    "socks w' = (socks w)(s := None)" "set (p_timerList w') \<subseteq> set (p_timerList w) - {Rt s, Wt s}"
    "accs w' = accs w" "next_obj w' = next_obj w" "mem w' = mem w" "p_deleted w' = p_deleted w @ [HSock s]" "spared s w (p_timerList w')"
    and k: "removed (os w) k" "os w' = (if fd = -1 then k else k_close K fd k)"
    using delete_ok [OF coreD(1) [OF c] s(1), of K] unfolding EchoClient_dtor_def by blast
  have k1: "same_obs ob (os w) k" using poll_lawsD(2) [OF hostD(3) [OF L] k(1)] .
  have k2: "o_open ob (k_close K fd k) = o_open ob k - {fd}" "o_in ob (k_close K fd k) = o_in ob k"
    "o_out ob (k_close K fd k) = o_out ob k" "o_reg ob (k_close K fd k) \<subseteq>\<^sub>m (o_reg ob k)(fd := None)"
    using conn_lawsD(2) [OF hostD(2) [OF L], of fd k] by simp_all
  have "(o_reg ob k)(fd := None) \<subseteq>\<^sub>m o_reg ob k" by (auto simp: map_le_def)
  then have le: "o_reg ob (os w') \<subseteq>\<^sub>m o_reg ob (os w)"
    using k1 map_le_trans [OF map_le_trans [OF k2(4)], of "o_reg ob k" "o_reg ob (os w)"] k(2)
    by (auto simp: same_obs_def)
  have "o_reg ob (k_close K fd k) fd = None" using k2(4) by (auto simp: map_le_def dom_def)
  then have "core ob A {} w' (remove1 (Wt s) (remove1 (Rt s) qs))"
    using k1 k2(1-3) k(2) le by (intro core_delete [OF c s w'(1-3) w'(5-7)]) (simp_all add: same_obs_def)
  moreover have "frees removed K fd (os w) (os w')" using k unfolding frees_def by (cases "fd = -1") auto
  moreover have "shrinks s w w'" using w' unfolding shrinks_def by blast
  ultimately show ?thesis using d by blast
qed

end

section \<open>Starting a read, answering\<close>

lemma same_rest_trans: "same_rest w w' \<Longrightarrow> same_rest w' w'' \<Longrightarrow> same_rest w w''"
  by (simp add: same_rest_def)

lemma settled_only:
  assumes v: "view w' = (view w)(t \<mapsto> y)" "same_rest w w'" and t: "t \<in> {Rt s, Wt s}"
    and m: "\<forall>b. b \<noteq> 2 * s \<longrightarrow> b \<noteq> 2 * s + 1 \<longrightarrow> mem w' b = mem w b"
    and k: "o_open ob k = o_open ob (os w)" "o_reg ob k \<subseteq>\<^sub>m o_reg ob (os w)"
      "\<forall>f. f \<noteq> fd \<longrightarrow> o_in ob k f = o_in ob (os w) f \<and> o_out ob k f = o_out ob (os w) f"
    and k': "same_obs ob k (os w')"
  shows "only ob s fd w w'"
  using assms unfolding only_def by (auto simp: same_rest_def same_obs_def intro: map_le_trans)

lemma settled_os:
  assumes "conn_laws K ob" and "os w' \<in> {k, snd (k_gettimeofday K k)}"
  shows "same_obs ob k (os w')"
  using assms conn_lawsD(5) by fastforce

lemma same_obs_owed: "same_obs ob k k' \<Longrightarrow> owed ob k' fd = owed ob k fd"
  by (simp add: same_obs_def owed_def fun_eq_iff)

text \<open>The two idle tokens of a client whose callback is running.\<close>

definition idle :: "'k echo_world \<Rightarrow> nat \<Rightarrow> bool" where
  "idle w s \<longleftrightarrow> (\<exists>x y. toks w (Rt s) = Some x \<and> toks w (Wt s) = Some y \<and> t_mode x = M_NONE \<and> t_mode y = M_NONE)"

lemma idleD:
  assumes "idle w s"
  obtains x y where "toks w (Rt s) = Some x" "toks w (Wt s) = Some y" "t_mode x = M_NONE" "t_mode y = M_NONE"
    "view w (Rt s) = Some (unlink x)" "view w (Wt s) = Some (unlink y)"
  using assms by (auto simp: idle_def view_def)

lemma posix_read_result:
  assumes P: "posix_read K" and r: "k_read K fd n k = (ret, en, bs, k')" and n: "0 \<le> n"
  shows "ret < 0 \<Longrightarrow> bs = []" and "0 \<le> ret \<Longrightarrow> length bs = nat ret" and "ret \<le> n"
  using posix_readD [OF P r n] n by (cases "0 \<le> ret"; simp)+

lemma settled_report: "same_rest w w' \<Longrightarrow> reports w w'"
  by (auto simp: reports_def same_rest_def alive_def split: handler.splits)

lemma reading_result:
  assumes L: "io_laws K ob" and r: "k_read K fd (int BUFSIZE) k0 = (ret, en, bs, k)"
    and out: "outcome y = readSome_result ret en" and o: "owed ob k0 fd []"
    and m: "m = mem_store (recvBuf s) bs m0" and k': "same_obs ob k k'"
  shows "reading ob k' m s fd y"
proof -
  note b = posix_read_result [OF io_lawsD(1) [OF L] r]
  have k: "o_in ob k = (o_in ob k0)(fd := o_in ob k0 fd @ bs)" "o_out ob k = o_out ob k0"
    using io_lawsD(3) [OF L r] by blast+
  have "owed ob k fd bs" using o k by (simp add: owed_def)
  then have ow: "owed ob k' fd bs" using same_obs_owed [OF k'] by simp
  show ?thesis
  proof (cases "0 \<le> ret")
    case True
    then have "mem_load m (recvBuf s) (nat ret) = bs" using b(2) m mem_load_store_same [of "recvBuf s" bs m0] by simp
    then show ?thesis using True out ow b(3) by (simp add: reading_def readSome_result_def outcome_def)
  next
    case False
    then show ?thesis using out ow b(1) by (auto simp: reading_def readSome_result_def outcome_def split: if_splits)
  qed
qed

lemma startRecv_core:
  assumes L: "io_laws K ob" "conn_laws K ob" and c: "core ob A {s} w qs" and s: "socks w s = Some fd" "HSock s \<notin> A"
    and i: "idle w s" and o: "owed ob (os w) fd []"
  shows "\<exists>w' qs' y. EchoClient_startRecv K s w = Inr w' \<and> core ob A {} w' qs' \<and> settled w qs (Rt s) w' qs' y \<and> reads K s fd w w'"
proof -
  obtain x z where x: "toks w (Rt s) = Some x" "t_mode x = M_NONE" and z: "view w (Wt s) = Some (unlink z)" "t_mode z = M_NONE"
    using i by (rule idleD)
  obtain ret en bs k where r: "k_read K fd (int BUFSIZE) (os w) = (ret, en, bs, k)" by (metis prod_cases4)
  obtain w' qs' y where rd: "Socket_readSome K s (recvBuf s) (int BUFSIZE) (OnRead s) TIMEOUT_MS w = Inr (True, w')"
    and st: "settled w qs (Rt s) w' qs' y" and y: "outcome y = readSome_result ret en" "request y = (recvBuf s, int BUFSIZE, Some (OnRead s))"
    and m: "mem w' = mem_store (recvBuf s) bs (mem w)" and os: "os w' \<in> {k, snd (k_gettimeofday K k)}"
    using readSome_ok [OF coreD(1) [OF c] x(1,2) s(1) _ r] by fastforce
  have k: "o_open ob k = o_open ob (os w)" "o_reg ob k \<subseteq>\<^sub>m o_reg ob (os w)" "o_out ob k = o_out ob (os w)"
    "o_in ob k = (o_in ob (os w))(fd := o_in ob (os w) fd @ bs)"
    using io_lawsD(3) [OF L(1) r] by simp_all
  note so = settled_os [OF L(2) os]
  have st': "view w' = (view w)(Rt s \<mapsto> y)" "same_rest w w'" "wf w' qs'" using st unfolding settled_def by blast+
  have "only ob s fd w w'" using k so m by (intro settled_only [OF st'(1,2)]) (auto simp: recvBuf_def)
  then have "core ob A {s} w' qs'" using core_only [OF c s(1) _ st'(3) s(2)] by simp
  moreover have "reading ob (os w') (mem w') s fd y" by (rule reading_result [OF L(1) r y(1) o m so])
  then have "client_ok ob w' s fd"
    using st'(1) z y(2) by (auto simp: client_ok_def client_tokens_def request_def)
  moreover have "socks w' s = Some fd" using st'(2) s(1) by (simp add: same_rest_def)
  ultimately have "core ob A {} w' qs'" using core_settle by blast
  moreover have "reads K s fd w w'" using st'(1,2) z r os y(1) unfolding reads_def by fastforce
  ultimately show ?thesis using rd st by (auto simp: EchoClient_startRecv_def)
qed

text \<open>After a write: what is owed is what the token still has to send.\<close>

lemma owed_write:
  assumes L: "io_laws K ob" and r: "k_write K fd ws k0 = (ret, en, k)" and o: "owed ob k0 fd ws" and k': "same_obs ob k k'"
  shows "owed ob k' fd (drop (nat ret) ws)"
proof -
  have k: "o_in ob k = o_in ob k0" "o_out ob k = (o_out ob k0)(fd := o_out ob k0 fd @ take (nat ret) ws)"
    using io_lawsD(4) [OF L r] by blast+
  have "owed ob k fd (drop (nat ret) ws)" using o k by (simp add: owed_def)
  then show ?thesis using same_obs_owed [OF k'] by simp
qed

lemma writing_result:
  assumes L: "io_laws K ob" and io: "0 \<le> io" "io \<le> n" "0 < n" "n \<le> int BUFSIZE"
    and r: "k_write K fd (mem_load m (ptr_add (sendBuf s) io) (nat (n - io))) k0 = (ret, en, k)"
    and out: "outcome y = onWrite_result io n ret en" and req: "request y = (sendBuf s, n, Some (OnWrite s))"
    and o: "owed ob k0 fd (mem_load m (ptr_add (sendBuf s) io) (nat (n - io)))" and k': "same_obs ob k k'"
  shows "writing ob k' m s fd y"
proof -
  let ?ws = "mem_load m (ptr_add (sendBuf s) io) (nat (n - io))"
  have ow: "owed ob k' fd (drop (nat ret) ?ws)" by (rule owed_write [OF L r o k'])
  have len: "ret \<le> n - io" using posix_writeD(1) [OF io_lawsD(2) [OF L] r] io by simp
  have y: "t_cb y = Some (OnWrite s)" "t_buf y = sendBuf s" "t_bufSize y = n" using req by (simp_all add: request_def)
  show ?thesis
  proof (cases "0 < ret")
    case True
    then have d: "drop (nat ret) ?ws = mem_load m (ptr_add (sendBuf s) (io + ret)) (nat (n - (io + ret)))"
      using len drop_mem_load [of "nat ret" "nat (n - io)" m "ptr_add (sendBuf s) io"]
      by (simp add: nat_diff_distrib' algebra_simps flip: nat_diff_distrib)
    show ?thesis
    proof (cases "io + ret < n")
      case True
      then show ?thesis using \<open>0 < ret\<close> out y io ow d
        by (simp add: writing_def onWrite_result_def outcome_def)
    next
      case False
      then show ?thesis using \<open>0 < ret\<close> out y io ow d len
        by (simp add: writing_def onWrite_result_def outcome_def)
    qed
  next
    case False
    then have "owed ob k' fd ?ws" using ow by simp
    then show ?thesis using False out y io
      by (auto simp: writing_def onWrite_result_def outcome_def split: if_splits)
  qed
qed

lemma writeAll_onWrite_result: "0 < n \<Longrightarrow> writeAll_result n ret en = onWrite_result 0 n ret en"
  by (simp add: writeAll_result_def onWrite_result_def)

lemma write_only:
  assumes L: "io_laws K ob" and r: "k_write K fd ws (os w) = (ret, en, k)"
    and st: "settled w qs (Wt s) w' qs' y" and m: "mem w' = mem w" and k': "same_obs ob k (os w')"
  shows "only ob s fd w w'"
proof -
  have "o_open ob k = o_open ob (os w)" "o_reg ob k \<subseteq>\<^sub>m o_reg ob (os w)" "o_in ob k = o_in ob (os w)"
    "o_out ob k = (o_out ob (os w))(fd := o_out ob (os w) fd @ take (nat ret) ws)"
    using io_lawsD(4) [OF L r] by blast+
  moreover have "view w' = (view w)(Wt s \<mapsto> y)" "same_rest w w'" using st unfolding settled_def by blast+
  ultimately show ?thesis using k' m by (intro settled_only) auto
qed

lemma settledD:
  assumes "settled w qs t w' qs' y"
  shows "wf w' qs'" "view w' = (view w)(t \<mapsto> y)" "same_rest w w'" "socks w' = socks w" "p_deleted w' = p_deleted w"
    "set (p_timerList w') \<subseteq> insert t (set (p_timerList w))" "queued_mode (t_mode y) \<Longrightarrow> p_timerList w' = p_timerList w"
  using assms unfolding settled_def same_rest_def by blast+

lemma answer_core:
  assumes L: "io_laws K ob" "conn_laws K ob" and c: "core ob A {s} w qs" and s: "socks w s = Some fd" "HSock s \<notin> A"
    and i: "idle w s" and n: "0 < n" "n \<le> int BUFSIZE"
    and x: "\<And>x. view w (Rt s) = Some x \<Longrightarrow> t_cb x = Some (OnRead s) \<and> t_buf x = recvBuf s \<and> t_bufSize x = int BUFSIZE"
    and o: "owed ob (os w) fd (mem_load (mem w) (recvBuf s) (nat n))" and err: "e_code err = 0"
  shows "\<exists>w1 w' qs' y. EchoClient_onRead rem K s err n w = Inr w' \<and> core ob A {} w' qs' \<and>
    settled w1 qs (Wt s) w' qs' y \<and> same_rest w w1 \<and> view w1 = view w \<and> p_timerList w1 = p_timerList w \<and> writes K s fd w w'"
proof -
  obtain x0 y0 where xy: "toks w (Wt s) = Some y0" "t_mode y0 = M_NONE" "view w (Rt s) = Some (unlink x0)" "t_mode x0 = M_NONE"
    using i by (rule idleD)
  define ws where "ws = mem_load (mem w) (recvBuf s) (nat n)"
  define w1 where "w1 = w\<lparr>mem := mem_store (sendBuf s) ws (mem w)\<rparr>"
  have w1: "wf w1 qs" "toks w1 (Wt s) = Some y0" "socks w1 s = Some fd" "os w1 = os w" "view w1 = view w" "same_rest w w1"
    "p_timerList w1 = p_timerList w"
    using coreD(1) [OF c] xy s(1) by (simp_all add: w1_def same_rest_def)
  have ld: "mem_load (mem w1) (sendBuf s) (nat n) = ws"
    using mem_load_store_same [of "sendBuf s" ws "mem w"] by (simp add: w1_def ws_def)
  have o1: "only ob s fd w w1" by (auto simp: only_def w1_def sendBuf_def)
  obtain ret en k where r: "k_write K fd (mem_load (mem w1) (sendBuf s) (nat n)) (os w1) = (ret, en, k)"
    by (metis prod_cases3)
  obtain w' qs' y where wr: "Socket_writeAll K s (sendBuf s) n (OnWrite s) TIMEOUT_MS w1 = Inr (True, w')"
    and st: "settled w1 qs (Wt s) w' qs' y" and y: "outcome y = writeAll_result n ret en" "request y = (sendBuf s, n, Some (OnWrite s))"
    and m: "mem w' = mem w1" and os: "os w' \<in> {k, snd (k_gettimeofday K k)}"
    using writeAll_ok [OF w1(1,2) xy(2) w1(3) _ r] n(1) by fastforce
  note so = settled_os [OF L(2) os]
  have o2: "only ob s fd w1 w'" by (rule write_only [OF L(1) r st m so])
  have "core ob A {s} w' qs'" using core_only [OF c s(1) only_trans [OF o1 o2] settledD(1) [OF st] s(2)] by simp
  moreover have "writing ob (os w') (mem w1) s fd y"
    by (rule writing_result [OF L(1), of 0 n]) (use n r y writeAll_onWrite_result o so ld w1(4) in \<open>auto simp: ws_def\<close>)
  then have "client_ok ob w' s fd"
    using settledD(2) [OF st] w1(5) xy(3,4) x [OF xy(3)] m by (auto simp: client_ok_def client_tokens_def)
  ultimately have "core ob A {} w' qs'"
    using core_settle settledD(4) [OF st] w1(3) by metis
  moreover have "EchoClient_onRead rem K s err n w = Inr w'"
    using err n(1) wr by (simp add: EchoClient_onRead_def w1_def ws_def)
  moreover have "writes K s fd w w'"
  proof -
    have "same_rest w w'" using same_rest_trans [OF w1(6) settledD(3) [OF st]] .
    moreover have "view w' = (view w)(Wt s \<mapsto> y)" using settledD(2) [OF st] w1(5) by simp
    moreover have "int (List.length (mem_load (mem w1) (sendBuf s) (nat n))) = n - 0" using n(1) by simp
    ultimately show ?thesis using xy(3,4) r w1(4) os y(1) writeAll_onWrite_result [OF n(1)] unfolding writes_def by fastforce
  qed
  ultimately show ?thesis using st w1(5-7) by blast
qed

section \<open>Completions\<close>

lemma unlink_mode: "unlink (x\<lparr>t_mode := m\<rparr>) = (unlink x)\<lparr>t_mode := m\<rparr>"
  by (cases x) (simp add: unlink_def)

lemma view_toks_Some:
  assumes "view w t = Some z"
  obtains x where "toks w t = Some x" "t_cb x = t_cb z" "t_err x = t_err z" "t_ioSize x = t_ioSize z" "t_mode x = t_mode z"
    "t_buf x = t_buf z" "t_bufSize x = t_bufSize z" "t \<noteq> Head"
  using assms by (auto simp: view_def split: if_splits)

lemma core_client:
  assumes c: "core ob A {} w qs" and s: "socks w s = Some fd"
  obtains x y where "view w (Rt s) = Some x" "view w (Wt s) = Some y" "client_tokens ob (os w) (mem w) s fd x y"
  using coreD(5) [OF c _ s] by (auto simp: client_ok_def)

lemma queued_view:
  assumes "wf w qs" and "t \<in> set qs"
  obtains z where "view w t = Some z" "queued_mode (t_mode z)"
proof -
  have t: "t \<noteq> Head" using queue_ok_distinct [OF wfD(1) [OF assms(1)]] assms(2) by auto
  obtain x where x: "toks w t = Some x" using queue_ok_live [OF wfD(1) [OF assms(1)], of t] assms(2) by auto
  have "queued_mode (t_mode x)" using modes_okD(2) [OF wfD(3) [OF assms(1)] x t] assms(2) by simp
  then show ?thesis using that [OF view_Some [OF x t]] by simp
qed

lemma view_live:
  assumes "wf w qs" and "view w t = Some z"
  obtains s fd where "t \<in> {Rt s, Wt s}" "socks w s = Some fd"
proof -
  obtain x where x: "toks w t = Some x" "t \<noteq> Head" using assms(2) by (auto simp: view_def split: if_splits)
  show ?thesis
  proof (cases t)
    case (Rt s)
    then obtain fd where "socks w s = Some fd" using live_ok_iff(1) [OF wfD(2) [OF assms(1)], of s] x by blast
    with Rt that show ?thesis by blast
  next
    case (Wt s)
    then obtain fd where "socks w s = Some fd" using live_ok_iff(2) [OF wfD(2) [OF assms(1)], of s] x by blast
    with Wt that show ?thesis by blast
  qed (use x in simp)
qed

lemma take_core:
  assumes c: "core ob A {} w qs" and q: "t \<in> set qs" and t: "t \<in> {Rt s, Wt s}" and z: "view w t = Some z"
    and s: "socks w s = Some fd"
  shows "\<exists>w1. Proactor_take t w = Inr w1 \<and> core ob A {s} w1 (remove1 t qs) \<and> idle w1 s \<and> HSock s \<notin> A \<and>
    reports w w1 \<and> os w1 = os w \<and> mem w1 = mem w \<and> socks w1 = socks w \<and> silent s w w1 \<and>
    view w1 = (view w)(t \<mapsto> z\<lparr>t_mode := M_NONE\<rparr>)"
proof -
  obtain x where x: "toks w t = Some x" "unlink x = z" using z by (auto simp: view_def split: if_splits)
  obtain h ts where tk: "Proactor_take t w = Inr (w\<lparr>toks := h, p_timerList := ts\<rparr>)"
    "wf (w\<lparr>toks := h, p_timerList := ts\<rparr>) (remove1 t qs)"
    "view (w\<lparr>toks := h, p_timerList := ts\<rparr>) = (view w)(t \<mapsto> unlink (x\<lparr>t_mode := M_NONE\<rparr>))"
    using Proactor_take_ok [OF coreD(1) [OF c] q x(1)] by blast
  let ?w = "w\<lparr>toks := h, p_timerList := ts\<rparr>"
  have v: "view ?w = (view w)(t \<mapsto> z\<lparr>t_mode := M_NONE\<rparr>)" using tk(3) x(2) by (simp add: unlink_mode)
  have qm: "queued_mode (t_mode z)" using queued_view [OF coreD(1) [OF c] q] z by auto
  then have a: "HSock s \<notin> A" using coreD(4) [OF c] t z unfolding served_def by blast
  have "only ob s fd w ?w" using v t by (auto simp: only_def)
  then have "core ob A {s} ?w (remove1 t qs)" using core_only [OF c s _ tk(2) a] by blast
  moreover obtain u y where uy: "view w (Rt s) = Some u" "view w (Wt s) = Some y" "client_tokens ob (os w) (mem w) s fd u y"
    using core_client [OF c s] by blast
  then have "idle ?w s"
  proof -
    have "\<exists>u' y'. view ?w (Rt s) = Some u' \<and> view ?w (Wt s) = Some y' \<and> t_mode u' = M_NONE \<and> t_mode y' = M_NONE"
      using uy qm t z v by (auto simp: client_tokens_def queued_mode_def)
    then show ?thesis unfolding idle_def by (auto dest!: view_SomeD)
  qed
  moreover have "reports w ?w" by (auto simp: reports_def alive_def split: handler.splits)
  moreover have "silent s w ?w" using v t by (auto simp: silent_def)
  ultimately show ?thesis using tk(1) v a by auto
qed

context echo_poller
begin

lemma complete_core:
  assumes L: "host added removed K ob" and c: "core ob A {} w qs" and f: "queue_front (toks w) = Inr t" "t \<noteq> Head"
  shows "\<exists>w' qs'. Proactor_complete (echo_env reg rem K) t w = Inr w' \<and> core ob A {} w' qs' \<and> reports w w' \<and>
    (\<exists>s fd. acts removed K s fd w w')"
proof -
  note io = hostD(1) [OF L] and cn = hostD(2) [OF L]
  have q: "t \<in> set qs" using f queue_front_ok [OF wfD(1) [OF coreD(1) [OF c]]] by (cases qs) auto
  obtain z where z: "view w t = Some z" "queued_mode (t_mode z)" using queued_view [OF coreD(1) [OF c] q] .
  obtain s fd where s: "t \<in> {Rt s, Wt s}" "socks w s = Some fd" using view_live [OF coreD(1) [OF c] z(1)] .
  obtain u y where uy: "view w (Rt s) = Some u" "view w (Wt s) = Some y" "client_tokens ob (os w) (mem w) s fd u y"
    using core_client [OF c s(2)] .
  obtain w1 where w1: "Proactor_take t w = Inr w1" "core ob A {s} w1 (remove1 t qs)" "idle w1 s" "HSock s \<notin> A"
    "reports w w1" "os w1 = os w" "mem w1 = mem w" "socks w1 = socks w" "view w1 = (view w)(t \<mapsto> z\<lparr>t_mode := M_NONE\<rparr>)"
    "silent s w w1"
    using take_core [OF c q s(1) z(1) s(2)] by blast
  have s1: "socks w1 s = Some fd" using w1(8) s(2) by simp
  obtain x1 where x1: "toks w1 t = Some x1" "t_cb x1 = t_cb z" "t_err x1 = t_err z" "t_ioSize x1 = t_ioSize z"
    by (rule view_toks_Some [of w1 t "z\<lparr>t_mode := M_NONE\<rparr>"]) (use w1(9) in auto)
  have st: "Proactor_complete (echo_env reg rem K) t w = invoke (echo_env reg rem K) (t_cb z) (t_err z) (t_ioSize z) w1"
    using w1(1) x1 by (simp add: Proactor_complete_def)
  obtain wd qd where del: "EchoClient_dtor rem K s w1 = Inr wd" "core ob A {} wd qd" "reports w1 wd" "acts removed K s fd w wd"
    using delete_core [OF L w1(2) s1 w1(4)] shrinks_reports actsI(3) [OF s(2) w1(10)] by blast
  note rep = reports_trans [OF w1(5)]
  show ?thesis
  proof (cases "t = Rt s")
    case True
    then have zu: "z = u" using z uy by simp
    then have rd: "t_cb z = Some (OnRead s)" "reading ob (os w) (mem w) s fd z"
      using uy(3) z(2) by (auto simp: client_tokens_def)
    then have e: "Proactor_complete (echo_env reg rem K) t w = EchoClient_onRead rem K s (t_err z) (t_ioSize z) w1"
      unfolding st by (simp add: invoke_def echo_env_def echo_call_def)
    show ?thesis
    proof (cases "e_code (t_err z) \<noteq> 0 \<or> t_ioSize z \<le> 0")
      case True
      then show ?thesis using e del rep by (auto simp: EchoClient_onRead_def)
    next
      case False
      then have o: "t_ioSize z \<le> int BUFSIZE" "owed ob (os w1) fd (mem_load (mem w1) (recvBuf s) (nat (t_ioSize z)))"
        using rd(2) z(2) w1(6,7) by (auto simp: reading_def)
      have "t_cb x = Some (OnRead s) \<and> t_buf x = recvBuf s \<and> t_bufSize x = int BUFSIZE" if "view w1 (Rt s) = Some x" for x
        using that w1(9) True uy(3) zu by (auto simp: client_tokens_def)
      then obtain w2 w' qs' y' where "EchoClient_onRead rem K s (t_err z) (t_ioSize z) w1 = Inr w'" "core ob A {} w' qs'"
        "settled w2 (remove1 t qs) (Wt s) w' qs' y'" "same_rest w1 w2" "writes K s fd w1 w'"
        using answer_core [OF io cn w1(2) s1 w1(4,3) _ o(1) _ o(2), of "t_err z" rem] False by fastforce
      then show ?thesis using e rep [OF reports_trans [OF settled_report settled_report]] settledD(3) actsI(2) [OF s(2) w1(10)] by metis
    qed
  next
    case False
    then have zy: "z = y" "t = Wt s" using z uy s(1) by auto
    then have wr: "t_cb z = Some (OnWrite s)" "writing ob (os w) (mem w) s fd z"
      using uy(3) z(2) by (auto simp: client_tokens_def writing_def)
    then have e: "Proactor_complete (echo_env reg rem K) t w = EchoClient_onWrite rem K s (t_err z) (t_ioSize z) w1"
      unfolding st by (simp add: invoke_def echo_env_def echo_call_def)
    show ?thesis
    proof (cases "e_code (t_err z) \<noteq> 0 \<or> t_ioSize z \<le> 0")
      case True
      then show ?thesis using e del rep by (auto simp: EchoClient_onWrite_def)
    next
      case False
      then have "owed ob (os w1) fd []" using wr(2) z(2) w1(6) by (auto simp: writing_def)
      then obtain w' qs' y' where "EchoClient_startRecv K s w1 = Inr w'" "core ob A {} w' qs'"
        "settled w1 (remove1 t qs) (Rt s) w' qs' y'" "reads K s fd w1 w'"
        using startRecv_core [OF io cn w1(2) s1 w1(4,3)] by blast
      moreover from this(3,4) have "reports w w'" "acts removed K s fd w w'"
        using rep [OF settled_report [OF settledD(3)]] actsI(1) [OF s(2) w1(10)] by blast+
      ultimately show ?thesis using e False by (auto simp: EchoClient_onWrite_def)
    qed
  qed
qed

end

end
