(* ===== verification/EchoEvents.thy ===== *)
theory EchoEvents
  imports EchoSteps
begin

text \<open>
  The events of the echo server: readiness and close of a client's socket, an expired timer, and new
  connections. Together with the completions they make the server a client of the event loops.
\<close>

section \<open>Readiness\<close>

lemma read_only:
  assumes L: "io_laws K ob" and r: "k_read K fd n (os w) = (ret, en, bs, k)"
    and st: "settled w qs (Rt s) w' qs' y" and m: "mem w' = mem_store (recvBuf s) bs (mem w)" and k': "same_obs ob k (os w')"
  shows "only ob s fd w w'"
proof -
  have "o_open ob k = o_open ob (os w)" "o_reg ob k \<subseteq>\<^sub>m o_reg ob (os w)" "o_out ob k = o_out ob (os w)"
    "o_in ob k = (o_in ob (os w))(fd := o_in ob (os w) fd @ bs)"
    using io_lawsD(3) [OF L r] by blast+
  with k' m show ?thesis using settledD(2,3) [OF st] by (intro settled_only) (auto simp: recvBuf_def)
qed

lemma served_client:
  assumes c: "core ob (insert (HSock s) A) {} w qs"
  obtains fd u y x z where "socks w s = Some fd" "view w (Rt s) = Some u" "view w (Wt s) = Some y"
    "client_tokens ob (os w) (mem w) s fd u y" "toks w (Rt s) = Some x" "u = unlink x" "toks w (Wt s) = Some z" "y = unlink z"
    "\<not> queued_mode (t_mode u)" "\<not> queued_mode (t_mode y)" "tok_ok x" "tok_ok z"
proof -
  obtain fd where fd: "socks w s = Some fd" using coreD(4) [OF c] by (auto simp: served_def)
  obtain u y where uy: "view w (Rt s) = Some u" "view w (Wt s) = Some y" "client_tokens ob (os w) (mem w) s fd u y"
    using core_client [OF c fd] .
  obtain x z where xz: "toks w (Rt s) = Some x" "u = unlink x" "toks w (Wt s) = Some z" "y = unlink z"
    using uy by (auto dest!: view_SomeD)
  have "\<not> queued_mode (t_mode u)" "\<not> queued_mode (t_mode y)" using coreD(4) [OF c] uy by (auto simp: served_def)
  moreover have "tok_ok x" "tok_ok z" using modes_okD(1) [OF wfD(3) [OF coreD(1) [OF c]]] xz by auto
  ultimately show ?thesis using that fd uy xz by blast
qed

lemma onRead_core:
  assumes L: "io_laws K ob" and c: "core ob (insert (HSock s) A) {} w qs" and a: "HSock s \<notin> A"
  shows "\<exists>w' qs' fd. Socket_onRead K s w = Inr w' \<and> core ob A {} w' qs' \<and> reports w w' \<and> socks w s = Some fd \<and>
    (w' = w \<and> (\<forall>x. view w (Rt s) = Some x \<longrightarrow> \<not> pending_mode (t_mode x)) \<or> reads K s fd w w')"
proof -
  obtain fd u y x z where t: "socks w s = Some fd" "view w (Rt s) = Some u" "view w (Wt s) = Some y"
    "client_tokens ob (os w) (mem w) s fd u y" "toks w (Rt s) = Some x" "u = unlink x" "toks w (Wt s) = Some z" "y = unlink z"
    "\<not> queued_mode (t_mode u)" "\<not> queued_mode (t_mode y)" "tok_ok x" "tok_ok z"
    using served_client [OF c] by metis
  have c': "core ob A {} w qs" using core_weaken [OF c, of A "{}"] by auto
  show ?thesis
  proof (cases "pending_mode (t_mode x)")
    case False
    then show ?thesis using onRead_idle [OF t(5)] c' t(1,2,6) by auto
  next
    case True
    then have m: "t_mode x = M_SOME" and b: "t_buf x = recvBuf s" "t_bufSize x = int BUFSIZE" "t_cb x = Some (OnRead s)"
      and o: "owed ob (os w) fd []" and y: "t_mode y = M_NONE"
      using t(4,6,9) by (auto simp: client_tokens_def reading_def pending_mode_def)
    then have io0: "t_ioSize x = 0" using t(11) by (simp add: tok_ok_def)
    obtain ret en bs k where r: "k_read K fd (int BUFSIZE) (os w) = (ret, en, bs, k)" by (metis prod_cases4)
    obtain w' qs' v where w': "Socket_onRead K s w = Inr w'" "settled w qs (Rt s) w' qs' v"
      "outcome v = onRead_result M_SOME 0 (int BUFSIZE) ret en" "request v = request x"
      "mem w' = mem_store (recvBuf s) bs (mem w)" "os w' = k"
      using onRead_ok [OF coreD(1) [OF c] t(5) True t(1) io_lawsD(1) [OF L]] r b m io0 by auto
    have so: "same_obs ob k (os w')" by (simp add: w'(6))
    have "core ob A {s} w' qs'"
      using core_only [OF c' t(1) read_only [OF L r w'(2,5) so] settledD(1) [OF w'(2)] a] by simp
    moreover have "reading ob (os w') (mem w') s fd v"
    proof (rule reading_result [OF L r _ o w'(5) so])
      show "outcome v = readSome_result ret en"
        using w'(3) by (simp add: onRead_result_def readSome_result_def)
    qed
    then have "client_ok ob w' s fd"
      using settledD(2) [OF w'(2)] t(3) y w'(4) b by (auto simp: client_ok_def client_tokens_def request_def)
    ultimately have "core ob A {} w' qs'" using core_settle settledD(4) [OF w'(2)] t(1) by metis
    moreover have "reads K s fd w w'" unfolding reads_def
      using settledD(2,3) [OF w'(2)] t(3) y r w'(3,6) by (fastforce simp: onRead_result_def readSome_result_def)
    ultimately show ?thesis using w'(1) settled_report [OF settledD(3) [OF w'(2)]] t(1) by blast
  qed
qed

lemma onWrite_core:
  assumes L: "io_laws K ob" and c: "core ob (insert (HSock s) A) {} w qs" and a: "HSock s \<notin> A"
  shows "\<exists>w' qs' fd. Socket_onWrite K s w = Inr w' \<and> core ob A {} w' qs' \<and> reports w w' \<and> socks w s = Some fd \<and>
    (w' = w \<and> (\<forall>y. view w (Wt s) = Some y \<longrightarrow> t_mode y \<noteq> M_ALL) \<or> writes K s fd w w')"
proof -
  obtain fd u y x z where t: "socks w s = Some fd" "view w (Rt s) = Some u" "view w (Wt s) = Some y"
    "client_tokens ob (os w) (mem w) s fd u y" "toks w (Rt s) = Some x" "u = unlink x" "toks w (Wt s) = Some z" "y = unlink z"
    "\<not> queued_mode (t_mode u)" "\<not> queued_mode (t_mode y)" "tok_ok x" "tok_ok z"
    using served_client [OF c] by metis
  have c': "core ob A {} w qs" using core_weaken [OF c, of A "{}"] by auto
  show ?thesis
  proof (cases "t_mode z = M_ALL")
    case False
    then show ?thesis using onWrite_idle [OF t(7)] c' t(1,3,8) by auto
  next
    case True
    let ?io = "t_ioSize z" and ?n = "t_bufSize z"
    let ?ws = "mem_load (mem w) (ptr_add (sendBuf s) ?io) (nat (?n - ?io))"
    have wr: "writing ob (os w) (mem w) s fd y" and u: "t_cb u = Some (OnRead s)" "t_buf u = recvBuf s" "t_bufSize u = int BUFSIZE" "t_mode u = M_NONE"
      using t(4,8) True by (auto simp: client_tokens_def)
    then have b: "t_buf z = sendBuf s" "t_cb z = Some (OnWrite s)" "0 \<le> ?io" "?io \<le> ?n" "0 < ?n" "?n \<le> int BUFSIZE"
      and o: "owed ob (os w) fd ?ws"
      using t(8) True by (auto simp: writing_def)
    obtain ret en k where r: "k_write K fd ?ws (os w) = (ret, en, k)" by (metis prod_cases3)
    obtain w' qs' v where w': "Socket_onWrite K s w = Inr w'" "settled w qs (Wt s) w' qs' v"
      "outcome v = onWrite_result ?io ?n ret en" "request v = request z" "mem w' = mem w" "os w' = k"
      using onWrite_ok [OF coreD(1) [OF c] t(7) True t(1) io_lawsD(2) [OF L]] r b(1) by auto
    have so: "same_obs ob k (os w')" by (simp add: w'(6))
    have "core ob A {s} w' qs'"
      using core_only [OF c' t(1) write_only [OF L r w'(2,5) so] settledD(1) [OF w'(2)] a] by simp
    moreover have "writing ob (os w') (mem w) s fd v"
      by (rule writing_result [OF L b(3-6) r w'(3) _ o so]) (use w'(4) b in \<open>simp add: request_def\<close>)
    then have "client_ok ob w' s fd"
      using settledD(2) [OF w'(2)] t(2) u w'(5) by (auto simp: client_ok_def client_tokens_def)
    ultimately have "core ob A {} w' qs'" using core_settle settledD(4) [OF w'(2)] t(1) by metis
    moreover have "int (List.length ?ws) = ?n - ?io" using b(4) by simp
    then have "writes K s fd w w'" unfolding writes_def
      using settledD(2,3) [OF w'(2)] t(2) u(4) r w'(3,6) by fastforce
    ultimately show ?thesis using w'(1) settled_report [OF settledD(3) [OF w'(2)]] t(1) by blast
  qed
qed

section \<open>Errors: a closed connection, a timeout\<close>

text \<open>What has completed outside of an event belongs to a socket without a descriptor and has no timer.\<close>

definition calm :: "'k echo_world \<Rightarrow> bool" where
  "calm w \<longleftrightarrow> (\<forall>t z. view w t = Some z \<longrightarrow> queued_mode (t_mode z) \<longrightarrow>
     t \<notin> set (p_timerList w) \<and> (\<exists>s. t = Rt s \<and> socks w s = Some (-1)))"

lemma calm_shrinks: "calm w \<Longrightarrow> shrinks s w w' \<Longrightarrow> calm w'"
  by (auto simp: calm_def shrinks_def split: if_splits)

lemma calm_mono:
  assumes "calm w" and "\<And>t z. view w' t = Some z \<Longrightarrow> queued_mode (t_mode z) \<Longrightarrow> view w t = Some z"
    and "set (p_timerList w') \<subseteq> set (p_timerList w)" and "socks w' = socks w"
  shows "calm w'"
  using assms unfolding calm_def by (metis subsetD)

text \<open>What the expiry of a timer does: the client is gone and everything else as it was.\<close>

definition expires :: "nat \<Rightarrow> 'k echo_world \<Rightarrow> 'k echo_world \<Rightarrow> bool" where
  "expires s w w' \<longleftrightarrow> socks w s \<noteq> None \<and> socks w' = (socks w)(s := None) \<and>
     view w' = (view w)(Rt s := None, Wt s := None) \<and> spared s w (p_timerList w')"

context echo_poller
begin

lemma onClose_core:
  assumes L: "host added removed K ob" and c: "core ob (insert (HSock s) A) {} w qs" and a: "HSock s \<notin> A"
  shows "\<exists>w' qs'. Socket_onClose (echo_env reg rem K) s w = Inr w' \<and> core ob A {} w' qs' \<and> reports w w' \<and>
    (calm w \<longrightarrow> calm w') \<and> (\<exists>fd. acts removed K s fd w w')"
proof -
  obtain fd u y x z where t: "socks w s = Some fd" "view w (Rt s) = Some u" "view w (Wt s) = Some y"
    "client_tokens ob (os w) (mem w) s fd u y" "toks w (Rt s) = Some x" "u = unlink x" "toks w (Wt s) = Some z" "y = unlink z"
    "\<not> queued_mode (t_mode u)" "\<not> queued_mode (t_mode y)" "tok_ok x" "tok_ok z"
    using served_client [OF c] by metis
  have c': "core ob A {} w qs" using core_weaken [OF c, of A "{}"] by auto
  define e where "e = Error_set (t_err x) ECONNRESET ''closed'' []"
  define e' where "e' = Error_set (t_err z) ECONNRESET ''closed'' []"
  define w1 where "w1 = w\<lparr>toks := (toks w)(Rt s \<mapsto> x\<lparr>t_err := e\<rparr>)\<rparr>"
  define w2 where "w2 = w1\<lparr>toks := (toks w1)(Wt s \<mapsto> z\<lparr>t_err := e'\<rparr>)\<rparr>"
  have "wf w1 qs" unfolding w1_def e_def
    using wf_err [OF coreD(1) [OF c] t(5)] t(11) by (simp add: tok_ok_def)
  then have w2: "wf w2 qs" unfolding w2_def e'_def
    using wf_err [of w1 qs "Wt s" z] t(7,12) by (simp add: tok_ok_def w1_def)
  have v: "view w2 = (view w)(Rt s \<mapsto> unlink (x\<lparr>t_err := e\<rparr>), Wt s \<mapsto> unlink (z\<lparr>t_err := e'\<rparr>))"
    using view_upd [of "Rt s" w] view_upd [of "Wt s" w1] by (simp add: w2_def w1_def)
  have fr: "socks w2 = socks w" "p_timerList w2 = p_timerList w" "p_deleted w2 = p_deleted w" by (simp_all add: w2_def w1_def)
  have "only ob s fd w w2" using v by (auto simp: only_def w2_def w1_def)
  then have c2: "core ob A {s} w2 qs" using core_only [OF c' t(1) _ w2 a] by simp
  obtain w' qs' where del: "EchoClient_dtor rem K s w2 = Inr w'" "core ob A {} w' qs'" "shrinks s w2 w'" "frees removed K fd (os w2) (os w')"
    using delete_core [OF L c2 _ a] t(1) fr(1) by auto
  have cb: "t_cb x = Some (OnRead s)" using t(4,6) by (simp add: client_tokens_def)
  have m: "t_mode x \<noteq> M_DONE" using t(6,9) by (auto simp: queued_mode_def)
  have "Socket_onClose (echo_env reg rem K) s w = EchoClient_dtor rem K s w2"
    using t(5,7) cb m by (simp add: Socket_onClose_def invoke_def echo_env_def echo_call_def EchoClient_onRead_def
        w2_def w1_def e_def e'_def)
  moreover have "reports w w2" using fr by (auto simp: reports_def alive_def w2_def w1_def split: handler.splits)
  then have "reports w w'" using reports_trans shrinks_reports [OF del(3)] by blast
  moreover have "calm w'" if "calm w"
  proof -
    have "calm w2" using v fr t(6,8,9,10) by (intro calm_mono [OF that]) (auto split: if_splits)
    then show ?thesis using calm_shrinks del(3) by blast
  qed
  moreover have "silent s w w2" using v fr by (simp add: silent_def w2_def w1_def)
  then have "acts removed K s fd w w'" using actsI(3) [OF t(1)] del(3,4) by blast
  ultimately show ?thesis using del by auto
qed

lemma timeout_core:
  assumes L: "host added removed K ob" and c: "core ob {} {} w qs" and q: "calm w" and tm: "p_timerList w = t # ts"
  shows "\<exists>w' qs'. Proactor_timeout (echo_env reg rem K) t w = Inr w' \<and> core ob {} {} w' qs' \<and> calm w' \<and>
    set (p_timerList w') \<subseteq> set ts \<and> (\<exists>s fd. t \<in> {Rt s, Wt s} \<and> expires s w w' \<and> acts removed K s fd w w')"
proof -
  obtain x where x: "toks w t = Some x" "t_mode x \<noteq> M_NONE" "t \<noteq> Head"
    using timers_okD(2,3) [OF wfD(4) [OF coreD(1) [OF c]], of t] tm by auto
  have v: "view w t = Some (unlink x)" using view_Some [OF x(1,3)] .
  then have nq: "\<not> queued_mode (t_mode x)" using q [unfolded calm_def, rule_format, OF v] tm by auto
  obtain s fd where s: "t \<in> {Rt s, Wt s}" "socks w s = Some fd" using view_live [OF coreD(1) [OF c] v] .
  obtain u y where uy: "view w (Rt s) = Some u" "view w (Wt s) = Some y" "client_tokens ob (os w) (mem w) s fd u y"
    using core_client [OF c s(2)] .
  define x1 where "x1 = x\<lparr>t_mode := M_NONE, t_err := Error_set (t_err x) ETIMEDOUT ''timeout'' []\<rparr>"
  define w1 where "w1 = w\<lparr>p_timerList := ts, toks := (toks w)(t \<mapsto> x1)\<rparr>"
  have "t \<notin> set qs" using modes_okD(2) [OF wfD(3) [OF coreD(1) [OF c]] x(1,3)] nq by simp
  then have w1: "wf w1 qs" unfolding w1_def x1_def by (rule timeout_upd_ok [OF coreD(1) [OF c] x(1) tm])
  have v1: "view w1 = (view w)(t \<mapsto> unlink x1)"
    using view_upd [OF x(3), of "w\<lparr>p_timerList := ts\<rparr>"] by (simp add: w1_def)
  have "only ob s fd w w1" using v1 s(1) by (auto simp: only_def w1_def)
  then have c1: "core ob {} {s} w1 qs" using core_only [OF c s(2) _ w1] by simp
  have s1: "socks w1 s = Some fd" using s(2) by (simp add: w1_def)
  obtain w' qs' where del: "EchoClient_dtor rem K s w1 = Inr w'" "core ob {} {} w' qs'" "shrinks s w1 w'" "frees removed K fd (os w1) (os w')"
    using delete_core [OF L c1 s1] by auto
  have "t_cb x = Some (OnRead s) \<or> t_cb x = Some (OnWrite s)"
    using s(1) uy v x(2) nq by (auto simp: client_tokens_def writing_def)
  then have "Proactor_timeout (echo_env reg rem K) t w = EchoClient_dtor rem K s w1"
    using x(1) tm
    by (auto simp: Proactor_timeout_def invoke_def echo_env_def echo_call_def EchoClient_onRead_def EchoClient_onWrite_def
        w1_def x1_def)
  moreover have "calm w1" using v1 tm by (intro calm_mono [OF q]) (auto simp: x1_def w1_def split: if_splits)
  then have "calm w'" using calm_shrinks del(3) by blast
  moreover have "set (p_timerList w') \<subseteq> set ts" using del(3) by (simp add: shrinks_def w1_def)
  moreover have "expires s w w'"
  proof -
    have tv: "st_tv (toks w1) = st_tv (toks w)" using x(1) by (auto simp: w1_def x1_def st_tv_def fun_eq_iff)
    have "set (p_timerList w) = insert t (set (p_timerList w1))" by (simp add: w1_def tm)
    moreover have "spared s w1 (p_timerList w')" using del(3) by (simp add: shrinks_def)
    ultimately have "spared s w (p_timerList w')" using s(1) unfolding spared_def tv by auto
    moreover have "view w' = (view w)(Rt s := None, Wt s := None)" using del(3) v1 s(1) by (auto simp: shrinks_def)
    moreover have "socks w' = (socks w)(s := None)" using del(3) by (simp add: shrinks_def w1_def)
    ultimately show ?thesis using s(2) by (simp add: expires_def)
  qed
  moreover have "silent s w w1" using v1 s(1) by (auto simp: silent_def w1_def)
  then have "acts removed K s fd w w'" using actsI(3) [OF s(2)] del(3,4) by blast
  ultimately show ?thesis using del(1,2,4) s(1) by auto
qed

text \<open>The timer loop ends: every timeout deletes a client and arms nothing.\<close>

lemma timerLoop_returns:
  assumes L: "host added removed K ob"
  shows "core ob {} {} w qs \<Longrightarrow> calm w \<Longrightarrow> \<exists>w'. Proactor_timerLoop (echo_env reg rem K) now w = Some (Inr w')"
proof (induction "card (set (p_timerList w))" arbitrary: w qs rule: less_induct)
  case less
  show ?case
  proof (cases "p_timerList w")
    case Nil
    then show ?thesis by (simp add: Proactor_timerLoop.simps)
  next
    case (Cons t ts)
    note tm = wfD(4) [OF coreD(1) [OF less.prems(1)]]
    obtain x where x: "toks w t = Some x" using timers_okD(3) [OF tm, of t] Cons by auto
    obtain w1 qs1 where w1: "Proactor_timeout (echo_env reg rem K) t w = Inr w1" "core ob {} {} w1 qs1" "calm w1"
      "set (p_timerList w1) \<subseteq> set ts"
      using timeout_core [OF L less.prems Cons] by blast
    have "t \<notin> set ts" using timers_okD(1) [OF tm] Cons by auto
    then have "card (set ts) < card (set (p_timerList w))" using Cons by simp
    moreover have "card (set (p_timerList w1)) \<le> card (set ts)" using w1(4) by (simp add: card_mono)
    ultimately have "\<exists>w'. Proactor_timerLoop (echo_env reg rem K) now w1 = Some (Inr w')"
      using less.hyps [OF _ w1(2,3)] by fastforce
    then show ?thesis using Cons x w1(1) by (subst Proactor_timerLoop.simps) auto
  qed
qed

end

end
