(* ===== verification/EchoAccept.thy ===== *)
theory EchoAccept
  imports EchoEvents
begin

text \<open>New connections: accepting them keeps the invariant, whatever the peer or the system does.\<close>

section \<open>The accept call\<close>

definition fresh_fd :: "'k observer \<Rightarrow> int \<Rightarrow> 'k echo_world \<Rightarrow> bool" where
  "fresh_fd ob soc w \<longleftrightarrow> soc \<in> o_open ob (os w) \<and> (\<forall>s. socks w s \<noteq> Some soc) \<and>
     o_in ob (os w) soc = [] \<and> o_out ob (os w) soc = []"

lemma core_os:
  assumes "core ob A X w qs" and "same_obs ob (os w) k"
  shows "core ob A X (w\<lparr>os := k\<rparr>) qs"
  using core_frame [OF assms(1), of "w\<lparr>os := k\<rparr>" qs] coreD(1) [OF assms(1)] assms(2) by simp

lemma core_accs:
  assumes c: "core ob A X w qs" and a: "accs w a = Some x" "a_cb x' = a_cb x"
  shows "core ob A X (w\<lparr>accs := (accs w)(a \<mapsto> x')\<rparr>) qs"
proof -
  let ?w = "w\<lparr>accs := (accs w)(a \<mapsto> x')\<rparr>"
  have "client_ok ob ?w s fd = client_ok ob w s fd" for s fd by (simp add: client_ok_def)
  then show ?thesis using c a
    by (auto simp: core_def owners_def registered_def served_def)
qed

text \<open>The calls of \<open>SetNonBlock\<close>: none, one, or two.\<close>

lemma SetNonBlock_calls:
  assumes r: "SetNonBlock K soc nb e k = (b, e', k')"
  obtains "k' = k" | fl en where "k_getfl K soc k = (fl, en, k')"
  | fl en k1 F r en2 where "k_getfl K soc k = (fl, en, k1)" "k_setfl K soc F k1 = (r, en2, k')"
proof (cases "soc = -1")
  case False
  obtain fl en k1 where g: "k_getfl K soc k = (fl, en, k1)" by (metis prod_cases3)
  define F where "F = (if nb then or fl O_NONBLOCK else and fl (not O_NONBLOCK))"
  obtain r' en' k2 where s: "k_setfl K soc F k1 = (r', en', k2)" by (metis prod_cases3)
  have "k' = k1 \<or> k' = k2" using r g s False by (auto simp: SetNonBlock_def Let_def F_def split: if_splits)
  then show thesis using that g s by blast
qed (use r that in \<open>simp add: SetNonBlock_def\<close>)

lemma SetNonBlock_obs:
  assumes L: "conn_laws K ob" and r: "SetNonBlock K soc nb e k = (b, e', k')"
  shows "same_obs ob k k'"
  using r by (rule SetNonBlock_calls) (simp, metis conn_lawsD(3) [OF L], metis conn_lawsD(3,4) [OF L] same_obs_trans)

text \<open>The result of \<open>_accept\<close>: no descriptor, or a new one that no client has.\<close>

definition accepts ::
  "'k observer \<Rightarrow> nat \<Rightarrow> handler set \<Rightarrow> 'k echo_world \<Rightarrow> tokref list \<Rightarrow> 'k echo_world \<Rightarrow> int \<Rightarrow> bool" where
  "accepts ob a A w qs w' soc \<longleftrightarrow> core ob A {} w' qs \<and> accs w' a \<noteq> None \<and> socks w' = socks w \<and> view w' = view w \<and>
     p_timerList w' = p_timerList w \<and> p_deleted w' = p_deleted w \<and> next_obj w' = next_obj w \<and> dom (accs w') = dom (accs w) \<and>
     (soc = -1 \<or> 0 \<le> soc \<and> fresh_fd ob soc w')"

text \<open>What the system sees of it.\<close>

definition takes :: "'k kernel \<Rightarrow> 'k \<Rightarrow> 'k \<Rightarrow> int \<Rightarrow> bool" where
  "takes K k k' soc \<longleftrightarrow>
     (\<exists>fd so en addr k1. k_accept K fd k = (so, en, addr, k1) \<and> soc \<in> {so, -1} \<and>
        (if so = -1 then k' = k1 else \<exists>e b e'. SetNonBlock K so True e k1 = (b, e', k')))"

lemma accepts_acc:
  assumes r: "accepts ob a A w qs w1 soc" and x: "accs w1 a = Some x" "a_cb x' = a_cb x"
  shows "accepts ob a A w qs (w1\<lparr>accs := (accs w1)(a \<mapsto> x')\<rparr>) soc"
  using r x core_accs [of ob A "{}" w1 qs a x x'] by (auto simp: accepts_def fresh_fd_def)

lemma accepts_none: "accepts ob a A w qs w1 soc \<Longrightarrow> accepts ob a A w qs w1 (-1)"
  by (simp add: accepts_def)

lemma accepts_os:
  assumes r: "accepts ob a A w qs w1 soc" and k: "same_obs ob (os w1) k"
  shows "accepts ob a A w qs (w1\<lparr>os := k\<rparr>) soc"
  using r k core_os [of ob A "{}" w1 qs k] by (auto simp: accepts_def fresh_fd_def same_obs_def)

lemma accepts_call:
  assumes L: "conn_laws K ob" and c: "core ob A {} w qs" and x: "accs w a = Some x"
    and r: "k_accept K fd (os w) = (soc, en, addr, k)"
  shows "accepts ob a A w qs (w\<lparr>os := k\<rparr>) soc"
proof (cases "soc = -1")
  case True
  then show ?thesis using conn_lawsD(1) [OF L r] core_os [OF c] x by (simp add: accepts_def)
next
  case False
  then have k: "0 \<le> soc" "soc \<notin> o_open ob (os w)" "o_open ob k = insert soc (o_open ob (os w))"
    "o_in ob k = (o_in ob (os w))(soc := [])" "o_out ob k = (o_out ob (os w))(soc := [])" "o_reg ob k \<subseteq>\<^sub>m o_reg ob (os w)"
    using conn_lawsD(1) [OF L r] by simp_all
  let ?w = "w\<lparr>os := k\<rparr>"
  have n: "socks w s \<noteq> Some soc" for s using ownersD(2) [OF coreD(2) [OF c], of s soc] k(1,2) by auto
  have "client_ok ob ?w s f" if "socks w s = Some f" for s f
  proof -
    have "f \<noteq> soc" using n that by auto
    then have "owed ob k f = owed ob (os w) f" using k(4,5) by (simp add: owed_def fun_eq_iff)
    then show ?thesis using coreD(5) [OF c _ that] client_tokens_cong [of ob k f "os w" "mem w" s "mem w"]
      by (simp add: client_ok_def)
  qed
  moreover have "owners ob ?w" using coreD(2) [OF c] k(3) by (auto simp: owners_def)
  moreover have "registered ob ?w" using registered_mono [OF coreD(3) [OF c]] k(6) by simp
  moreover have "served A ?w" using coreD(4) [OF c] by (simp add: served_def)
  ultimately have "core ob A {} ?w qs" using coreD(1) [OF c] by (simp add: core_def)
  then show ?thesis using x k n by (simp add: accepts_def fresh_fd_def)
qed

lemma accept_core:
  assumes L: "conn_laws K ob" and c: "core ob A {} w qs" and a: "accs w a \<noteq> None"
  shows "\<exists>soc w'. Acceptor_accept K a False w = Inr (soc, None, w') \<and> accepts ob a A w qs w' soc \<and>
    takes K (os w) (os w') soc"
proof -
  obtain x where x: "accs w a = Some x" using a by blast
  define w1 where "w1 = w\<lparr>accs := (accs w)(a \<mapsto> x\<lparr>a_err := Error_clear (a_err x)\<rparr>)\<rparr>"
  have c1: "core ob A {} w1 qs" unfolding w1_def by (rule core_accs [OF c x]) simp
  have x1: "accs w1 a = Some (x\<lparr>a_err := Error_clear (a_err x)\<rparr>)" by (simp add: w1_def)
  obtain soc en addr k where r: "k_accept K (a_soc x) (os w1) = (soc, en, addr, k)" by (metis prod_cases4)
  have "accepts ob a A w1 qs (w1\<lparr>os := k\<rparr>) soc" by (rule accepts_call [OF L c1 x1 r])
  then have ac: "accepts ob a A w qs (w1\<lparr>os := k\<rparr>) soc" using x by (auto simp: accepts_def w1_def)
  show ?thesis
  proof (cases "soc = -1")
    case True
    define e where "e = (if en = EAGAIN then (Error_clear (a_err x))\<lparr>e_code := en\<rparr>
      else Error_set (Error_clear (a_err x)) en ''accept fail [%d][%s]'' [FD en, FS (k_strerror K en)])"
    let ?w = "w1\<lparr>os := k, accs := (accs w1)(a \<mapsto> x\<lparr>a_err := e\<rparr>)\<rparr>"
    have "Acceptor_accept K a False w = Inr (-1, None, ?w)"
      using x r True by (simp add: Acceptor_accept_def w1_def e_def acc_fail_def)
    moreover have "accepts ob a A w qs ?w (-1)"
      using accepts_acc [OF ac, of "x\<lparr>a_err := Error_clear (a_err x)\<rparr>" "x\<lparr>a_err := e\<rparr>"] x1 True by simp
    moreover have "takes K (os w) (os ?w) (-1)" using r True unfolding takes_def by (fastforce simp: w1_def)
    ultimately show ?thesis by blast
  next
    case False
    obtain b e k2 where nb: "SetNonBlock K soc True (Error_clear (a_err x)) k = (b, e, k2)" by (metis prod_cases3)
    let ?w = "w1\<lparr>os := k2, accs := (accs w1)(a \<mapsto> x\<lparr>a_err := e\<rparr>)\<rparr>"
    have "Acceptor_accept K a False w = Inr (if b then soc else -1, None, ?w)"
      using x r False nb by (simp add: Acceptor_accept_def w1_def)
    moreover have "accepts ob a A w qs (w1\<lparr>os := k2\<rparr>) soc"
      using accepts_os [OF ac, of k2] SetNonBlock_obs [OF L nb] by simp
    then have "accepts ob a A w qs ?w soc"
      using accepts_acc [of ob a A w qs "w1\<lparr>os := k2\<rparr>" soc "x\<lparr>a_err := Error_clear (a_err x)\<rparr>" "x\<lparr>a_err := e\<rparr>"] x1
      by simp
    then have "accepts ob a A w qs ?w (if b then soc else -1)" using accepts_none by (cases b) auto
    moreover have "takes K (os w) (os ?w) (if b then soc else -1)"
      using r False nb unfolding takes_def w1_def by (cases b) (simp, blast)+
    ultimately show ?thesis by blast
  qed
qed

section \<open>A new client\<close>

lemma new_registered:
  assumes r: "registered ob w" and s: "socks w s = None" and le: "o_reg ob k \<subseteq>\<^sub>m (o_reg ob (os w))(soc \<mapsto> HSock s)"
    and soc: "soc \<noteq> -1" and w': "os w' = k" "socks w' = (socks w)(s \<mapsto> soc)" "accs w' = accs w"
  shows "registered ob w'"
proof -
  have m: "(if f = soc then h = HSock s else o_reg ob (os w) f = Some h)" if "o_reg ob k f = Some h" for f h
    using that le by (auto simp: map_le_def dom_def split: if_splits)
  have "socks w' t = Some f \<and> f \<noteq> -1" if h: "o_reg ob (os w') f = Some (HSock t)" for f t
    using m [of f "HSock t"] h r s soc w' by (auto simp: registered_def split: if_splits)
  moreover have "accs w' a \<noteq> None" if h: "o_reg ob (os w') f = Some (HAcc a)" for f a
    using m [of f "HAcc a"] h r w' by (auto simp: registered_def split: if_splits)
  ultimately show ?thesis by (simp add: registered_def)
qed

text \<open>What the system sees of a new client: its registration and its first read.\<close>

definition joins ::
  "(int \<Rightarrow> handler \<Rightarrow> 'k \<Rightarrow> 'k \<Rightarrow> bool) \<Rightarrow> 'k kernel \<Rightarrow> int \<Rightarrow> 'k echo_world \<Rightarrow> 'k echo_world \<Rightarrow> bool" where
  "joins added K soc w w' \<longleftrightarrow>
     (\<exists>w1. socks w1 = (socks w)(next_obj w \<mapsto> soc) \<and> next_obj w1 = next_obj w + 1 \<and> p_deleted w1 = p_deleted w \<and>
        (\<forall>t. t \<noteq> Rt (next_obj w) \<longrightarrow> t \<noteq> Wt (next_obj w) \<longrightarrow> view w1 t = view w t) \<and>
        (if soc = -1 then os w1 = os w else added soc (HSock (next_obj w)) (os w) (os w1)) \<and> reads K (next_obj w) soc w1 w')"

text \<open>One round of the accept loop: the call, and the new client.\<close>

definition admits ::
  "(int \<Rightarrow> handler \<Rightarrow> 'k \<Rightarrow> 'k \<Rightarrow> bool) \<Rightarrow> 'k kernel \<Rightarrow> bool \<Rightarrow> 'k echo_world \<Rightarrow> 'k echo_world \<Rightarrow> bool" where
  "admits added K again w w' \<longleftrightarrow>
     (\<exists>soc w1. takes K (os w) (os w1) soc \<and> socks w1 = socks w \<and> view w1 = view w \<and> p_deleted w1 = p_deleted w \<and>
        next_obj w1 = next_obj w \<and> (w' = w1 \<and> \<not> again \<or> joins added K soc w1 w' \<and> (again \<longrightarrow> soc \<noteq> -1)))"

context echo_poller
begin

lemma new_core:
  assumes L: "host added removed K ob" and c: "core ob A {} w qs" and soc: "soc = -1 \<or> soc \<noteq> -1 \<and> fresh_fd ob soc w"
  defines "s \<equiv> next_obj w"
  shows "\<exists>w'. EchoClient_ctor reg K s soc (w\<lparr>next_obj := s + 1\<rparr>) = Inr w' \<and> core ob A {s} w' qs \<and> HSock s \<notin> A \<and>
    idle w' s \<and> socks w' = (socks w)(s \<mapsto> soc) \<and> owed ob (os w') soc [] \<and> p_timerList w' = p_timerList w \<and>
    p_deleted w' = p_deleted w \<and> accs w' = accs w \<and> (\<forall>t. t \<noteq> Rt s \<longrightarrow> t \<noteq> Wt s \<longrightarrow> view w' t = view w t) \<and>
    next_obj w' = s + 1 \<and> (if soc = -1 then os w' = os w else added soc (HSock s) (os w) (os w'))"
proof -
  have s: "socks w s = None"
    using ownersD(1) [OF coreD(2) [OF c], of s] by (cases "socks w s") (auto simp: s_def)
  then have a: "HSock s \<notin> A" using coreD(4) [OF c] by (auto simp: served_def)
  let ?w0 = "w\<lparr>next_obj := s + 1\<rparr>"
  have "wf ?w0 qs" using coreD(1) [OF c] by simp
  then obtain e k where ct: "Socket_ctor reg K s soc ?w0 = Inr ((Socket_new K s soc ?w0)\<lparr>p_err := e, os := k\<rparr>)"
    and wf': "wf ((Socket_new K s soc ?w0)\<lparr>p_err := e, os := k\<rparr>) qs"
    and k0: "if soc = -1 then k = os ?w0 else added soc (HSock s) (os ?w0) k"
    using ctor_ok [of ?w0 qs s K soc, OF \<open>wf ?w0 qs\<close>] s by auto
  have k: "if soc = -1 then k = os w else added soc (HSock s) (os w) k" using k0 by (cases "soc = -1") simp_all
  define w' where "w' = (Socket_new K s soc ?w0)\<lparr>p_err := e, os := k\<rparr>"
  have fr: "socks w' = (socks w)(s \<mapsto> soc)" "accs w' = accs w" "p_timerList w' = p_timerList w" "p_deleted w' = p_deleted w"
    "os w' = k" "mem w' = mem w" "next_obj w' = Suc s" by (simp_all add: w'_def Socket_new_def)
  have obs: "o_open ob k = o_open ob (os w)" "o_in ob k = o_in ob (os w)" "o_out ob k = o_out ob (os w)"
    using k poll_lawsD(1) [OF hostD(3) [OF L], of soc "HSock s" "os w" k] by (auto split: if_splits)
  have v: "\<forall>t. t \<noteq> Rt s \<longrightarrow> t \<noteq> Wt s \<longrightarrow> view w' t = view w t" by (simp add: w'_def Socket_new_def view_def)
  have i: "idle w' s" by (simp add: idle_def w'_def Socket_new_def)
  have ow: "owed ob (os w') soc []" using soc obs fr(5) by (auto simp: owed_def fresh_fd_def)
  have "registered ob w'"
  proof (cases "soc = -1")
    case True
    then show ?thesis using coreD(3) [OF c] k fr(1,2,5) s by (auto simp: registered_def)
  next
    case False
    then have "o_reg ob k \<subseteq>\<^sub>m (o_reg ob (os w))(soc \<mapsto> HSock s)"
      using k poll_lawsD(1) [OF hostD(3) [OF L], of soc "HSock s" "os w" k] by simp
    then show ?thesis using new_registered [OF coreD(3) [OF c] s] False fr by blast
  qed
  moreover have "owners ob w'"
    using coreD(2) [OF c] soc obs fr(1,5,7) s unfolding owners_def fresh_fd_def s_def by (auto simp: less_Suc_eq)
  moreover have "served A w'"
    using coreD(4) [OF c] a v fr(1,2) unfolding served_def by (auto split: if_splits)
  moreover have "client_ok ob w' t f" if t: "t \<noteq> s" "socks w' t = Some f" for t f
  proof -
    have "client_ok ob w t f" using coreD(5) [OF c] t fr(1) by simp
    moreover have "view w' (Rt t) = view w (Rt t)" "view w' (Wt t) = view w (Wt t)" using v t(1) by auto
    ultimately show ?thesis
      using client_tokens_cong [OF owed_cong, of ob k f "os w" "mem w" t "mem w"] obs fr(5,6) by (simp add: client_ok_def)
  qed
  ultimately have "core ob A {s} w' qs" using wf' by (simp add: core_def w'_def)
  moreover have "if soc = -1 then os w' = os w else added soc (HSock s) (os w) (os w')" using k fr(5) by simp
  ultimately show ?thesis using ct a i ow v fr by (auto simp: EchoClient_ctor_def w'_def)
qed

lemma onAccept_core:
  assumes L: "host added removed K ob" and c: "core ob A {} w qs" and soc: "soc = -1 \<or> soc \<noteq> -1 \<and> fresh_fd ob soc w"
  shows "\<exists>w' qs'. Server_onAccept reg K soc w = Inr w' \<and> core ob A {} w' qs' \<and> reports w w' \<and> accs w' = accs w \<and>
    (soc = -1 \<and> calm w \<longrightarrow> calm w') \<and> joins added K soc w w'"
proof -
  define s where "s = next_obj w"
  obtain w1 where w1: "EchoClient_ctor reg K s soc (w\<lparr>next_obj := s + 1\<rparr>) = Inr w1" "core ob A {s} w1 qs" "HSock s \<notin> A"
    "idle w1 s" "socks w1 = (socks w)(s \<mapsto> soc)" "owed ob (os w1) soc []" "p_timerList w1 = p_timerList w"
    "p_deleted w1 = p_deleted w" "accs w1 = accs w" "\<forall>t. t \<noteq> Rt s \<longrightarrow> t \<noteq> Wt s \<longrightarrow> view w1 t = view w t"
    "next_obj w1 = s + 1" "if soc = -1 then os w1 = os w else added soc (HSock s) (os w) (os w1)"
    using new_core [OF L c soc] unfolding s_def by blast
  have s1: "socks w1 s = Some soc" using w1(5) by simp
  have dead: "socks w s = None"
    using ownersD(1) [OF coreD(2) [OF c], of s] by (cases "socks w s") (auto simp: s_def)
  obtain w' qs' y where w': "EchoClient_startRecv K s w1 = Inr w'" "core ob A {} w' qs'" "settled w1 qs (Rt s) w' qs' y"
    "reads K s soc w1 w'"
    using startRecv_core [OF hostD(1,2) [OF L] w1(2) s1 w1(3,4,6)] by blast
  note st = settledD [OF w'(3)]
  have "reports w w1" using w1(5,8,9) by (auto simp: reports_def alive_def split: handler.splits)
  then have rep: "reports w w'" using reports_trans settled_report [OF st(3)] by blast
  have "calm w'" if q: "soc = -1" "calm w"
  proof -
    have nt: "Rt s \<notin> set (p_timerList w)" using wf_dead(5) [OF coreD(1) [OF c] dead] .
    have "t \<notin> set (p_timerList w') \<and> (\<exists>r. t = Rt r \<and> socks w' r = Some (-1))"
      if t: "view w' t = Some z" "queued_mode (t_mode z)" for t z
    proof (cases "t = Rt s")
      case True
      then have "z = y" using t(1) st(2) by simp
      then show ?thesis using st(4,7) t(2) True w1(5,7) nt q(1) by simp
    next
      case False
      then have v: "view w1 t = Some z" using t(1) st(2) by simp
      obtain u where "view w1 (Wt s) = Some (unlink u)" "t_mode u = M_NONE" using w1(4) by (rule idleD)
      then have "t \<noteq> Wt s" using v t(2) by auto
      then have "view w t = Some z" using v w1(10) False by simp
      then obtain r where "t = Rt r" "socks w r = Some (-1)" "t \<notin> set (p_timerList w)"
        using q(2) t(2) unfolding calm_def by blast
      then show ?thesis using st(4,6) w1(5,7) False by auto
    qed
    then show ?thesis by (auto simp: calm_def)
  qed
  moreover have "Server_onAccept reg K soc w = Inr w'" using w1(1) w'(1) by (simp add: Server_onAccept_def s_def)
  moreover have "accs w' = accs w" using st(3) w1(9) by (simp add: same_rest_def)
  moreover have "joins added K soc w w'" using w1(5,8,10-12) w'(4) unfolding joins_def s_def by blast
  ultimately show ?thesis using w'(2) rep by blast
qed

end

end
