(* ===== verification/EchoService.thy ===== *)
theory EchoService
  imports Prelude "HOL-Library.Sublist"
begin

text \<open>
  What an echo server promises on a connection, whatever it is built on, and what a client that is
  connected to it over a network that keeps the order of bytes may conclude. The servers of this
  repository provide the contract; the load generator relies on it.
\<close>

text \<open>What was sent back is what was received but for at most \<open>n\<close> bytes at the end.\<close>

definition relays :: "nat \<Rightarrow> byte list \<Rightarrow> byte list \<Rightarrow> bool" where
  "relays n i out \<longleftrightarrow> (\<exists>rest. i = out @ rest \<and> List.length rest \<le> n)"

lemma relays_same [simp, intro]: "relays n bs bs"
  by (simp add: relays_def)

lemma relays_append: "List.length rest \<le> n \<Longrightarrow> relays n (out @ rest) out"
  by (auto simp: relays_def)

lemma relays_take: "i = out @ ws \<Longrightarrow> List.length ws \<le> n \<Longrightarrow> relays n i (out @ take m ws)"
  by (auto simp: relays_def intro!: exI [of _ "drop m ws"])

lemma relays_prefix: "relays n i out \<Longrightarrow> prefix out i"
  by (auto simp: relays_def)

lemma relays_length: "relays n i out \<Longrightarrow> List.length out \<le> List.length i \<and> List.length i \<le> List.length out + n"
  by (auto simp: relays_def)

text \<open>
  \<open>reach\<close>: the states of the server; \<open>conn\<close>: the connections it serves in a state; \<open>got\<close> and
  \<open>sent\<close>: the bytes received and sent on one.
\<close>

locale echo_service =
  fixes reach :: "'s \<Rightarrow> bool" and conn :: "'s \<Rightarrow> 'c \<Rightarrow> bool"
    and got sent :: "'s \<Rightarrow> 'c \<Rightarrow> byte list" and room :: nat
  assumes relay: "reach s \<Longrightarrow> conn s c \<Longrightarrow> relays room (got s c) (sent s c)"
begin

text \<open>A peer that wrote \<open>ws\<close> and read \<open>rs\<close>: it reads only what it wrote, in order.\<close>

lemma peer_reads_own:
  assumes "reach s" and "conn s c" and "prefix (got s c) ws" and "prefix rs (sent s c)"
  shows "prefix rs ws"
  using assms relays_prefix [OF relay] prefix_order.trans by metis

text \<open>When everything the peer wrote has arrived and everything sent back was read, a buffer at most is missing.\<close>

lemma peer_misses_at_most:
  assumes "reach s" and "conn s c" and "got s c = ws" and "sent s c = rs"
  shows "List.length ws \<le> List.length rs + room"
  using relays_length [OF relay [OF assms(1,2)]] assms(3,4) by simp

end

end
