(* ===== verification/EchoServing.thy ===== *)
theory EchoServing
  imports EchoAccept EchoService
begin

text \<open>
  The echo server as a client of the event loops: the interfaces meet here, and what the server does
  in every reachable state follows.
\<close>

section \<open>The accept loop\<close>

context echo_poller
begin

lemma round_core:
  assumes L: "host added removed K ob" and c: "core ob A {} w qs" and a: "accs w a \<noteq> None"
  shows "\<exists>b w' qs'. Acceptor_round (echo_env reg rem K) a w = Inr (b, w') \<and> core ob A {} w' qs' \<and> reports w w' \<and>
    accs w' a \<noteq> None \<and> admits added K b w w'"
proof -
  let ?E = "echo_env reg rem K"
  have K: "e_kern ?E = K" by (simp add: echo_env_def)
  obtain soc w1 where r: "Acceptor_accept K a False w = Inr (soc, None, w1)" "accepts ob a A w qs w1 soc"
    "takes K (os w) (os w1) soc"
    using accept_core [OF hostD(2) [OF L] c a] by blast
  have c1: "core ob A {} w1 qs" "dom (accs w1) = dom (accs w)" "socks w1 = socks w" "p_deleted w1 = p_deleted w"
    "view w1 = view w" "next_obj w1 = next_obj w"
    using r(2) by (simp_all add: accepts_def)
  have rep1: "reports w w1" using c1(2-4) by (auto simp: reports_def alive_def dom_def set_eq_iff split: handler.splits)
  obtain x where x: "accs w1 a = Some x" using r(2) by (auto simp: accepts_def)
  then obtain f where f: "a_cb x = Some f" using served_accs [OF coreD(4) [OF c1(1)]] by blast
  have rep2: "reports w w'" if "reports w1 w'" for w' using reports_trans rep1 that by blast
  show ?thesis
  proof (cases "soc < 0")
    case True
    then have m1: "soc = -1" using r(2) by (auto simp: accepts_def)
    obtain w' qs' where w': "Server_onAccept reg K (-1) w1 = Inr w'" "core ob A {} w' qs'" "reports w1 w'" "accs w' = accs w1"
      "joins added K soc w1 w'"
      using m1 onAccept_core [OF L c1(1), of "-1"] by auto
    have "Acceptor_round ?E a w = (if e_code (a_err x) = EAGAIN then Inr (False, w1) else Inr (False, w'))"
      using r(1) m1 x f w'(1) K by (simp add: Acceptor_round_def acc_invoke_def echo_env_def)
    moreover have "admits added K False w w1" "admits added K False w w'"
      unfolding admits_def using r(3) c1(3-6) w'(5) by blast+
    ultimately show ?thesis using w'(2-4) c1(1) rep1 rep2 x by (cases "e_code (a_err x) = EAGAIN") auto
  next
    case False
    define w2 where "w2 = w1\<lparr>accs := (accs w1)(a \<mapsto> x\<lparr>a_err := Error_clear (a_err x)\<rparr>)\<rparr>"
    have ac: "accepts ob a A w qs w2 soc" unfolding w2_def by (rule accepts_acc [OF r(2) x]) simp
    then have c2: "core ob A {} w2 qs" "fresh_fd ob soc w2" using False by (auto simp: accepts_def)
    obtain w' qs' where w': "Server_onAccept reg K soc w2 = Inr w'" "core ob A {} w' qs'" "reports w2 w'" "accs w' = accs w2"
      "joins added K soc w2 w'"
      using onAccept_core [OF L c2(1), of soc] c2(2) False by auto
    have "Acceptor_round ?E a w = Inr (True, w')"
      using r(1) False x f w'(1) K by (simp add: Acceptor_round_def acc_invoke_def echo_env_def w2_def)
    moreover have "reports w1 w2" using x by (auto simp: reports_def alive_def w2_def split: handler.splits)
    then have "reports w w'" using rep2 reports_trans w'(3) by blast
    moreover have "admits added K True w w'"
    proof -
      have "socks w2 = socks w" "view w2 = view w" "p_deleted w2 = p_deleted w" "next_obj w2 = next_obj w" "os w2 = os w1"
        using c1(3-6) by (simp_all add: w2_def)
      then show ?thesis unfolding admits_def using r(3) w'(5) False by (intro exI [of _ soc] exI [of _ w2]) auto
    qed
    moreover have "accs w' a \<noteq> None" using w'(4) by (simp add: w2_def)
    ultimately show ?thesis using w'(2) by blast
  qed
qed

text \<open>What every round keeps holds when the loop ends.\<close>

lemma accept_loop_keeps:
  assumes L: "host added removed K ob" and r: "Acceptor_onRead (echo_env reg rem K) a w = Some r"
    and c: "core ob A {} w qs" and a: "accs w a \<noteq> None" and P: "P w"
    and step: "\<And>w qs b w'. core ob A {} w qs \<Longrightarrow> P w \<Longrightarrow> admits added K b w w' \<Longrightarrow> P w'"
  shows "\<exists>w' qs'. r = Inr w' \<and> core ob A {} w' qs' \<and> reports w w' \<and> P w'"
proof -
  have "E' = echo_env reg rem K \<longrightarrow> (\<forall>qs. core ob A {} w qs \<longrightarrow> accs w a \<noteq> None \<longrightarrow> P w \<longrightarrow>
      (\<exists>w' qs'. r = Inr w' \<and> core ob A {} w' qs' \<and> reports w w' \<and> P w'))"
    if "Acceptor_onRead E' a w = Some r" for E' a w r
  proof (rule Acceptor_onRead.raw_induct [OF _ that], goal_cases)
    case (1 rec E' a w r)
    show ?case
    proof (intro impI allI)
      fix qs
      assume e: "E' = echo_env reg rem K" and c: "core ob A {} w qs" and a: "accs w a \<noteq> None" and p: "P w"
      obtain b w1 qs1 where w1: "Acceptor_round E' a w = Inr (b, w1)" "core ob A {} w1 qs1" "reports w w1" "accs w1 a \<noteq> None"
        "admits added K b w w1"
        using round_core [OF L c a] e by blast
      note p1 = step [OF c p w1(5)]
      show "\<exists>w' qs'. r = Inr w' \<and> core ob A {} w' qs' \<and> reports w w' \<and> P w'"
      proof (cases b)
        case True
        then have "rec E' a w1 = Some r" using 1(2) w1(1) by simp
        then obtain w' qs' where "r = Inr w'" "core ob A {} w' qs'" "reports w1 w'" "P w'"
          using 1(1) [of E' a w1 r] e w1(2,4) p1 by blast
        then show ?thesis using reports_trans [OF w1(3)] by blast
      next
        case False
        then show ?thesis using 1(2) w1 p1 by auto
      qed
    qed
  qed
  then show ?thesis using r c a P by blast
qed

lemma accept_loop:
  assumes "host added removed K ob" and "Acceptor_onRead (echo_env reg rem K) a w = Some r"
    and "core ob A {} w qs" and "accs w a \<noteq> None"
  shows "\<exists>w' qs'. r = Inr w' \<and> core ob A {} w' qs' \<and> reports w w'"
  using accept_loop_keeps [OF assms, of "\<lambda>_. True"] by blast

end

section \<open>The server meets the event loops\<close>

definition echo_J ::
  "(int \<Rightarrow> handler \<Rightarrow> 'k \<Rightarrow> 'k \<Rightarrow> bool) \<Rightarrow> ('k \<Rightarrow> 'k \<Rightarrow> bool) \<Rightarrow> 'k kernel \<Rightarrow> 'k observer \<Rightarrow> handler set \<Rightarrow> 'k echo_world \<Rightarrow> bool" where
  "echo_J added removed K ob A w \<longleftrightarrow> host added removed K ob \<and> (\<exists>qs. core ob A {} w qs)"

lemma echo_JD:
  assumes "echo_J added removed K ob A w"
  obtains qs where "host added removed K ob" "core ob A {} w qs"
  using assms by (auto simp: echo_J_def)

lemma drained_queue:
  assumes "wf w qs" and "drained w"
  shows "qs = []"
proof (cases qs)
  case (Cons t ts)
  then show ?thesis using queue_front_ok [OF wfD(1) [OF assms(1)]] queue_ok_distinct [OF wfD(1) [OF assms(1)]] assms(2)
    by (auto simp: drained_def)
qed

lemma drained_calm:
  assumes c: "core ob A X w qs" and d: "drained w" and v: "view w t = Some z"
  shows "\<not> queued_mode (t_mode z)"
proof -
  obtain x where x: "toks w t = Some x" "t \<noteq> Head" "z = unlink x" using v by (auto dest: view_SomeD)
  then show ?thesis using modes_okD(2) [OF wfD(3) [OF coreD(1) [OF c]] x(1,2)] drained_queue [OF coreD(1) [OF c] d] by simp
qed

lemma core_extend:
  assumes c: "core ob A {} w qs" and d: "drained w" and h: "alive h w"
  shows "core ob (insert h A) {} w qs"
proof -
  have "served (insert h A) w"
    using coreD(4) [OF c] drained_calm [OF c d] h by (auto simp: served_def alive_def split: handler.splits)
  with c show ?thesis by (simp add: core_def)
qed

lemma core_signal: "core ob A X w qs \<Longrightarrow> core ob A X (snd (SigHandler n w)) qs"
  using core_frame [of ob A X w qs "w\<lparr>p_stop := True\<rparr>" qs]
  by (simp add: SigHandler_cases Proactor_stop_def coreD(1))

lemma core_deleted: "core ob A X w qs \<Longrightarrow> core ob A X (w\<lparr>p_deleted := d\<rparr>) qs"
  using core_frame [of ob A X w qs "w\<lparr>p_deleted := d\<rparr>" qs] by (simp add: coreD(1))

lemma view_signal: "view (snd (SigHandler n w)) = view w"
  by (simp add: SigHandler_cases Proactor_stop_def)

lemma calm_frame [simp]: "calm (w\<lparr>os := k\<rparr>) = calm w" "calm (snd (SigHandler n w)) = calm w"
  by (simp_all add: calm_def view_signal)

lemma calm_accs [simp]: "calm (w\<lparr>accs := c\<rparr>) = calm w"
  by (simp add: calm_def)

context echo_poller
begin

sublocale server: proactor_client "echo_env reg rem K" "echo_J added removed K ob" calm for K ob
proof (unfold_locales, goal_cases)
  case (1 A w)
  then obtain qs where "core ob A {} w qs" by (rule echo_JD)
  then show ?case using queue_front_ok [OF wfD(1) [OF coreD(1)]] by blast
next
  case (2 A w t)
  then show ?case using complete_core unfolding echo_J_def by blast
next
  case (3 A w)
  then show ?case using drained_calm unfolding echo_J_def calm_def by blast
next
  case (4 A w h)
  then show ?case using core_extend unfolding echo_J_def by blast
next
  case (5 A w B)
  then show ?case using core_weaken unfolding echo_J_def by blast
next
  case (6 w t ts)
  then show ?case using timeout_core unfolding echo_J_def by blast
next
  case (7 A w t)
  then show ?case using timers_okD(3) [OF wfD(4) [OF coreD(1)]] by (fastforce elim!: echo_JD)
next
  case (8 h A w r)
  obtain qs where L: "host added removed K ob" and c: "core ob (insert h A) {} w qs" using 8(1) by (rule echo_JD)
  let ?w = "w\<lparr>p_deleted := []\<rparr>"
  have c0: "core ob (insert h A) {} ?w qs" using core_deleted [OF c] .
  show ?case
  proof (cases h)
    case (HSock s)
    then have "r = Socket_onRead K s ?w" using 8(3) by (simp add: handler_onRead_def echo_env_def)
    then show ?thesis using onRead_core [OF hostD(1) [OF L], of s A ?w qs] c0 8(2) HSock L unfolding echo_J_def by blast
  next
    case (HAcc a)
    then have a: "accs ?w a \<noteq> None" using coreD(4) [OF c0] by (auto simp: served_def)
    have "Acceptor_onRead (echo_env reg rem K) a ?w = Some r" using 8(3) HAcc by (simp add: handler_onRead_def)
    from accept_loop [OF L this core_weaken [OF c0, of A "{}"] a] show ?thesis
      using L unfolding echo_J_def by blast
  qed
next
  case (9 h A w)
  then show ?case by (auto simp: served_def alive_def elim!: echo_JD dest!: coreD(4) split: handler.splits)
next
  case (10 h A w)
  obtain qs where L: "host added removed K ob" and c: "core ob (insert h A) {} w qs" using 10(1) by (rule echo_JD)
  show ?case
  proof (cases h)
    case (HSock s)
    then show ?thesis using onWrite_core [OF hostD(1) [OF L], of s A w qs] c 10(2) L
      by (auto simp: handler_onWrite_def echo_env_def echo_J_def)
  next
    case (HAcc a)
    then obtain x where "accs w a = Some x" using coreD(4) [OF c] by (auto simp: served_def)
    then show ?thesis using HAcc L core_weaken [OF c, of A "{}"]
      by (auto simp: handler_onWrite_def Acceptor_onWrite_def echo_J_def)
  qed
next
  case (11 h A w)
  obtain qs where L: "host added removed K ob" and c: "core ob (insert h A) {} w qs" using 11(1) by (rule echo_JD)
  show ?case
  proof (cases h)
    case (HSock s)
    then show ?thesis using onClose_core [OF L, of s A w qs] c 11(2,3) L
      by (auto simp: handler_onClose_def echo_J_def)
  next
    case (HAcc a)
    then obtain x where x: "accs w a = Some x" using coreD(4) [OF c] by (auto simp: served_def)
    then obtain f where f: "a_cb x = Some f" using served_accs [OF coreD(4) [OF c]] by blast
    define w1 where "w1 = w\<lparr>accs := (accs w)(a \<mapsto> x\<lparr>a_err := Error_set (a_err x) ECONNRESET ''closed'' []\<rparr>)\<rparr>"
    have c1: "core ob A {} w1 qs" unfolding w1_def by (rule core_accs [OF core_weaken [OF c, of A "{}"] x]) auto
    have q1: "calm w1" using 11(2) by (simp add: w1_def)
    obtain w' qs' where w': "Server_onAccept reg K (-1) w1 = Inr w'" "core ob A {} w' qs'" "calm w'"
      using onAccept_core [OF L c1, of "-1"] q1 by auto
    have "handler_onClose (echo_env reg rem K) h w = Inr w'"
      using HAcc x f w'(1) by (simp add: handler_onClose_def Acceptor_onClose_def acc_invoke_def w1_def echo_env_def)
    then show ?thesis using w' L by (auto simp: echo_J_def)
  qed
next
  case (12 A w)
  obtain qs where L: "host added removed K ob" and c: "core ob A {} w qs" using 12 by (rule echo_JD)
  then show ?case using core_os [OF c conn_lawsD(5) [OF hostD(2) [OF L]]]
    by (auto simp: echo_J_def echo_env_def)
next
  case (13 A w n)
  obtain qs where L: "host added removed K ob" and c: "core ob A {} w qs" using 13 by (rule echo_JD)
  from core_signal [OF c, of n] show ?case using L by (auto simp: echo_J_def echo_env_def)
qed

lemma polls_ok:
  assumes w: "wait_law (ret, en, evs, sigs, k) ob (os w)" and j: "echo_J added removed K ob {} w" and q: "calm w"
  shows "server.polls K ob w (take (nat ret) evs) k"
proof -
  let ?hs = "map snd (take (nat ret) evs)"
  have d: "distinct ?hs" "set ?hs \<subseteq> ran (o_reg ob k)" and k: "same_obs ob (os w) k"
    using w by (simp_all add: wait_law_def Let_def)
  obtain qs where L: "host added removed K ob" and c: "core ob {} {} w qs" using j by (rule echo_JD)
  have c1: "core ob {} {} (w\<lparr>os := k\<rparr>) qs" using core_os [OF c k] .
  have reg: "socks w s = Some fd \<and> fd \<noteq> -1" if "o_reg ob k fd = Some (HSock s)" for fd s
    using coreD(3) [OF c1] that by (simp add: registered_def)
  have acc: "accs w a \<noteq> None" if "o_reg ob k fd = Some (HAcc a)" for fd a
    using coreD(3) [OF c1] that by (auto simp: registered_def)
  have "socks w s \<noteq> None \<and> (\<forall>t\<in>{Rt s, Wt s}. \<forall>x. view w t = Some x \<longrightarrow> \<not> queued_mode (t_mode x))"
    if "HSock s \<in> set ?hs" for s
  proof -
    have "HSock s \<in> ran (o_reg ob k)" using that d(2) by blast
    then obtain fd where "socks w s = Some fd" "fd \<noteq> -1" using reg unfolding ran_def by blast
    then show ?thesis using q unfolding calm_def by fastforce
  qed
  moreover have "accs w a \<noteq> None" if "HAcc a \<in> set ?hs" for a
  proof -
    have "HAcc a \<in> ran (o_reg ob k)" using that d(2) by blast
    then show ?thesis using acc unfolding ran_def by blast
  qed
  ultimately have "served (set ?hs) (w\<lparr>os := k\<rparr>)" using coreD(4) [OF c1] by (simp add: served_def)
  then have "core ob (set ?hs) {} (w\<lparr>os := k\<rparr>) qs" using c1 by (simp add: core_def)
  then show ?thesis using L q d(1) by (auto simp: server.polls_def echo_J_def)
qed

end

section \<open>Startup\<close>

text \<open>Before the listening socket is registered: no client, no registration, one acceptor.\<close>

definition started :: "'k observer \<Rightarrow> 'k echo_world \<Rightarrow> bool" where
  "started ob w \<longleftrightarrow> wf w [] \<and> socks w = Map.empty \<and> p_deleted w = [] \<and> o_reg ob (os w) = Map.empty \<and> (\<exists>x. accs w = [0 \<mapsto> x])"

lemma le_empty: "m \<subseteq>\<^sub>m Map.empty \<Longrightarrow> m = Map.empty"
  by (auto simp: map_le_def dom_def fun_eq_iff)

lemma started_os: "started ob w \<Longrightarrow> same_obs ob (os w) k \<Longrightarrow> started ob (w\<lparr>os := k\<rparr>)"
  using le_empty by (auto simp: started_def same_obs_def)

lemma started_accs: "started ob w \<Longrightarrow> started ob (w\<lparr>accs := (accs w)(0 \<mapsto> x)\<rparr>)"
  by (auto simp: started_def)

lemma opens_reg: "opens ob k (fd, en, k') \<Longrightarrow> o_reg ob k = Map.empty \<Longrightarrow> o_reg ob k' = Map.empty"
  using le_empty by (auto simp: opens_def same_obs_def split: if_splits)

lemma setup_lawsD:
  assumes "setup_laws K ob"
  shows "opens ob k (k_socket K k)" "opens ob k (k_poll_create K k)"
    "k_reuseaddr K fd v k = (r, en, k') \<Longrightarrow> same_obs ob k k'" "k_bind K fd a k = (r, en, k') \<Longrightarrow> same_obs ob k k'"
    "k_listen K fd n k = (r, en, k') \<Longrightarrow> same_obs ob k k'"
  using assms unfolding setup_laws_def by (simp, simp, (metis snd_conv)+)

lemma acc_fail_started:
  assumes "started ob w"
  shows "\<exists>w'. acc_fail K 0 f en w = Inr w' \<and> started ob w'"
proof -
  obtain x where "accs w = [0 \<mapsto> x]" using assms by (auto simp: started_def)
  then show ?thesis using started_accs [OF assms] by (simp add: acc_fail_def)
qed

lemma listen'_started:
  fixes w :: "'a echo_world"
  assumes L: "setup_laws K ob" "conn_laws K ob" and w: "started ob w"
  shows "\<exists>b w'. Acceptor_listen' K 0 ip port backlog w = Inr (b, w') \<and> started ob w'"
proof -
  define stop where "stop = (\<lambda>r :: fault + 'a echo_world. bindS r (\<lambda>w. Inr (False, w)))"
  have fail: "\<exists>b w'. stop (acc_fail K 0 f en v) = Inr (b, w') \<and> started ob w'" if "started ob v" for f en v
    using acc_fail_started [OF that, of K f en] by (auto simp: stop_def)
  have get: "\<exists>x. acc_get 0 v = Inr x \<and> accs v 0 = Some x" if "started ob v" for v
    using that by (auto simp: started_def acc_get_def)
  obtain soc en k where r1: "k_socket K (os w) = (soc, en, k)" by (metis prod_cases3)
  have s1: "started ob (w\<lparr>os := k\<rparr>)"
    using w opens_reg [of ob "os w" soc en k] setup_lawsD(1) [OF L(1), of "os w"] r1 by (auto simp: started_def)
  obtain x where x: "accs w 0 = Some x" using get [OF w] by blast
  define w1 where "w1 = w\<lparr>os := k, accs := (accs w)(0 \<mapsto> x\<lparr>a_soc := soc\<rparr>)\<rparr>"
  have s2: "started ob w1" using started_accs [OF s1] by (simp add: w1_def)
  obtain r en2 k2 where r2: "k_reuseaddr K soc 0 k = (r, en2, k2)" by (metis prod_cases3)
  have s3: "started ob (w1\<lparr>os := k2\<rparr>)"
    using started_os [OF s2, of k2] setup_lawsD(3) [OF L(1) r2] by (simp add: w1_def)
  obtain b e k3 where r3: "SetNonBlock K soc True (a_err x) k2 = (b, e, k3)" by (metis prod_cases3)
  define w2 where "w2 = w1\<lparr>os := k3, accs := (accs w1)(0 \<mapsto> x\<lparr>a_soc := soc, a_err := e\<rparr>)\<rparr>"
  have "started ob (w1\<lparr>os := k3\<rparr>)" using started_os [OF s3, of k3] SetNonBlock_obs [OF L(2) r3] by simp
  then have s4: "started ob w2" using started_accs [of ob "w1\<lparr>os := k3\<rparr>"] by (simp add: w2_def)
  obtain r' en4 k4 where r4: "k_bind K soc (MakeSockAddrIn K ip port) k3 = (r', en4, k4)" by (metis prod_cases3)
  have s5: "started ob (w2\<lparr>os := k4\<rparr>)"
    using started_os [OF s4, of k4] setup_lawsD(4) [OF L(1) r4] by (simp add: w2_def)
  obtain r'' en5 k5 where r5: "k_listen K soc backlog k4 = (r'', en5, k5)" by (metis prod_cases3)
  have s6: "started ob (w2\<lparr>os := k5\<rparr>)"
    using started_os [OF s5, of k5] setup_lawsD(5) [OF L(1) r5] by simp
  have "Acceptor_listen' K 0 ip port backlog w =
      (if soc = -1 then stop (acc_fail K 0 ''create socket fail [%d][%s]'' en w1)
       else if r \<noteq> 0 then stop (acc_fail K 0 ''setsockopt fail [%d][%s]'' en2 (w1\<lparr>os := k2\<rparr>))
       else if \<not> b then Inr (False, w2)
       else if r' \<noteq> 0 then stop (acc_fail K 0 ''bind fail [%d][%s]'' en4 (w2\<lparr>os := k4\<rparr>))
       else if r'' \<noteq> 0 then stop (acc_fail K 0 ''listen fail [%d][%s]'' en5 (w2\<lparr>os := k5\<rparr>))
       else Inr (True, w2\<lparr>os := k5\<rparr>))"
    using x by (simp add: Acceptor_listen'_def r1 r2 r3 r4 r5 w1_def w2_def stop_def)
  moreover define good where "good = (\<lambda>r :: fault + bool \<times> 'a echo_world. \<exists>b w'. r = Inr (b, w') \<and> started ob w')"
  have "good (stop (acc_fail K 0 f en v))" if "started ob v" for f en v
    unfolding good_def by (rule fail [OF that])
  moreover have "good (Inr (b, v))" if "started ob v" for b v using that by (simp add: good_def)
  ultimately have "good (Acceptor_listen' K 0 ip port backlog w)" using s2 s3 s4 s5 s6 by simp
  then show ?thesis by (simp add: good_def)
qed

lemma started_core:
  assumes w: "started ob w" and x: "accs w 0 = Some x" "a_cb x \<noteq> None"
    and k: "o_reg ob k \<subseteq>\<^sub>m [fd \<mapsto> HAcc 0]"
  shows "core ob {} {} (w\<lparr>p_err := e, os := k\<rparr>) [] \<and> calm (w\<lparr>p_err := e, os := k\<rparr>)"
proof -
  have a: "accs w = [0 \<mapsto> x]" "socks w = Map.empty" and wf: "wf w []" using w x by (auto simp: started_def)
  have "h = HAcc 0" if "o_reg ob k f = Some h" for f h
  proof -
    have "o_reg ob k f = [fd \<mapsto> HAcc 0] f" using that k unfolding map_le_def by blast
    with that show ?thesis by (simp split: if_splits)
  qed
  then have "registered ob (w\<lparr>p_err := e, os := k\<rparr>)" using a by (fastforce simp: registered_def)
  moreover have "calm (w\<lparr>p_err := e, os := k\<rparr>)"
    using view_live [OF wf] a(2) by (auto simp: calm_def)
  ultimately show ?thesis using wf a x by (simp add: core_def owners_def served_def)
qed

section \<open>Clients between two rounds\<close>

text \<open>Between two rounds a client waits for input and owes nothing, or its write token holds what it owes.\<close>

lemma calm_cases:
  assumes j: "echo_J added removed K ob {} w" and q: "calm w" and s: "socks w s = Some fd" "fd \<noteq> -1"
  obtains (reads) x y where "view w (Rt s) = Some x" "view w (Wt s) = Some y" "t_mode x = M_SOME" "t_mode y = M_NONE"
      "o_in ob (os w) fd = o_out ob (os w) fd"
  | (writes) x y where "view w (Rt s) = Some x" "view w (Wt s) = Some y" "t_mode x = M_NONE" "t_mode y = M_ALL" "t_buf y = sendBuf s" "0 \<le> t_ioSize y" "t_ioSize y \<le> t_bufSize y"
      "t_bufSize y \<le> int BUFSIZE" "o_in ob (os w) fd = o_out ob (os w) fd @
        mem_load (mem w) (ptr_add (t_buf y) (t_ioSize y)) (nat (t_bufSize y - t_ioSize y))"
proof -
  obtain qs where c: "core ob {} {} w qs" using j by (auto simp: echo_J_def)
  obtain x y where xy: "view w (Rt s) = Some x" "view w (Wt s) = Some y" "client_tokens ob (os w) (mem w) s fd x y"
    using core_client [OF c s(1)] .
  have "\<not> queued_mode (t_mode x)" "\<not> queued_mode (t_mode y)" using q s xy unfolding calm_def by fastforce+
  then have m: "t_mode x \<noteq> M_DONE" "t_mode x \<noteq> M_ERR" "t_mode y \<noteq> M_DONE" "t_mode y \<noteq> M_ERR"
    by (simp_all add: queued_mode_def)
  from xy(3) consider "t_mode y = M_NONE" "reading ob (os w) (mem w) s fd x"
    | "t_mode x = M_NONE" "writing ob (os w) (mem w) s fd y"
    by (auto simp: client_tokens_def)
  then show thesis
  proof cases
    case 1
    then show thesis using m reads [OF xy(1,2)] s(2) by (auto simp: reading_def owed_def)
  next
    case 2
    then show thesis using m writes [OF xy(1,2)] s(2) by (simp add: writing_def owed_def)
  qed
qed

lemma calm_relays:
  assumes "echo_J added removed K ob {} w" and "calm w" and "socks w s = Some fd" and "fd \<noteq> -1"
  shows "relays BUFSIZE (o_in ob (os w) fd) (o_out ob (os w) fd)"
  using assms
proof (cases rule: calm_cases)
  case (writes x y)
  then show ?thesis by (auto intro: relays_append)
qed simp

section \<open>The builds\<close>

text \<open>A build of the proactor: its poller, and the \<open>create\<close> that makes one.\<close>

locale echo_build = echo_poller reg rem added removed
  for reg :: "(echo_cb, accept_cb, 'k) reg_fun" and rem :: "(echo_cb, accept_cb, 'k) rem_fun"
    and added :: "int \<Rightarrow> handler \<Rightarrow> 'k \<Rightarrow> 'k \<Rightarrow> bool" and removed :: "'k \<Rightarrow> 'k \<Rightarrow> bool" +
  fixes create :: "int \<Rightarrow> 'k echo_world \<Rightarrow> bool \<times> 'k echo_world" and poller_new :: "'k \<Rightarrow> int \<times> int \<times> 'k"
  assumes creates: "create ms w = (b, w') \<Longrightarrow> poller_new (os w) = (fd, en, k) \<Longrightarrow>
      \<exists>e. w' = w\<lparr>p_pollIntervalMsec := ms, p_fd := fd, p_err := e, os := k\<rparr>"
begin

lemma acceptor_dtor_ok:
  assumes "accs v 0 \<noteq> None"
  shows "\<exists>w'. Server_dtor rem K v = Inr w'"
proof -
  obtain x where x: "accs v 0 = Some x" using assms by blast
  then have "handle (HAcc 0) v = Inr (a_soc x)" by (simp add: handle_def)
  then obtain b e k where "rem (HAcc 0) v = Inr (b, v\<lparr>p_deleted := p_deleted v @ [HAcc 0], p_err := e, os := k\<rparr>)"
    using remove by blast
  with x show ?thesis by (simp add: Server_dtor_def Acceptor_dtor_def Acceptor_close_def)
qed

lemma startup_calm:
  assumes L: "host added removed K ob" "setup_laws K ob" "opens ob k (poller_new k)" and k: "o_reg ob k = Map.empty"
  shows "\<exists>c w. main_startup create reg rem K m k = Inr (c, w) \<and>
    (c = None \<longrightarrow> echo_J added removed K ob {} w \<and> calm w \<and> socks w = Map.empty \<and> p_deleted w = []) \<and> (c \<noteq> None \<longrightarrow> c = Some 1)"
proof -
  obtain fd en k1 where p: "poller_new k = (fd, en, k1)" by (metis prod_cases3)
  obtain b w0 where w0: "create 100 (Proactor_new K m k) = (b, w0)" by fastforce
  obtain e0 where e0: "w0 = (Proactor_new K m k)\<lparr>p_pollIntervalMsec := 100, p_fd := fd, p_err := e0, os := k1\<rparr>"
    using creates [OF w0, of fd en k1] p by (auto simp: Proactor_new_def)
  have fr: "toks w0 = toks (Proactor_new K m k)" "socks w0 = Map.empty" "p_timerList w0 = []" "os w0 = k1"
    "accs w0 = Map.empty" "p_deleted w0 = []"
    by (simp_all add: e0 Proactor_new_def)
  have "wf w0 []" using wf_new [of K m k] fr by (simp add: wf_def Proactor_new_def)
  moreover have "o_reg ob k1 = Map.empty" using opens_reg L(3) p k by metis
  ultimately have s0: "started ob (Server_ctor w0)"
    using fr by (simp add: started_def Server_ctor_def Acceptor_ctor_def) blast
  obtain b1 w1 where l: "Acceptor_listen' K 0 (Some IP) PORT SOMAXCONN (Server_ctor w0) = Inr (b1, w1)" and s1: "started ob w1"
    using listen'_started [OF L(2) hostD(2) [OF L(1)] s0] by blast
  obtain x where x: "accs w1 0 = Some x" using s1 by (auto simp: started_def)
  define w2 where "w2 = w1\<lparr>accs := (accs w1)(0 \<mapsto> x\<lparr>a_cb := Some OnAccept\<rparr>)\<rparr>"
  have s2: "started ob w2" and x2: "accs w2 0 = Some (x\<lparr>a_cb := Some OnAccept\<rparr>)"
    unfolding w2_def using started_accs [OF s1] by simp_all
  have h2: "handle (HAcc 0) w2 = Inr (a_soc x)" using x2 by (simp add: handle_def)
  obtain b2 e k2 where r: "reg (HAcc 0) True w2 = Inr (b2, w2\<lparr>p_err := e, os := k2\<rparr>)"
    and k2: "if a_soc x = -1 then k2 = os w2 \<and> \<not> b2 else added (a_soc x) (HAcc 0) (os w2) k2"
    using register_any [OF h2, of True] by blast
  have "o_reg ob k2 \<subseteq>\<^sub>m [a_soc x \<mapsto> HAcc 0]"
  proof (cases "a_soc x = -1")
    case True
    then show ?thesis using k2 s2 by (auto simp: started_def map_le_def)
  next
    case False
    then show ?thesis
      using k2 poll_lawsD(1) [OF hostD(3) [OF L(1)], of "a_soc x" "HAcc 0" "os w2" k2] s2
      by (simp add: started_def)
  qed
  then have c2: "core ob {} {} (w2\<lparr>p_err := e, os := k2\<rparr>) [] \<and> calm (w2\<lparr>p_err := e, os := k2\<rparr>)"
    using started_core [OF s2 x2] by simp
  have st: "Server_startAccept reg K (Server_ctor w0) =
      (if b1 then Inr (b2, w2\<lparr>p_err := e, os := k2\<rparr>) else Inr (False, w1))"
    using l x r by (simp add: Server_startAccept_def Acceptor_listen_def w2_def)
  have dt: "\<exists>w'. Server_dtor rem K v = Inr w'" if "accs v 0 \<noteq> None" for v
    using acceptor_dtor_ok that by blast
  show ?thesis
  proof (cases b)
    case False
    then show ?thesis using w0 by (simp add: main_startup_def)
  next
    case b: True
    show ?thesis
    proof (cases "b1 \<and> b2")
      case True
      moreover have "socks w2 = Map.empty" "p_deleted w2 = []" using s2 by (simp_all add: started_def)
      ultimately show ?thesis using w0 b st c2 L(1) by (auto simp: main_startup_def echo_J_def)
    next
      case False
      define v where "v = (if b1 then w2\<lparr>p_err := e, os := k2\<rparr> else w1)"
      have "accs v 0 \<noteq> None" using x x2 by (simp add: v_def)
      then obtain w' where "Server_dtor rem K v = Inr w'" using dt by blast
      moreover have "Server_startAccept reg K (Server_ctor w0) = Inr (False, v)"
        using st False by (simp add: v_def)
      ultimately show ?thesis using w0 b by (simp add: main_startup_def)
    qed
  qed
qed

lemma program_exits:
  assumes L: "host added removed K ob" "setup_laws K ob" "opens ob k (poller_new k)" and k: "o_reg ob k = Map.empty"
    and run: "\<And>w r. echo_J added removed K ob {} w \<Longrightarrow> calm w \<Longrightarrow> run w = Some r \<Longrightarrow> \<exists>b w'. r = Inr (b, w') \<and> accs w' 0 \<noteq> None"
    and r: "main_program create run reg rem K m k = Some r"
  shows "\<exists>c w. r = Inr (c, w) \<and> c \<in> {0, 1}"
proof -
  obtain c w where s: "main_startup create reg rem K m k = Inr (c, w)" "c = None \<longrightarrow> echo_J added removed K ob {} w \<and> calm w"
      "c \<noteq> None \<longrightarrow> c = Some 1"
    using startup_calm [OF L k, of m] by blast
  show ?thesis
  proof (cases c)
    case (Some c')
    then show ?thesis using r s by (auto simp: main_program_def)
  next
    case None
    then obtain r1 where r1: "run w = Some r1" using r s(1) by (cases "run w") (auto simp: main_program_def)
    then obtain b w1 where w1: "r1 = Inr (b, w1)" "accs w1 0 \<noteq> None" using run [OF _ _ r1] s(2) None by blast
    then obtain w2 where "Server_dtor rem K w1 = Inr w2" using acceptor_dtor_ok by blast
    then show ?thesis using r s(1) None r1 w1(1) by (auto simp: main_program_def)
  qed
qed

lemma program_ends:
  assumes L: "host added removed K ob" "setup_laws K ob" "opens ob k (poller_new k)" and k: "o_reg ob k = Map.empty"
    and run: "\<And>w. echo_J added removed K ob {} w \<Longrightarrow> calm w \<Longrightarrow> \<exists>b w'. run w = Some (Inr (b, w'))"
  shows "main_program create run reg rem K m k \<noteq> None"
proof -
  obtain c w where s: "main_startup create reg rem K m k = Inr (c, w)" "c = None \<longrightarrow> echo_J added removed K ob {} w \<and> calm w"
    using startup_calm [OF L k, of m] by blast
  show ?thesis
  proof (cases c)
    case (Some c')
    then show ?thesis using s by (simp add: main_program_def)
  next
    case None
    then obtain b w1 where "run w = Some (Inr (b, w1))" using run s(2) by blast
    then show ?thesis using s(1) None by (cases "Server_dtor rem K w1") (simp_all add: main_program_def)
  qed
qed

end

interpretation epe: echo_build "Epoll_register K" "Epoll_remove K" "epoll_added K" "epoll_removed K" "Epoll_create K" "k_poll_create K" for K
proof (unfold_locales, goal_cases)
  case (1 ms w b w' fd en k)
  then show ?case by (intro exI [of _ "p_err w'"]) (auto simp: Epoll_create_def Let_def split: if_splits)
qed

interpretation kqe: echo_build "Kqueue_register K" "Kqueue_remove K" "kqueue_added K" "kqueue_removed K" "Kqueue_create K" "k_kqueue K" for K
proof (unfold_locales, goal_cases)
  case (1 ms w b w' fd en k)
  then show ?case by (intro exI [of _ "p_err w'"]) (auto simp: Kqueue_create_def Let_def split: if_splits)
qed

section \<open>The reachable states of the program\<close>

text \<open>The states between two rounds of the loop of \<open>run\<close>, on the epoll build.\<close>

inductive serving :: "'k kernel \<Rightarrow> memory \<Rightarrow> 'k \<Rightarrow> 'k echo_world \<Rightarrow> bool" for K m k where
  start: "echo_startup K m k = Inr (None, w) \<Longrightarrow> serving K m k w"
| round: "serving K m k w \<Longrightarrow> Epoll_round (epoll_env K) w = Some (Inr (None, w')) \<Longrightarrow> serving K m k w'"

inductive_simps serving_iff: "serving K m k w"
inductive_cases servingE: "serving K m k w"

definition quiescent :: "'k kernel \<Rightarrow> 'k observer \<Rightarrow> 'k echo_world \<Rightarrow> bool" where
  "quiescent K ob w \<longleftrightarrow> echo_J (epoll_added K) (epoll_removed K) K ob {} w \<and> calm w"

lemma linuxD:
  assumes "linux K ob"
  shows "host (epoll_added K) (epoll_removed K) K ob" "setup_laws K ob" "wait_law (k_poll_wait K efd ms k) ob k"
  using assms by (simp_all add: linux_def host_def)

lemma quiescent_round:
  assumes L: "linux K ob" and q: "quiescent K ob w" and r: "Epoll_round (epoll_env K) w = Some r"
  shows "\<exists>b w'. r = Inr (b, w') \<and> (b = None \<longrightarrow> quiescent K ob w') \<and>
    (b \<noteq> None \<longrightarrow> (\<exists>w1. echo_J (epoll_added K) (epoll_removed K) K ob {} w1 \<and> accs w' = accs w1))"
proof -
  obtain ret en evs sigs k where p: "k_poll_wait K (p_fd w) (p_pollIntervalMsec w) (os w) = (ret, en, evs, sigs, k)"
    by (metis prod_cases5)
  have "wait_law (ret, en, evs, sigs, k) ob (os w)" using linuxD(3) [OF L, of "p_fd w" "p_pollIntervalMsec w" "os w"] p by simp
  then have "epe.server.polls K K ob w (take (nat ret) evs) k"
    using q by (intro epe.polls_ok) (auto simp: quiescent_def)
  moreover have "e_kern (epoll_env K) = K" by (simp add: epoll_env_def echo_env_def)
  ultimately show ?thesis
    using epe.server.waited_ok [OF epe.server.event_steps(1)] r p unfolding Epoll_round_waited epoll_env_def quiescent_def by simp
qed

lemma startup_quiescent:
  assumes L: "linux K ob" and k: "o_reg ob k = Map.empty"
  shows "\<exists>c w. echo_startup K m k = Inr (c, w) \<and> (c = None \<longrightarrow> quiescent K ob w \<and> socks w = Map.empty \<and> p_deleted w = []) \<and> (c \<noteq> None \<longrightarrow> c = Some 1)"
  using epe.startup_calm [OF linuxD(1,2) [OF L] setup_lawsD(2) [OF linuxD(2) [OF L]] k]
  unfolding echo_startup_def quiescent_def by blast

end
