(* ===== verification/EchoWakeups.thy ===== *)
theory EchoWakeups
  imports EchoServing
begin

unbundle bit_operations_syntax

text \<open>
  The registrations are edge-triggered: a wait reports that a descriptor became readable or writable
  once, and not again until it was found not ready. A client that waits on a descriptor that is ready
  and whose event was already reported would wait until its timer ends it. The server never lets this
  happen, although it ignores the events of a direction it does not wait for.
\<close>

section \<open>Edges\<close>

text \<open>
  Whether a transfer would find a descriptor ready, and whether an event for it is still to be reported.
  The descriptor of a registered handler is armed when there is no ready descriptor without such an event.
\<close>

record 'k edges =
  g_in_ready :: "'k \<Rightarrow> int \<Rightarrow> bool"
  g_in_due :: "'k \<Rightarrow> int \<Rightarrow> bool"
  g_out_ready :: "'k \<Rightarrow> int \<Rightarrow> bool"
  g_out_due :: "'k \<Rightarrow> int \<Rightarrow> bool"

definition armed_in :: "'k observer \<Rightarrow> 'k edges \<Rightarrow> 'k \<Rightarrow> int \<Rightarrow> handler \<Rightarrow> bool" where
  "armed_in ob g k fd h \<longleftrightarrow> (o_reg ob k fd = Some h \<longrightarrow> g_in_ready g k fd \<longrightarrow> g_in_due g k fd)"

definition armed_out :: "'k observer \<Rightarrow> 'k edges \<Rightarrow> 'k \<Rightarrow> int \<Rightarrow> handler \<Rightarrow> bool" where
  "armed_out ob g k fd h \<longleftrightarrow> (o_reg ob k fd = Some h \<longrightarrow> g_out_ready g k fd \<longrightarrow> g_out_due g k fd)"

text \<open>A call that concerns \<open>fd\<close> loses no edge of another descriptor.\<close>

definition keeps :: "'k observer \<Rightarrow> 'k edges \<Rightarrow> int \<Rightarrow> 'k \<Rightarrow> 'k \<Rightarrow> bool" where
  "keeps ob g fd k k' \<longleftrightarrow>
     (\<forall>f h. f \<noteq> fd \<longrightarrow> (armed_in ob g k f h \<longrightarrow> armed_in ob g k' f h) \<and> (armed_out ob g k f h \<longrightarrow> armed_out ob g k' f h))"

definition steady :: "'k observer \<Rightarrow> 'k edges \<Rightarrow> 'k \<Rightarrow> 'k \<Rightarrow> bool" where
  "steady ob g k k' \<longleftrightarrow> (\<forall>f h. (armed_in ob g k f h \<longrightarrow> armed_in ob g k' f h) \<and> (armed_out ob g k f h \<longrightarrow> armed_out ob g k' f h))"

text \<open>
  The behaviour of \<open>epoll(7)\<close> with \<open>EPOLLET\<close>: a read that fails with \<open>EAGAIN\<close>, a write that fails with it
  or takes less than it was given, arm the descriptor, and only a wait that reports the event disarms it.
\<close>

definition edge_laws ::
  "(int \<Rightarrow> handler \<Rightarrow> 'k \<Rightarrow> 'k \<Rightarrow> bool) \<Rightarrow> ('k \<Rightarrow> 'k \<Rightarrow> bool) \<Rightarrow> 'k kernel \<Rightarrow> 'k observer \<Rightarrow> 'k edges \<Rightarrow> bool" where
  "edge_laws added removed K ob g \<longleftrightarrow>
     (\<forall>fd n k ret en bs k'. k_read K fd n k = (ret, en, bs, k') \<longrightarrow>
        keeps ob g fd k k' \<and> (ret < 0 \<and> en = EAGAIN \<longrightarrow> (\<forall>h. armed_in ob g k' fd h))) \<and>
     (\<forall>fd ws k ret en k'. k_write K fd ws k = (ret, en, k') \<longrightarrow>
        keeps ob g fd k k' \<and> (ret < 0 \<and> en = EAGAIN \<or> 0 < ret \<and> ret < int (List.length ws) \<longrightarrow> (\<forall>h. armed_out ob g k' fd h))) \<and>
     (\<forall>fd k soc en addr k'. k_accept K fd k = (soc, en, addr, k') \<longrightarrow> keeps ob g soc k k') \<and>
     (\<forall>fd k. keeps ob g fd k (k_close K fd k)) \<and>
     (\<forall>k. steady ob g k (snd (k_gettimeofday K k))) \<and>
     (\<forall>fd k. steady ob g k (snd (snd (k_getfl K fd k)))) \<and> (\<forall>fd fl k. steady ob g k (snd (snd (k_setfl K fd fl k)))) \<and>
     (\<forall>fd h k k'. added fd h k k' \<longrightarrow> keeps ob g fd k k') \<and> (\<forall>k k'. removed k k' \<longrightarrow> steady ob g k k')"

definition reported :: "32 word \<Rightarrow> (32 word \<times> handler) list \<Rightarrow> handler set" where
  "reported flag evs = {h. \<exists>ev. (ev, h) \<in> set evs \<and> ev AND flag \<noteq> 0}"

definition edge_wait :: "(int \<times> int \<times> (32 word \<times> handler) list \<times> int list \<times> 'k) \<Rightarrow> 'k observer \<Rightarrow> 'k edges \<Rightarrow> 'k \<Rightarrow> bool" where
  "edge_wait res ob g k \<longleftrightarrow>
     (case res of (ret, en, evs, sigs, k') \<Rightarrow>
        \<forall>fd h. (armed_in ob g k fd h \<longrightarrow> armed_in ob g k' fd h \<or> h \<in> reported EPOLLIN (take (nat ret) evs)) \<and>
               (armed_out ob g k fd h \<longrightarrow> armed_out ob g k' fd h \<or> h \<in> reported EPOLLOUT (take (nat ret) evs)))"

lemma edgeD:
  assumes "edge_laws added removed K ob g"
  shows "k_read K fd n k = (ret, en, bs, k') \<Longrightarrow> keeps ob g fd k k' \<and> (ret < 0 \<and> en = EAGAIN \<longrightarrow> (\<forall>h. armed_in ob g k' fd h))"
    and "k_write K fd ws k = (ret, en, k') \<Longrightarrow>
        keeps ob g fd k k' \<and> (ret < 0 \<and> en = EAGAIN \<or> 0 < ret \<and> ret < int (List.length ws) \<longrightarrow> (\<forall>h. armed_out ob g k' fd h))"
    and "k_accept K fd k = (soc, en, addr, k') \<Longrightarrow> keeps ob g soc k k'"
    and "keeps ob g fd k (k_close K fd k)" and "steady ob g k (snd (k_gettimeofday K k))"
    and "k_getfl K fd k = (r, en, k') \<Longrightarrow> steady ob g k k'" and "k_setfl K fd fl k = (r, en, k') \<Longrightarrow> steady ob g k k'"
    and "added fd h k k' \<Longrightarrow> keeps ob g fd k k'" and "removed k k' \<Longrightarrow> steady ob g k k'"
  by (use assms in \<open>unfold edge_laws_def, elim conjE, metis snd_conv\<close>)+

lemma keeps_refl [simp]: "keeps ob g fd k k"
  by (simp add: keeps_def)

lemma keeps_trans [trans]: "keeps ob g fd k k1 \<Longrightarrow> keeps ob g fd k1 k2 \<Longrightarrow> keeps ob g fd k k2"
  by (simp add: keeps_def)

lemma steady_keeps: "steady ob g k k' \<Longrightarrow> keeps ob g fd k k'"
  by (simp add: keeps_def steady_def)

lemma keeps_clock:
  assumes "edge_laws added removed K ob g" and "k' \<in> {k, snd (k_gettimeofday K k)}"
  shows "keeps ob g fd k k'" and "armed_in ob g k f h \<Longrightarrow> armed_in ob g k' f h" and "armed_out ob g k f h \<Longrightarrow> armed_out ob g k' f h"
  using assms edgeD(5) [OF assms(1), of k] by (auto simp: keeps_def steady_def)

section \<open>Clients that are watched\<close>

text \<open>
  A client that waits for input, or for room, has a descriptor that is armed for it; \<open>U\<close> and \<open>V\<close> are
  the handlers whose event of this batch is still to be handled.
\<close>

definition waits_in :: "'k observer \<Rightarrow> 'k edges \<Rightarrow> nat \<Rightarrow> 'k echo_world \<Rightarrow> bool" where
  "waits_in ob g s w \<longleftrightarrow>
     (\<forall>fd x. socks w s = Some fd \<longrightarrow> fd \<noteq> -1 \<longrightarrow> view w (Rt s) = Some x \<longrightarrow> t_mode x = M_SOME \<longrightarrow> armed_in ob g (os w) fd (HSock s))"

definition waits_out :: "'k observer \<Rightarrow> 'k edges \<Rightarrow> nat \<Rightarrow> 'k echo_world \<Rightarrow> bool" where
  "waits_out ob g s w \<longleftrightarrow>
     (\<forall>fd y. socks w s = Some fd \<longrightarrow> fd \<noteq> -1 \<longrightarrow> view w (Wt s) = Some y \<longrightarrow> t_mode y = M_ALL \<longrightarrow> armed_out ob g (os w) fd (HSock s))"

definition watched :: "'k observer \<Rightarrow> 'k edges \<Rightarrow> handler set \<Rightarrow> handler set \<Rightarrow> 'k echo_world \<Rightarrow> bool" where
  "watched ob g U V w \<longleftrightarrow> (\<forall>s. (HSock s \<in> U \<or> waits_in ob g s w) \<and> (HSock s \<in> V \<or> waits_out ob g s w))"

text \<open>A handler in \<open>_deleted\<close> is gone, and its number is not used again.\<close>

definition buried :: "'k echo_world \<Rightarrow> bool" where
  "buried w \<longleftrightarrow> (\<forall>s. HSock s \<in> set (p_deleted w) \<longrightarrow> s < next_obj w \<and> socks w s = None)"

lemma watched_mono: "watched ob g U V w \<Longrightarrow> U \<subseteq> U' \<Longrightarrow> V \<subseteq> V' \<Longrightarrow> watched ob g U' V' w"
  unfolding watched_def by blast

lemma waits_keeps:
  assumes "socks w' s = socks w s" "view w' (Rt s) = view w (Rt s)" "view w' (Wt s) = view w (Wt s)"
    and "keeps ob g fd (os w) (os w')" and "\<And>f. socks w s = Some f \<Longrightarrow> f \<noteq> -1 \<Longrightarrow> f \<noteq> fd"
  shows "waits_in ob g s w \<Longrightarrow> waits_in ob g s w'" and "waits_out ob g s w \<Longrightarrow> waits_out ob g s w'"
  using assms by (auto simp: waits_in_def waits_out_def keeps_def)

lemma watched_frame:
  assumes "watched ob g U V w" and "socks w' = socks w" "view w' = view w" and "keeps ob g fd (os w) (os w')"
    and "\<And>s f. socks w s = Some f \<Longrightarrow> f \<noteq> -1 \<Longrightarrow> f \<noteq> fd"
  shows "watched ob g U V w'"
  unfolding watched_def
proof
  fix s
  have "socks w' s = socks w s" "view w' (Rt s) = view w (Rt s)" "view w' (Wt s) = view w (Wt s)" using assms(2,3) by simp_all
  from waits_keeps [OF this assms(4)] assms(5)
  show "(HSock s \<in> U \<or> waits_in ob g s w') \<and> (HSock s \<in> V \<or> waits_out ob g s w')"
    using assms(1) unfolding watched_def by metis
qed

text \<open>A step for the client \<open>s\<close>, which leaves it unwaiting or armed.\<close>

definition rearms :: "'k observer \<Rightarrow> 'k edges \<Rightarrow> nat \<Rightarrow> int \<Rightarrow> 'k echo_world \<Rightarrow> 'k echo_world \<Rightarrow> bool" where
  "rearms ob g s fd w w' \<longleftrightarrow> keeps ob g fd (os w) (os w') \<and> waits_in ob g s w' \<and> waits_out ob g s w' \<and>
     (\<forall>s'. s' \<noteq> s \<longrightarrow> socks w' s' = socks w s' \<and> view w' (Rt s') = view w (Rt s') \<and> view w' (Wt s') = view w (Wt s')) \<and>
     next_obj w \<le> next_obj w' \<and>
     (\<forall>s'. HSock s' \<in> set (p_deleted w') \<longrightarrow> HSock s' \<in> set (p_deleted w) \<or> s' = s) \<and>
     (HSock s \<in> set (p_deleted w') \<longrightarrow> HSock s \<in> set (p_deleted w) \<and> socks w' s = socks w s \<or> socks w' s = None)"

lemma rearms_watched:
  assumes w: "watched ob g U V w" and r: "rearms ob g s fd w w'"
    and fd: "\<And>s' f. socks w s' = Some f \<Longrightarrow> f \<noteq> -1 \<Longrightarrow> f = fd \<Longrightarrow> s' = s"
  shows "watched ob g (U - {HSock s}) (V - {HSock s}) w'"
proof -
  have "(HSock t \<in> U - {HSock s} \<or> waits_in ob g t w') \<and> (HSock t \<in> V - {HSock s} \<or> waits_out ob g t w')" for t
  proof (cases "t = s")
    case True
    then show ?thesis using r by (simp add: rearms_def)
  next
    case False
    then have "socks w' t = socks w t" "view w' (Rt t) = view w (Rt t)" "view w' (Wt t) = view w (Wt t)"
      "\<And>f. socks w t = Some f \<Longrightarrow> f \<noteq> -1 \<Longrightarrow> f \<noteq> fd" "keeps ob g fd (os w) (os w')"
      using r fd by (auto simp: rearms_def)
    from waits_keeps [OF this(1-3,5,4)] show ?thesis using w False unfolding watched_def by blast
  qed
  then show ?thesis by (simp add: watched_def)
qed

lemma rearms_buried:
  assumes "buried w" and "rearms ob g s fd w w'" and "s < next_obj w'"
  shows "buried w'"
  using assms unfolding buried_def rearms_def by (metis order_less_le_trans)

lemma rearms_silent:
  assumes "silent s w w1" and "rearms ob g s fd w1 w'"
  shows "rearms ob g s fd w w'"
  using assms by (auto simp: rearms_def silent_def)

section \<open>The steps\<close>

lemma reads_rearms:
  assumes el: "edge_laws added removed K ob g" and s: "socks w s = Some fd" and r: "reads K s fd w w'"
  shows "rearms ob g s fd w w'"
proof -
  obtain n ret en bs k y where k: "same_rest w w'" "\<forall>y. view w (Wt s) = Some y \<longrightarrow> t_mode y = M_NONE"
    "k_read K fd n (os w) = (ret, en, bs, k)" "os w' \<in> {k, snd (k_gettimeofday K k)}"
    "view w' = (view w)(Rt s \<mapsto> y)" "outcome y = readSome_result ret en"
    using r unfolding reads_def by blast
  note e = edgeD(1) [OF el k(3)] and c = keeps_clock [OF el k(4)]
  have "t_mode y = M_SOME \<longrightarrow> ret < 0 \<and> en = EAGAIN"
    using k(6) by (simp add: outcome_def readSome_result_def split: if_splits)
  then have "waits_in ob g s w'" using k(5) s e c(2) same_restD(1) [OF k(1)] by (simp add: waits_in_def)
  moreover have "waits_out ob g s w'" using k(2,5) by (auto simp: waits_out_def)
  moreover have "keeps ob g fd (os w) (os w')" using keeps_trans [OF _ c(1)] e by simp
  ultimately show ?thesis using k(5) same_restD [OF k(1)] by (simp add: rearms_def)
qed

lemma writes_rearms:
  assumes el: "edge_laws added removed K ob g" and s: "socks w s = Some fd" and r: "writes K s fd w w'"
  shows "rearms ob g s fd w w'"
proof -
  obtain ws io n ret en k y where k: "same_rest w w'" "\<forall>x. view w (Rt s) = Some x \<longrightarrow> t_mode x = M_NONE"
    "k_write K fd ws (os w) = (ret, en, k)" "os w' \<in> {k, snd (k_gettimeofday K k)}" "int (List.length ws) = n - io"
    "view w' = (view w)(Wt s \<mapsto> y)" "outcome y = onWrite_result io n ret en"
    using r unfolding writes_def by blast
  note e = edgeD(2) [OF el k(3)] and c = keeps_clock [OF el k(4)]
  have "t_mode y = M_ALL \<longrightarrow> ret < 0 \<and> en = EAGAIN \<or> 0 < ret \<and> ret < int (List.length ws)"
    using k(5,7) by (auto simp: outcome_def onWrite_result_def split: if_splits)
  then have "waits_out ob g s w'" using k(6) s e c(3) same_restD(1) [OF k(1)] by (auto simp: waits_out_def)
  moreover have "waits_in ob g s w'" using k(2,6) by (auto simp: waits_in_def)
  moreover have "keeps ob g fd (os w) (os w')" using keeps_trans [OF _ c(1)] e by simp
  ultimately show ?thesis using k(6) same_restD [OF k(1)] by (simp add: rearms_def)
qed

lemma shrinks_rearms:
  assumes el: "edge_laws added removed K ob g" and r: "shrinks s w w'" and k: "frees removed K fd (os w) (os w')"
  shows "rearms ob g s fd w w'"
proof -
  obtain k1 where k1: "removed (os w) k1" "os w' \<in> {k1, k_close K fd k1}" using k by (auto simp: frees_def)
  have "keeps ob g fd (os w) (os w')"
    using k1(2) steady_keeps [OF edgeD(9) [OF el k1(1)]] keeps_trans [OF _ edgeD(4) [OF el]] by auto
  then show ?thesis using r by (auto simp: rearms_def shrinks_def waits_in_def waits_out_def)
qed

lemma acts_rearms:
  assumes el: "edge_laws added removed K ob g" and a: "acts removed K s fd w w'"
  shows "rearms ob g s fd w w'"
proof -
  obtain w1 where w1: "socks w s = Some fd" "silent s w w1"
    "reads K s fd w1 w' \<or> writes K s fd w1 w' \<or> shrinks s w1 w' \<and> frees removed K fd (os w1) (os w')"
    using a by (auto simp: acts_def)
  then have "socks w1 s = Some fd" by (simp add: silent_def)
  then have "rearms ob g s fd w1 w'"
    using w1(3) reads_rearms [OF el] writes_rearms [OF el] shrinks_rearms [OF el] by blast
  then show ?thesis using rearms_silent [OF w1(2)] by blast
qed

lemma joins_rearms:
  assumes el: "edge_laws added removed K ob g" and a: "joins added K soc w w'" and b: "HSock (next_obj w) \<notin> set (p_deleted w)"
  shows "rearms ob g (next_obj w) soc w w'"
proof -
  obtain w1 where w1: "socks w1 = (socks w)(next_obj w \<mapsto> soc)" "next_obj w1 = next_obj w + 1" "p_deleted w1 = p_deleted w"
    "\<forall>t. t \<noteq> Rt (next_obj w) \<longrightarrow> t \<noteq> Wt (next_obj w) \<longrightarrow> view w1 t = view w t"
    "if soc = -1 then os w1 = os w else added soc (HSock (next_obj w)) (os w) (os w1)" "reads K (next_obj w) soc w1 w'"
    using a unfolding joins_def by blast
  have r: "rearms ob g (next_obj w) soc w1 w'" using reads_rearms [OF el _ w1(6)] w1(1) by simp
  have "keeps ob g soc (os w) (os w1)" using w1(5) edgeD(8) [OF el] by (auto split: if_splits)
  then have "keeps ob g soc (os w) (os w')" using r keeps_trans by (auto simp: rearms_def)
  then show ?thesis using r w1(1-4) b by (auto simp: rearms_def)
qed

section \<open>The server keeps its clients watched\<close>

definition watch_J ::
  "(int \<Rightarrow> handler \<Rightarrow> 'k \<Rightarrow> 'k \<Rightarrow> bool) \<Rightarrow> ('k \<Rightarrow> 'k \<Rightarrow> bool) \<Rightarrow> 'k kernel \<Rightarrow> 'k observer \<Rightarrow> 'k edges \<Rightarrow>
   handler set \<Rightarrow> handler set \<Rightarrow> handler set \<Rightarrow> 'k echo_world \<Rightarrow> bool" where
  "watch_J added removed K ob g U V A w \<longleftrightarrow>
     edge_laws added removed K ob g \<and> echo_J added removed K ob A w \<and> watched ob g U V w \<and> buried w"

lemma watch_JD:
  assumes "watch_J added removed K ob g U V A w"
  obtains qs where "edge_laws added removed K ob g" "host added removed K ob" "core ob A {} w qs"
    "echo_J added removed K ob A w" "watched ob g U V w" "buried w"
  using assms by (auto simp: watch_J_def echo_J_def)

lemma watch_mono: "watch_J added removed K ob g U V A w \<Longrightarrow> U \<subseteq> U' \<Longrightarrow> V \<subseteq> V' \<Longrightarrow> watch_J added removed K ob g U' V' A w"
  using watched_mono by (auto simp: watch_J_def)

lemma watch_J_acts:
  assumes j: "watch_J added removed K ob g U V A w" and a: "acts removed K s fd w w'" and j': "echo_J added removed K ob A' w'"
  shows "watch_J added removed K ob g (U - {HSock s}) (V - {HSock s}) A' w'"
proof -
  obtain qs where p: "edge_laws added removed K ob g" "core ob A {} w qs" "watched ob g U V w" "buried w"
    using j by (rule watch_JD)
  note r = acts_rearms [OF p(1) a] and o = ownersD [OF coreD(2) [OF p(2)]]
  have s: "socks w s = Some fd" using a by (simp add: acts_def)
  have "watched ob g (U - {HSock s}) (V - {HSock s}) w'"
    by (rule rearms_watched [OF p(3) r]) (use o(3) [OF s] in auto)
  moreover have "s < next_obj w'" using o(1) [OF s] r by (simp add: rearms_def)
  then have "buried w'" by (rule rearms_buried [OF p(4) r])
  ultimately show ?thesis using p(1) j' by (simp add: watch_J_def)
qed

lemma watch_J_frame:
  assumes j: "watch_J added removed K ob g U V A w" and j': "echo_J added removed K ob A' w'"
    and e: "socks w' = socks w" "view w' = view w" "next_obj w' = next_obj w" "set (p_deleted w') \<subseteq> set (p_deleted w)"
    and k: "steady ob g (os w) (os w')"
  shows "watch_J added removed K ob g U V A' w'"
proof -
  obtain qs where p: "edge_laws added removed K ob g" "watched ob g U V w" "buried w" using j by (rule watch_JD)
  have "watched ob g U V w'" by (rule watched_frame [OF p(2) e(1,2) steady_keeps [OF k], of "-1"]) simp
  then show ?thesis using p(1,3) e j' by (auto simp: watch_J_def buried_def)
qed

lemma steady_refl [simp]: "steady ob g k k"
  by (simp add: steady_def)

lemma SetNonBlock_steady:
  assumes el: "edge_laws added removed K ob g" and r: "SetNonBlock K soc nb e k = (b, e', k')"
  shows "steady ob g k k'"
  using r
proof (rule SetNonBlock_calls)
  fix fl en k1 F r en2
  assume "k_getfl K soc k = (fl, en, k1)" "k_setfl K soc F k1 = (r, en2, k')"
  then show ?thesis using edgeD(6,7) [OF el] unfolding steady_def by blast
qed (use edgeD(6) [OF el] in \<open>simp, blast\<close>)

lemma joins_watched:
  assumes el: "edge_laws added removed K ob g" and a: "joins added K soc w w'" and w: "watched ob g U V w" "buried w"
    and n: "\<And>s. soc \<noteq> -1 \<Longrightarrow> socks w s \<noteq> Some soc"
  shows "watched ob g U V w'" and "buried w'"
proof -
  have "HSock (next_obj w) \<notin> set (p_deleted w)" using w(2) by (auto simp: buried_def)
  note r = joins_rearms [OF el a this]
  have "watched ob g (U - {HSock (next_obj w)}) (V - {HSock (next_obj w)}) w'"
    by (rule rearms_watched [OF w(1) r]) (use n in auto)
  then show "watched ob g U V w'" by (rule watched_mono) auto
  have "next_obj w < next_obj w'" using a by (auto simp: joins_def reads_def same_rest_def)
  then show "buried w'" by (rule rearms_buried [OF w(2) r])
qed

lemma admits_watched:
  assumes el: "edge_laws added removed K ob g" and L: "conn_laws K ob" and c: "core ob A {} w qs"
    and w: "watched ob g U V w" "buried w" and a: "admits added K b w w'"
  shows "watched ob g U V w'" and "buried w'"
proof -
  obtain soc w1 where w1: "takes K (os w) (os w1) soc" "socks w1 = socks w" "view w1 = view w" "p_deleted w1 = p_deleted w"
    "next_obj w1 = next_obj w" "w' = w1 \<or> joins added K soc w1 w'"
    using a unfolding admits_def by blast
  obtain fd so en ad k where k: "k_accept K fd (os w) = (so, en, ad, k)" "soc \<in> {so, -1}"
    "if so = -1 then os w1 = k else \<exists>e b e'. SetNonBlock K so True e k = (b, e', os w1)"
    using w1(1) by (auto simp: takes_def)
  have n: "socks w s \<noteq> Some so" if "so \<noteq> -1" for s
    using that conn_lawsD(1) [OF L k(1)] ownersD(2) [OF coreD(2) [OF c], of s so] by auto
  have "keeps ob g so k (os w1)" using k(3) steady_keeps [OF SetNonBlock_steady [OF el]] by (auto split: if_splits)
  then have "keeps ob g so (os w) (os w1)" using keeps_trans [OF edgeD(3) [OF el k(1)]] by blast
  then have a1: "watched ob g U V w1" by (rule watched_frame [OF w(1) w1(2,3)]) (use n in auto)
  have b1: "buried w1" using w(2) w1(2,4,5) by (simp add: buried_def)
  have "socks w1 s \<noteq> Some soc" if "soc \<noteq> -1" for s using n that k(2) w1(2) by auto
  then show "watched ob g U V w'" "buried w'" using w1(6) a1 b1 joins_watched [OF el _ a1 b1, of soc w'] by blast+
qed

context echo_poller
begin

lemma read_watch:
  assumes j: "watch_J added removed K ob g U V (insert h A) w" and h: "h \<notin> A"
    and r: "handler_onRead (echo_env reg rem K) h (w\<lparr>p_deleted := []\<rparr>) = Some r"
  shows "\<exists>w'. r = Inr w' \<and> watch_J added removed K ob g (U - {h}) V A w' \<and> reports (w\<lparr>p_deleted := []\<rparr>) w'"
proof -
  let ?w = "w\<lparr>p_deleted := []\<rparr>"
  obtain qs where p: "edge_laws added removed K ob g" "host added removed K ob" "core ob (insert h A) {} w qs"
      "echo_J added removed K ob (insert h A) w" "watched ob g U V w" "buried w"
    using j by (rule watch_JD)
  obtain w' where w': "r = Inr w'" "echo_J added removed K ob A w'" "reports ?w w'" using server.read_step [OF p(4) h r] by blast
  have c0: "core ob (insert h A) {} ?w qs" using core_deleted [OF p(3)] .
  have "echo_J added removed K ob (insert h A) ?w" using p(2) c0 by (auto simp: echo_J_def)
  then have j0: "watch_J added removed K ob g U V (insert h A) ?w" using watch_J_frame [OF j] by simp
  have "watch_J added removed K ob g (U - {h}) V A w'"
  proof (cases h)
    case (HSock s)
    then have on: "Socket_onRead K s ?w = Inr w'" using r w'(1) by (simp add: handler_onRead_def echo_env_def)
    then obtain fd where "socks ?w s = Some fd"
      "w' = ?w \<and> (\<forall>x. view ?w (Rt s) = Some x \<longrightarrow> \<not> pending_mode (t_mode x)) \<or> reads K s fd ?w w'"
      using onRead_core [OF hostD(1) [OF p(2)], of s A ?w qs] c0 h HSock by auto
    then show ?thesis
    proof (elim disjE conjE)
      assume e: "w' = ?w" and n: "\<forall>x. view ?w (Rt s) = Some x \<longrightarrow> \<not> pending_mode (t_mode x)"
      have "waits_in ob g s ?w" using n by (auto simp: waits_in_def pending_mode_def)
      moreover have "watched ob g U V ?w" "buried ?w" using j0 by (simp_all add: watch_J_def)
      ultimately have "watched ob g (U - {HSock s}) V ?w" unfolding watched_def by blast
      then show ?thesis using p(1) w'(2) e HSock \<open>buried ?w\<close> by (simp add: watch_J_def)
    next
      assume "reads K s fd ?w w'" "socks ?w s = Some fd"
      then have "acts removed K s fd ?w w'" using actsI(1) [OF _ silent_refl] by blast
      from watch_J_acts [OF j0 this w'(2)] show ?thesis using watch_mono HSock by blast
    qed
  next
    case (HAcc a)
    then have a: "accs ?w a \<noteq> None" using coreD(4) [OF c0] by (auto simp: served_def)
    have l: "Acceptor_onRead (echo_env reg rem K) a ?w = Some (Inr w')" using r w'(1) HAcc by (simp add: handler_onRead_def)
    have "watched ob g U V ?w \<and> buried ?w" using j0 by (simp add: watch_J_def)
    moreover have "watched ob g U V v' \<and> buried v'"
      if "core ob A {} v qs" "watched ob g U V v \<and> buried v" "admits added K b v v'" for v qs b v'
      using admits_watched [OF p(1) hostD(2) [OF p(2)] that(1) _ _ that(3)] that(2) by blast
    ultimately have "watched ob g U V w' \<and> buried w'"
      using accept_loop_keeps [OF p(2) l core_weaken [OF c0, of A "{}"] a, of "\<lambda>v. watched ob g U V v \<and> buried v"] by blast
    moreover have "watched ob g (U - {h}) V w' = watched ob g U V w'" using HAcc by (auto simp: watched_def)
    ultimately show ?thesis using p(1) w'(2) by (simp add: watch_J_def)
  qed
  then show ?thesis using w'(1,3) by blast
qed

lemma write_watch:
  assumes j: "watch_J added removed K ob g U V (insert h A) w" and h: "h \<notin> A"
  shows "\<exists>w'. handler_onWrite (echo_env reg rem K) h w = Inr w' \<and> watch_J added removed K ob g U (V - {h}) A w'"
proof -
  obtain qs where p: "edge_laws added removed K ob g" "host added removed K ob" "core ob (insert h A) {} w qs"
      "echo_J added removed K ob (insert h A) w" "watched ob g U V w" "buried w"
    using j by (rule watch_JD)
  obtain w' where w': "handler_onWrite (echo_env reg rem K) h w = Inr w'" "echo_J added removed K ob A w'"
    using server.write_step [OF p(4) h] by blast
  have "watch_J added removed K ob g U (V - {h}) A w'"
  proof (cases h)
    case (HSock s)
    then have "Socket_onWrite K s w = Inr w'" using w'(1) by (simp add: handler_onWrite_def echo_env_def)
    then obtain fd where "socks w s = Some fd"
      "w' = w \<and> (\<forall>y. view w (Wt s) = Some y \<longrightarrow> t_mode y \<noteq> M_ALL) \<or> writes K s fd w w'"
      using onWrite_core [OF hostD(1) [OF p(2)], of s A w qs] p(3) h HSock by auto
    then show ?thesis
    proof (elim disjE conjE)
      assume e: "w' = w" and n: "\<forall>y. view w (Wt s) = Some y \<longrightarrow> t_mode y \<noteq> M_ALL"
      have "waits_out ob g s w" using n by (auto simp: waits_out_def)
      then have "watched ob g U (V - {HSock s}) w" using p(5) unfolding watched_def by blast
      then show ?thesis using p(1,6) w'(2) e HSock by (simp add: watch_J_def)
    next
      assume "writes K s fd w w'" "socks w s = Some fd"
      then have "acts removed K s fd w w'" using actsI(2) [OF _ silent_refl] by blast
      from watch_J_acts [OF j this w'(2)] show ?thesis using watch_mono HSock by blast
    qed
  next
    case (HAcc a)
    then have "w' = w" using w'(1) by (auto simp: handler_onWrite_def Acceptor_onWrite_def bindS_eq_Inr)
    moreover have "watched ob g U (V - {h}) w = watched ob g U V w" using HAcc by (auto simp: watched_def)
    ultimately show ?thesis using p w'(2) by (simp add: watch_J_def)
  qed
  then show ?thesis using w'(1) by blast
qed

lemma close_watch:
  assumes j: "watch_J added removed K ob g U V (insert h A) w" and q: "calm w" and h: "h \<notin> A"
  shows "\<exists>w'. handler_onClose (echo_env reg rem K) h w = Inr w' \<and> watch_J added removed K ob g (U - {h}) (V - {h}) A w' \<and> calm w'"
proof -
  obtain qs where p: "edge_laws added removed K ob g" "host added removed K ob" "core ob (insert h A) {} w qs"
      "echo_J added removed K ob (insert h A) w" "watched ob g U V w" "buried w"
    using j by (rule watch_JD)
  obtain w' where w': "handler_onClose (echo_env reg rem K) h w = Inr w'" "echo_J added removed K ob A w'" "calm w'"
    using server.close_step [OF p(4) q h] by blast
  have "watch_J added removed K ob g (U - {h}) (V - {h}) A w'"
  proof (cases h)
    case (HSock s)
    then have "Socket_onClose (echo_env reg rem K) s w = Inr w'" using w'(1) by (simp add: handler_onClose_def)
    then obtain fd where "acts removed K s fd w w'" using onClose_core [OF p(2), of s A w qs] p(3) h HSock by auto
    from watch_J_acts [OF j this w'(2)] show ?thesis using HSock by simp
  next
    case (HAcc a)
    then obtain x where x: "accs w a = Some x" using coreD(4) [OF p(3)] by (auto simp: served_def)
    then obtain f where f: "a_cb x = Some f" using served_accs [OF coreD(4) [OF p(3)]] by blast
    define w1 where "w1 = w\<lparr>accs := (accs w)(a \<mapsto> x\<lparr>a_err := Error_set (a_err x) ECONNRESET ''closed'' []\<rparr>)\<rparr>"
    have c1: "core ob (insert h A) {} w1 qs" unfolding w1_def by (rule core_accs [OF p(3) x]) auto
    have "Server_onAccept reg K (-1) w1 = Inr w'"
      using w'(1) HAcc x f by (simp add: handler_onClose_def Acceptor_onClose_def acc_invoke_def w1_def echo_env_def)
    then have jn: "joins added K (-1) w1 w'" using onAccept_core [OF p(2) c1, of "-1"] by auto
    have "watched ob g U V w1" using p(5) by (simp add: w1_def watched_def waits_in_def waits_out_def)
    moreover have "buried w1" using p(6) by (simp add: w1_def buried_def)
    ultimately have "watched ob g U V w'" "buried w'" using joins_watched [OF p(1) jn] by auto
    moreover have "watched ob g (U - {h}) (V - {h}) w' = watched ob g U V w'" using HAcc by (auto simp: watched_def)
    ultimately show ?thesis using p(1) w'(2) by (simp add: watch_J_def)
  qed
  then show ?thesis using w'(1,3) by blast
qed

sublocale watching: proactor_client "echo_env reg rem K" "watch_J added removed K ob g U V" calm for K ob g U V
proof (unfold_locales, goal_cases)
  case (1 A w)
  then show ?case using server.front by (auto simp: watch_J_def)
next
  case (2 A w t)
  obtain qs where p: "host added removed K ob" "core ob A {} w qs" using 2(1) by (rule watch_JD)
  obtain w' qs' where w': "Proactor_complete (echo_env reg rem K) t w = Inr w'" "core ob A {} w' qs'" "reports w w'"
      "\<exists>s fd. acts removed K s fd w w'"
    using complete_core [OF p 2(2,3)] by blast
  then have "echo_J added removed K ob A w'" using p(1) by (auto simp: echo_J_def)
  then show ?case using w'(1,3,4) watch_J_acts [OF 2(1)] watch_mono by blast
next
  case (3 A w)
  then show ?case using server.quiet by (auto simp: watch_J_def)
next
  case (4 A w h)
  then show ?case using server.extend by (auto simp: watch_J_def)
next
  case (5 A w C)
  then show ?case using server.weaken by (auto simp: watch_J_def)
next
  case (6 w t ts)
  obtain qs where p: "host added removed K ob" "core ob {} {} w qs" using 6(1) by (rule watch_JD)
  obtain w' qs' where w': "Proactor_timeout (echo_env reg rem K) t w = Inr w'" "core ob {} {} w' qs'" "calm w'"
      "\<exists>s fd. acts removed K s fd w w'"
    using timeout_core [OF p 6(2,3)] by metis
  then have "echo_J added removed K ob {} w'" using p(1) by (auto simp: echo_J_def)
  then show ?case using w'(1,3,4) watch_J_acts [OF 6(1)] watch_mono by blast
next
  case (7 A w t)
  then show ?case using server.timed by (auto simp: watch_J_def)
next
  case (8 h A w r)
  from read_watch [OF this] show ?case using watch_mono by blast
next
  case (9 h A w)
  then show ?case using server.was_alive by (auto simp: watch_J_def)
next
  case (10 h A w)
  from write_watch [OF this] show ?case using watch_mono by blast
next
  case (11 h A w)
  from close_watch [OF this] show ?case using watch_mono by blast
next
  case (12 A w)
  obtain qs where p: "edge_laws added removed K ob g" "echo_J added removed K ob A w" using 12 by (rule watch_JD)
  have e: "e_kern (echo_env reg rem K) = K" by (simp add: echo_env_def)
  from server.clock [OF p(2)] show ?case using watch_J_frame [OF 12] edgeD(5) [OF p(1)] by (simp add: e)
next
  case (13 A w n)
  obtain qs where p: "echo_J added removed K ob A w" using 13 by (rule watch_JD)
  from server.signal [OF p, of n] show ?case
    using watch_J_frame [OF 13] view_signal [of n w] by (simp add: echo_env_def SigHandler_cases Proactor_stop_def split: if_splits)
qed

text \<open>An event: afterwards the handler is not among those with an event that is still to be handled.\<close>

lemma event_watch:
  assumes j: "watch_J added removed K ob g U V (insert h A) w" and h: "h \<notin> A" and q: "calm w"
    and r: "server.one_event K cls rd wr h w = Some r"
  shows "\<exists>w'. r = Inr w' \<and> calm w' \<and>
    watch_J added removed K ob g (if cls \<or> rd then U - {h} else U) (if cls \<or> wr then V - {h} else V) A w'"
proof (cases cls)
  case True
  then show ?thesis using close_watch [OF j q h] r by (auto simp: server.one_event_def)
next
  case cls: False
  define U' where "U' = (if rd then U - {h} else U)"
  define V' where "V' = (if wr then V - {h} else V)"
  have wstep: "\<exists>w'. r = Inr w' \<and> calm w' \<and> watch_J added removed K ob g U' V' A w'"
    if j: "watch_J added removed K ob g U' V (insert h A) v" and q: "calm v"
      and r: "(if wr then bindO (Some (handler_onWrite (echo_env reg rem K) h v)) (Proactor_processCompletion (echo_env reg rem K))
        else Some (Inr v)) = Some r" for v
  proof (cases wr)
    case True
    obtain v1 where v1: "handler_onWrite (echo_env reg rem K) h v = Inr v1" "watch_J added removed K ob g U' (V - {h}) A v1"
      using write_watch [OF j h] by blast
    then have "Proactor_processCompletion (echo_env reg rem K) v1 = Some r" using r True by simp
    from watching.processCompletion [OF this v1(2)] show ?thesis using watching.quiet True by (auto simp: V'_def)
  next
    case False
    then show ?thesis using r q watching.weaken [OF j, of A] by (auto simp: V'_def)
  qed
  have "\<exists>w'. r = Inr w' \<and> calm w' \<and> watch_J added removed K ob g U' V' A w'"
  proof (cases rd)
    case False
    then show ?thesis using wstep [OF _ q] j r cls by (simp add: server.one_event_def U'_def)
  next
    case True
    let ?E = "echo_env reg rem K"
    obtain r1 where r1: "handler_onRead ?E h (w\<lparr>p_deleted := []\<rparr>) = Some r1"
      using r cls True by (cases "handler_onRead ?E h (w\<lparr>p_deleted := []\<rparr>)") (auto simp: server.one_event_def)
    obtain w1 where w1: "r1 = Inr w1" "watch_J added removed K ob g U' V A w1" "reports (w\<lparr>p_deleted := []\<rparr>) w1"
      using read_watch [OF j h r1] True by (auto simp: U'_def)
    obtain r2 where r2: "Proactor_processCompletion ?E w1 = Some r2"
      using r cls True r1 w1(1) by (cases "Proactor_processCompletion ?E w1") (auto simp: server.one_event_def)
    obtain w2 where w2: "r2 = Inr w2" "watch_J added removed K ob g U' V A w2" "reports w1 w2" "drained w2"
      using watching.processCompletion [OF r2 w1(2)] by blast
    have rest: "(if h \<in> set (p_deleted w2) then Some (Inr w2)
        else if wr then bindO (Some (handler_onWrite ?E h w2)) (Proactor_processCompletion ?E) else Some (Inr w2)) = Some r"
      using r cls True r1 r2 w1(1) w2(1) by (simp add: server.one_event_def)
    show ?thesis
    proof (cases "h \<in> set (p_deleted w2)")
      case True
      have "HSock s \<in> V - {h} \<or> waits_out ob g s w2" if "HSock s \<in> V \<or> waits_out ob g s w2" for s
        using that True w2(2) by (cases "HSock s = h") (auto simp: watch_J_def buried_def waits_out_def)
      then have "watched ob g U' V' w2" using w2(2) unfolding watch_J_def watched_def V'_def by auto
      then show ?thesis using rest True w2 watching.quiet by (auto simp: watch_J_def)
    next
      case False
      have "alive h (w\<lparr>p_deleted := []\<rparr>)" using watching.was_alive [OF j] by (simp add: alive_def split: handler.splits)
      then have "alive h w2" using reports_trans [OF w1(3) w2(3)] False by (auto simp: reports_def)
      then have "watch_J added removed K ob g U' V (insert h A) w2" using watching.extend w2 by blast
      then show ?thesis using wstep watching.quiet [OF w2(2,4)] rest False by simp
    qed
  qed
  then show ?thesis using cls by (simp add: U'_def V'_def)
qed

lemma reported_Cons: "reported flag evs \<subseteq> reported flag ((ev, h) # evs)"
  "ev AND flag = 0 \<Longrightarrow> reported flag ((ev, h) # evs) \<subseteq> reported flag evs"
  "reported flag ((ev, h) # evs) - {h} \<subseteq> reported flag evs"
  by (auto simp: reported_def)

lemma batch_watch:
  "watch_J added removed K ob g (reported EPOLLIN evs) (reported EPOLLOUT evs) (set (map snd evs)) w \<Longrightarrow>
   distinct (map snd evs) \<Longrightarrow> calm w \<Longrightarrow> batch (Epoll_event (echo_env reg rem K)) evs w = Some r \<Longrightarrow>
   \<exists>w'. r = Inr w' \<and> watch_J added removed K ob g {} {} {} w' \<and> calm w'"
proof (induction evs arbitrary: w)
  case Nil
  then show ?case by (auto simp: reported_def)
next
  case (Cons a evs)
  obtain ev h where a: "a = (ev, h)" by fastforce
  let ?c = "ev AND EPOLLERR \<noteq> 0 \<or> ev AND EPOLLHUP \<noteq> 0" and ?r = "ev AND EPOLLIN \<noteq> 0 \<or> ev AND EPOLLPRI \<noteq> 0"
    and ?w = "ev AND EPOLLOUT \<noteq> 0"
  let ?U = "reported EPOLLIN ((ev, h) # evs)" and ?V = "reported EPOLLOUT ((ev, h) # evs)"
  obtain r1 where r1: "Epoll_event (echo_env reg rem K) (ev, h) w = Some r1"
    using Cons.prems(4) a by (cases "Epoll_event (echo_env reg rem K) (ev, h) w") auto
  have "watch_J added removed K ob g ?U ?V (insert h (set (map snd evs))) w" "h \<notin> set (map snd evs)"
    using Cons.prems(1,2) a by auto
  then obtain w1 where w1: "r1 = Inr w1" "calm w1"
    "watch_J added removed K ob g (if ?c \<or> ?r then ?U - {h} else ?U) (if ?c \<or> ?w then ?V - {h} else ?V) (set (map snd evs)) w1"
    using event_watch [OF _ _ Cons.prems(3) r1 [unfolded server.Epoll_event_one]] by blast
  have "(if ?c \<or> ?r then ?U - {h} else ?U) \<subseteq> reported EPOLLIN evs" "(if ?c \<or> ?w then ?V - {h} else ?V) \<subseteq> reported EPOLLOUT evs"
    using reported_Cons(2,3) by (simp_all split: if_split)
  from Cons.IH [OF watch_mono [OF w1(3) this] _ w1(2)] show ?case using Cons.prems(2,4) a r1 w1(1) by simp
qed

text \<open>A round of the loop that goes on.\<close>

lemma waited_watch:
  assumes wl: "wait_law (ret, en, evs, sigs, k) ob (os w)" and ew: "edge_wait (ret, en, evs, sigs, k) ob g (os w)"
    and j: "watch_J added removed K ob g {} {} {} w" and q: "calm w"
    and r: "waited (echo_env reg rem K) (Epoll_event (echo_env reg rem K)) msg (ret, en, evs, sigs, k) w = Some (Inr (None, w'))"
  shows "watch_J added removed K ob g {} {} {} w'"
proof -
  let ?E = "echo_env reg rem K" and ?evs = "take (nat ret) evs"
  let ?U = "reported EPOLLIN ?evs" and ?V = "reported EPOLLOUT ?evs"
  obtain qs where p: "edge_laws added removed K ob g" "echo_J added removed K ob {} w" "watched ob g {} {} w" "buried w"
    using j by (rule watch_JD)
  have po: "distinct (map snd ?evs)" "echo_J added removed K ob (set (map snd ?evs)) (w\<lparr>os := k\<rparr>)" "calm (w\<lparr>os := k\<rparr>)"
    using polls_ok [OF wl p(2) q] by (simp_all add: server.polls_def)
  have "(HSock s \<in> ?U \<or> waits_in ob g s (w\<lparr>os := k\<rparr>)) \<and> (HSock s \<in> ?V \<or> waits_out ob g s (w\<lparr>os := k\<rparr>))" for s
  proof -
    have "waits_in ob g s w" "waits_out ob g s w" using p(3) by (simp_all add: watched_def)
    moreover have "armed_in ob g (os w) fd (HSock s) \<Longrightarrow> armed_in ob g k fd (HSock s) \<or> HSock s \<in> ?U"
      "armed_out ob g (os w) fd (HSock s) \<Longrightarrow> armed_out ob g k fd (HSock s) \<or> HSock s \<in> ?V" for fd
      using ew unfolding edge_wait_def by auto
    ultimately show ?thesis unfolding waits_in_def waits_out_def by auto
  qed
  then have "watch_J added removed K ob g ?U ?V (set (map snd ?evs)) (w\<lparr>os := k\<rparr>)"
    using p(1,4) po(2) by (simp add: watch_J_def watched_def buried_def)
  then have "watching.polls K ob g ?U ?V w ?evs k" using po by (simp add: watching.polls_def)
  define w1 where "w1 = fold (e_signal ?E) sigs (w\<lparr>os := k\<rparr>)"
  note j1 = watching.polls_after [OF \<open>watching.polls K ob g ?U ?V w ?evs k\<close>, of sigs, folded w1_def]
  have n: "\<not> p_stop w1" "0 \<le> ret" using r by (auto simp: waited_def Let_def w1_def [symmetric] split: if_splits)
  have timers: "watch_J added removed K ob g {} {} {} w'"
    if "watch_J added removed K ob g {} {} {} v" "calm v" "bindO (Proactor_processTimer ?E v) (\<lambda>w. Some (Inr (None, w))) = Some (Inr (None, w'))" for v
    using watching.timer_end [OF that(3,1,2)] by auto
  show ?thesis
  proof (cases "ret = 0")
    case True
    then have "?U = {}" "?V = {}" by (simp_all add: reported_def)
    then have "watch_J added removed K ob g {} {} {} w1" using j1(2) by simp
    then show ?thesis using timers j1(3) r n True by (simp add: waited_def Let_def w1_def [symmetric])
  next
    case False
    then have r': "bindO (batch (Epoll_event ?E) ?evs w1) (\<lambda>w. bindO (Proactor_processTimer ?E w) (\<lambda>w. Some (Inr (None :: bool option, w)))) = Some (Inr (None, w'))"
      using r n by (simp add: waited_def Let_def w1_def [symmetric])
    then obtain r1 where r1: "batch (Epoll_event ?E) ?evs w1 = Some r1" by (cases "batch (Epoll_event ?E) ?evs w1") auto
    then obtain w2 where "r1 = Inr w2" "watch_J added removed K ob g {} {} {} w2" "calm w2"
      using batch_watch [OF j1(1) po(1) j1(3)] by blast
    then show ?thesis using timers r' r1 by simp
  qed
qed

end

section \<open>The reachable states\<close>

lemma serving_watched:
  assumes L: "linux K ob" and k: "o_reg ob k = Map.empty" and el: "edge_laws (epoll_added K) (epoll_removed K) K ob g"
    and ew: "\<And>efd ms k. edge_wait (k_poll_wait K efd ms k) ob g k"
  shows "serving K m k w \<Longrightarrow> watch_J (epoll_added K) (epoll_removed K) K ob g {} {} {} w \<and> calm w"
proof (induction rule: serving.induct)
  case (start w)
  then have "quiescent K ob w" "socks w = Map.empty" "p_deleted w = []" using startup_quiescent [OF L k, of m] by auto
  then show ?case using el by (simp add: quiescent_def watch_J_def watched_def waits_in_def waits_out_def buried_def)
next
  case (round w w')
  obtain ret en evs sigs k where p: "k_poll_wait K (p_fd w) (p_pollIntervalMsec w) (os w) = (ret, en, evs, sigs, k)"
    by (metis prod_cases5)
  have wl: "wait_law (ret, en, evs, sigs, k) ob (os w)" using linuxD(3) [OF L, of "p_fd w" "p_pollIntervalMsec w" "os w"] p by simp
  have e: "edge_wait (ret, en, evs, sigs, k) ob g (os w)" using ew [of "p_fd w" "p_pollIntervalMsec w" "os w"] p by simp
  have j: "watch_J (epoll_added K) (epoll_removed K) K ob g {} {} {} w" "calm w" using round.IH by auto
  have "e_kern (epoll_env K) = K" by (simp add: epoll_env_def echo_env_def)
  then have r: "waited (echo_env (Epoll_register K) (Epoll_remove K) K) (Epoll_event (echo_env (Epoll_register K) (Epoll_remove K) K))
      ''epoll_wait fail [%d][%s]'' (ret, en, evs, sigs, k) w = Some (Inr (None, w'))"
    using round.hyps(2) p unfolding Epoll_round_waited epoll_env_def by simp
  have "quiescent K ob w" using j by (simp add: quiescent_def watch_J_def)
  then have "quiescent K ob w'" using quiescent_round [OF L _ round.hyps(2)] by auto
  then show ?case using epe.waited_watch [OF wl e j r] by (simp add: quiescent_def)
qed

end
