(* ===== verification/ClientTotal.thy ===== *)
theory ClientTotal
  imports Client
begin

text \<open>
  When the loops of the proactor end. A client that gives a measure which every completion lowers,
  and whose read handlers and timer loop end, gets rounds that end. The condition \<open>C\<close> is what the
  measure needs of the system.
\<close>

locale ending_client = proactor_client E J Q
  for E :: "('cb, 'acb, 'k) env" and J :: "handler set \<Rightarrow> ('cb, 'acb, 'k) world \<Rightarrow> bool"
    and Q :: "('cb, 'acb, 'k) world \<Rightarrow> bool" +
  fixes C :: bool and M :: "('cb, 'acb, 'k) world \<Rightarrow> nat"
  assumes lowers: "C \<Longrightarrow> J A w \<Longrightarrow> queue_front (toks w) = Inr t \<Longrightarrow> t \<noteq> Head \<Longrightarrow> Proactor_complete E t w = Inr w' \<Longrightarrow> M w' < M w"
    and read_ends: "C \<Longrightarrow> J (insert h A) w \<Longrightarrow> h \<notin> A \<Longrightarrow> handler_onRead E h (w\<lparr>p_deleted := []\<rparr>) \<noteq> None"
    and timers_end: "C \<Longrightarrow> J {} w \<Longrightarrow> Q w \<Longrightarrow> Proactor_timerLoop E now w \<noteq> None"
begin

lemma completion_ends: "C \<Longrightarrow> J A w \<Longrightarrow> Proactor_processCompletion E w \<noteq> None"
proof (induction "M w" arbitrary: w rule: less_induct)
  case less
  obtain t where t: "queue_front (toks w) = Inr t" using front [OF less.prems(2)] by blast
  show ?case
  proof (cases "t = Head")
    case True
    then show ?thesis using t by (subst Proactor_processCompletion.simps) simp
  next
    case False
    then obtain w' where w': "Proactor_complete E t w = Inr w'" "J A w'" using complete [OF less.prems(2) t] by blast
    have "Proactor_processCompletion E w' \<noteq> None"
      using less.hyps [OF lowers [OF less.prems t False w'(1)] less.prems(1) w'(2)] .
    then show ?thesis using t False w'(1) by (subst Proactor_processCompletion.simps) simp
  qed
qed

lemma completed:
  assumes "C" and "J A w"
  obtains w' where "Proactor_processCompletion E w = Some (Inr w')" "J A w'" "reports w w'" "drained w'"
  using completion_ends [OF assms] processCompletion [OF _ assms(2)] by blast

lemma write_ends:
  assumes c: "C" and j: "J (insert h A) w" and h: "h \<notin> A"
  shows "bindO (Some (handler_onWrite E h w)) (Proactor_processCompletion E) \<noteq> None"
proof -
  obtain w1 where "handler_onWrite E h w = Inr w1" "J A w1" using write_step [OF j h] by blast
  then show ?thesis using completion_ends [OF c] by simp
qed

lemma one_event_ends:
  assumes c: "C" and j: "J (insert h A) w" and h: "h \<notin> A" and q: "Q w"
  shows "one_event cls rd wr h w \<noteq> None"
proof (cases "cls \<or> \<not> rd")
  case True
  then show ?thesis using write_ends [OF c j h] by (auto simp: one_event_def)
next
  case False
  obtain r1 where r1: "handler_onRead E h (w\<lparr>p_deleted := []\<rparr>) = Some r1" using read_ends [OF c j h] by blast
  then obtain w1 where w1: "r1 = Inr w1" "J A w1" "reports (w\<lparr>p_deleted := []\<rparr>) w1" using read_step [OF j h] by blast
  obtain w2 where w2: "Proactor_processCompletion E w1 = Some (Inr w2)" "J A w2" "reports w1 w2" "drained w2"
    using completed [OF c w1(2)] .
  have e: "one_event cls rd wr h w =
      (if h \<in> set (p_deleted w2) then Some (Inr w2)
       else if wr then bindO (Some (handler_onWrite E h w2)) (Proactor_processCompletion E) else Some (Inr w2))"
    using False r1 w1(1) w2(1) by (simp add: one_event_def)
  show ?thesis
  proof (cases "h \<in> set (p_deleted w2)")
    case True
    then show ?thesis using e by simp
  next
    case gone: False
    have "alive h (w\<lparr>p_deleted := []\<rparr>)" using was_alive [OF j] by (simp add: alive_def split: handler.splits)
    then have "alive h w2" using reports_trans [OF w1(3) w2(3)] gone by (auto simp: reports_def)
    then have "J (insert h A) w2" using extend w2 by blast
    then show ?thesis using e gone write_ends [OF c _ h] by simp
  qed
qed

lemma batch_ends:
  assumes st: "event_step step" and c: "C"
  shows "J (set (map snd evs)) w \<Longrightarrow> distinct (map snd evs) \<Longrightarrow> Q w \<Longrightarrow> batch step evs w \<noteq> None"
proof (induction evs arbitrary: w)
  case (Cons a evs)
  obtain ev h where a: "a = (ev, h)" by fastforce
  have j: "J (insert h (set (map snd evs))) w" "h \<notin> set (map snd evs)" using Cons.prems(1,2) a by auto
  obtain cls rd wr where e: "step (ev, h) = one_event cls rd wr h" using st unfolding event_step_def by blast
  obtain r1 where r1: "step (ev, h) w = Some r1"
    using one_event_ends [OF c j Cons.prems(3)] unfolding e by blast
  then obtain w1 where w1: "r1 = Inr w1" "J (set (map snd evs)) w1" "Q w1"
    using one_event_ok [OF j Cons.prems(3) r1 [unfolded e]] by blast
  then show ?case using Cons.IH [OF w1(2) _ w1(3)] Cons.prems(2) a r1 by simp
qed simp

lemma timer_ends:
  assumes "C" and "J {} w" and "Q w"
  shows "bindO (Proactor_processTimer E w) (\<lambda>w. Some (Inr (None, w))) \<noteq> None"
proof -
  obtain now k where k: "k_gettimeofday (e_kern E) (os w) = (now, k)" by fastforce
  have "J {} (w\<lparr>os := k\<rparr>)" "Q (w\<lparr>os := k\<rparr>)" using clock [OF assms(2)] assms(3) k by simp_all
  from timers_end [OF assms(1) this] obtain r where "Proactor_processTimer E w = Some r"
    using k by (auto simp: Proactor_processTimer_def)
  then show ?thesis by (cases r) simp_all
qed

lemma waited_ends:
  assumes st: "event_step step" and c: "C" and ok: "polls w (take (nat ret) evs) k"
  shows "waited E step msg (ret, en, evs, sigs, k) w \<noteq> None"
proof -
  define w1 where "w1 = fold (e_signal E) sigs (w\<lparr>os := k\<rparr>)"
  note j = polls_after [OF ok, of sigs, folded w1_def]
  have d: "distinct (map snd (take (nat ret) evs))" using ok by (simp add: polls_def)
  obtain r where r: "batch step (take (nat ret) evs) w1 = Some r" using batch_ends [OF st c j(1) d j(3)] by blast
  then obtain w2 where w2: "r = Inr w2" "J {} w2" "Q w2" using batch_ok [OF st j(1) d j(3)] by blast
  show ?thesis
    using r w2(1) timer_ends [OF c w2(2,3)] timer_ends [OF c j(2,3)]
    by (auto simp: waited_def Let_def w1_def [symmetric])
qed

end

end
