(* ===== verification/EchoBudget.thy ===== *)
theory EchoBudget
  imports ClientTotal EchoServing
begin

unbundle bit_operations_syntax

text \<open>
  The rounds of the echo server end when its peers send finitely much. The measure counts what may
  still arrive and weighs the completions in the queue by what they lead to: a read that brought
  data leads to a write, a write to a read, and only a read that brought data, which lowers what may
  still arrive, leads on.
\<close>

section \<open>A finite input\<close>

text \<open>What the peers may still send, in bytes, and how many may still connect.\<close>

record 'k budget =
  b_in :: "'k \<Rightarrow> nat"
  b_conn :: "'k \<Rightarrow> nat"

definition spends :: "'k budget \<Rightarrow> 'k \<Rightarrow> 'k \<Rightarrow> bool" where
  "spends B k k' \<longleftrightarrow> b_in B k' \<le> b_in B k \<and> b_conn B k' \<le> b_conn B k"

definition budget_laws ::
  "(int \<Rightarrow> handler \<Rightarrow> 'k \<Rightarrow> 'k \<Rightarrow> bool) \<Rightarrow> ('k \<Rightarrow> 'k \<Rightarrow> bool) \<Rightarrow> 'k kernel \<Rightarrow> 'k budget \<Rightarrow> bool" where
  "budget_laws added removed K B \<longleftrightarrow>
     (\<forall>fd n k ret en bs k'. k_read K fd n k = (ret, en, bs, k') \<longrightarrow> spends B k k' \<and> (0 < ret \<longrightarrow> b_in B k' < b_in B k)) \<and>
     (\<forall>fd bs k ret en k'. k_write K fd bs k = (ret, en, k') \<longrightarrow> spends B k k') \<and>
     (\<forall>fd k soc en addr k'. k_accept K fd k = (soc, en, addr, k') \<longrightarrow> spends B k k' \<and> (soc \<noteq> -1 \<longrightarrow> b_conn B k' < b_conn B k)) \<and>
     (\<forall>k. spends B k (snd (k_gettimeofday K k))) \<and> (\<forall>fd k. spends B k (k_close K fd k)) \<and>
     (\<forall>fd k. spends B k (snd (snd (k_getfl K fd k)))) \<and> (\<forall>fd fl k. spends B k (snd (snd (k_setfl K fd fl k)))) \<and>
     (\<forall>fd h k k'. added fd h k k' \<longrightarrow> spends B k k') \<and> (\<forall>k k'. removed k k' \<longrightarrow> spends B k k')"

lemma budgetD:
  assumes "budget_laws added removed K B"
  shows "k_read K fd n k = (ret, en, bs, k') \<Longrightarrow> spends B k k' \<and> (0 < ret \<longrightarrow> b_in B k' < b_in B k)"
    and "k_write K fd ws k = (ret, en, k') \<Longrightarrow> spends B k k'"
    and "k_accept K fd k = (soc, en, addr, k') \<Longrightarrow> spends B k k' \<and> (soc \<noteq> -1 \<longrightarrow> b_conn B k' < b_conn B k)"
    and "spends B k (snd (k_gettimeofday K k))" and "spends B k (k_close K fd k)"
    and "spends B k (snd (snd (k_getfl K fd k)))" and "spends B k (snd (snd (k_setfl K fd fl k)))"
    and "added fd h k k' \<Longrightarrow> spends B k k'" and "removed k k' \<Longrightarrow> spends B k k'"
  by (use assms in \<open>unfold budget_laws_def, elim conjE, metis\<close>)+

lemma spends_refl [simp]: "spends B k k"
  by (simp add: spends_def)

lemma spends_trans [trans]: "spends B k k1 \<Longrightarrow> spends B k1 k2 \<Longrightarrow> spends B k k2"
  by (simp add: spends_def)

section \<open>The measure\<close>

text \<open>A completion that the callback will take for data.\<close>

definition brings_data :: "'cb token \<Rightarrow> bool" where
  "brings_data z \<longleftrightarrow> e_code (t_err z) = 0 \<and> 0 < t_ioSize z"

definition weight :: "tokref \<Rightarrow> 'cb token option \<Rightarrow> nat" where
  "weight t v =
     (case v of None \<Rightarrow> 0
      | Some z \<Rightarrow> if \<not> queued_mode (t_mode z) then 0
                  else if \<not> brings_data z then 1 else (case t of Rt _ \<Rightarrow> 3 | _ \<Rightarrow> 2))"

definition load :: "('cb, 'acb, 'k) world \<Rightarrow> nat" where
  "load w = (\<Sum>t\<in>{t. weight t (view w t) \<noteq> 0}. weight t (view w t))"

definition echo_measure :: "'k budget \<Rightarrow> 'k echo_world \<Rightarrow> nat" where
  "echo_measure B w = 2 * b_in B (os w) + load w"

lemma load_superset:
  assumes "finite S" and "\<And>t. weight t (view w t) \<noteq> 0 \<Longrightarrow> t \<in> S"
  shows "load w = (\<Sum>t\<in>S. weight t (view w t))"
  unfolding load_def using assms by (intro sum.mono_neutral_left) auto

text \<open>Only the tokens of the queue weigh anything.\<close>

lemma weight_finite:
  assumes "wf w qs"
  shows "finite {t. weight t (view w t) \<noteq> 0}"
proof -
  have "{t. weight t (view w t) \<noteq> 0} \<subseteq> set qs"
  proof
    fix t
    assume "t \<in> {t. weight t (view w t) \<noteq> 0}"
    then obtain z where z: "view w t = Some z" "queued_mode (t_mode z)" by (auto simp: weight_def split: option.splits if_splits)
    then obtain x where "toks w t = Some x" "t \<noteq> Head" "z = unlink x" by (auto dest: view_SomeD)
    then show "t \<in> set qs" using modes_okD(2) [OF wfD(3) [OF assms]] z(2) by simp
  qed
  then show ?thesis by (rule finite_subset) simp
qed

lemma load_upd:
  assumes f: "finite {t. weight t (view w t) \<noteq> 0}" and v: "view w' = (view w)(t := v)"
  shows "load w' + weight t (view w t) = load w + weight t v" and "finite {t. weight t (view w' t) \<noteq> 0}"
proof -
  let ?S = "insert t {t. weight t (view w t) \<noteq> 0}"
  have S: "finite ?S" using f by simp
  have "load w = (\<Sum>u\<in>?S. weight u (view w u))" by (rule load_superset [OF S]) simp
  also have "... = weight t (view w t) + (\<Sum>u\<in>?S - {t}. weight u (view w u))" using S by (subst sum.remove [of _ t]) auto
  finally have a: "load w = weight t (view w t) + (\<Sum>u\<in>?S - {t}. weight u (view w u))" .
  have in_S: "u \<in> ?S" if "weight u (view w' u) \<noteq> 0" for u using that v by (cases "u = t") auto
  have "load w' = (\<Sum>u\<in>?S. weight u (view w' u))" by (rule load_superset [OF S in_S])
  also have "... = weight t (view w' t) + (\<Sum>u\<in>?S - {t}. weight u (view w' u))" using S by (subst sum.remove [of _ t]) auto
  also have "(\<Sum>u\<in>?S - {t}. weight u (view w' u)) = (\<Sum>u\<in>?S - {t}. weight u (view w u))"
    by (rule sum.cong) (use v in auto)
  finally show "load w' + weight t (view w t) = load w + weight t v" using a v by simp
  show "finite {t. weight t (view w' t) \<noteq> 0}" by (rule finite_subset [OF _ S]) (use in_S in blast)
qed

lemma weight_le: "weight t v \<le> 3" "weight (Wt s) v \<le> 2"
  by (auto simp: weight_def split: option.splits tokref.splits)

lemma weight_idle: "\<not> queued_mode (t_mode z) \<Longrightarrow> weight t (Some z) = 0"
  by (simp add: weight_def)

section \<open>What the callbacks spend\<close>

lemma os_spends:
  assumes "budget_laws added removed K B" and "spends B k0 k" and "k' \<in> {k, snd (k_gettimeofday K k)}"
  shows "spends B k0 k'" and "b_in B k' \<le> b_in B k"
  using assms spends_trans [OF assms(2) budgetD(4) [OF assms(1)]] budgetD(4) [OF assms(1), of k]
  by (auto simp: spends_def)

context echo_poller
begin

lemma startRecv_spends:
  assumes bl: "budget_laws added removed K B" and w: "wf w qs" and i: "idle w s" and fd: "socks w s = Some fd"
    and r: "EchoClient_startRecv K s w = Inr w'"
  shows "\<exists>y. view w' = (view w)(Rt s \<mapsto> y) \<and> spends B (os w) (os w') \<and>
    (brings_data y \<longrightarrow> b_in B (os w') < b_in B (os w))"
proof -
  obtain x where x: "toks w (Rt s) = Some x" "t_mode x = M_NONE" using i by (rule idleD)
  obtain ret en bs k where rd: "k_read K fd (int BUFSIZE) (os w) = (ret, en, bs, k)" by (metis prod_cases4)
  obtain w1 qs1 y where w1: "Socket_readSome K s (recvBuf s) (int BUFSIZE) (OnRead s) TIMEOUT_MS w = Inr (True, w1)"
    "settled w qs (Rt s) w1 qs1 y" "outcome y = readSome_result ret en" "os w1 \<in> {k, snd (k_gettimeofday K k)}"
    using readSome_ok [OF w x fd _ rd] by fastforce
  have w': "w' = w1" using r w1(1) by (simp add: EchoClient_startRecv_def)
  have sp: "spends B (os w) k" "0 < ret \<longrightarrow> b_in B k < b_in B (os w)" using budgetD(1) [OF bl rd] by simp_all
  have "0 < ret" if "brings_data y" using that w1(3) by (auto simp: brings_data_def outcome_def readSome_result_def split: if_splits)
  then show ?thesis using settledD(2) [OF w1(2)] os_spends [OF bl sp(1) w1(4)] sp(2) w' by auto
qed

lemma answer_spends:
  assumes bl: "budget_laws added removed K B" and w: "wf w qs" and i: "idle w s" and fd: "socks w s = Some fd"
    and n: "0 < n" and err: "e_code err = 0" and r: "EchoClient_onRead rem K s err n w = Inr w'"
  shows "\<exists>y. view w' = (view w)(Wt s \<mapsto> y) \<and> spends B (os w) (os w')"
proof -
  define w0 where "w0 = w\<lparr>mem := mem_store (sendBuf s) (mem_load (mem w) (recvBuf s) (nat n)) (mem w)\<rparr>"
  obtain y where y: "toks w0 (Wt s) = Some y" "t_mode y = M_NONE" using i unfolding w0_def by (auto elim: idleD)
  have w0: "wf w0 qs" "socks w0 s = Some fd" "os w0 = os w" "view w0 = view w" using w fd by (simp_all add: w0_def)
  obtain ret en k where wr: "k_write K fd (mem_load (mem w0) (sendBuf s) (nat n)) (os w0) = (ret, en, k)" by (metis prod_cases3)
  obtain w1 qs1 z where w1: "Socket_writeAll K s (sendBuf s) n (OnWrite s) TIMEOUT_MS w0 = Inr (True, w1)"
    "settled w0 qs (Wt s) w1 qs1 z" "os w1 \<in> {k, snd (k_gettimeofday K k)}"
    using writeAll_ok [OF w0(1) y w0(2) _ wr] n by fastforce
  have "w' = w1" using r w1(1) n err by (simp add: EchoClient_onRead_def w0_def)
  moreover have "spends B (os w) k" using budgetD(2) [OF bl wr] w0(3) by simp
  ultimately show ?thesis using settledD(2) [OF w1(2)] os_spends(1) [OF bl _ w1(3)] w0(4) by auto
qed

lemma dtor_spends:
  assumes bl: "budget_laws added removed K B" and w: "wf w qs" and fd: "socks w s = Some fd"
    and r: "EchoClient_dtor rem K s w = Inr w'"
  shows "view w' = (view w)(Rt s := None, Wt s := None) \<and> spends B (os w) (os w')"
proof -
  obtain w1 k where w1: "EchoClient_dtor rem K s w = Inr w1" "view w1 = (view w)(Rt s := None, Wt s := None)"
    "removed (os w) k" "os w1 = (if fd = -1 then k else k_close K fd k)"
    using delete_ok [OF w fd, of K] unfolding EchoClient_dtor_def by blast
  have "spends B (os w) (os w1)"
    using budgetD(9) [OF bl w1(3)] spends_trans [OF budgetD(9) [OF bl w1(3)] budgetD(5) [OF bl]] w1(4) by simp
  then show ?thesis using r w1(1,2) by simp
qed

lemma dtor_load:
  assumes f: "finite {t. weight t (view w t) \<noteq> 0}" and v: "view w' = (view w)(Rt s := None, Wt s := None)"
  shows "load w' \<le> load w"
proof -
  define w1 where "w1 = w\<lparr>toks := (toks w)(Rt s := None)\<rparr>"
  have v1: "view w1 = (view w)(Rt s := None)" by (auto simp: w1_def view_def fun_eq_iff)
  have "load w1 \<le> load w" using load_upd(1) [OF f v1] by (simp add: weight_def)
  moreover have "view w' = (view w1)(Wt s := None)" using v v1 by simp
  then have "load w' \<le> load w1" using load_upd(1) [OF load_upd(2) [OF f v1]] by (fastforce simp: weight_def)
  ultimately show ?thesis by simp
qed

text \<open>A completion lowers the measure.\<close>

lemma complete_lowers:
  assumes bl: "budget_laws added removed K B" and L: "host added removed K ob" and c: "core ob A {} w qs"
    and f: "queue_front (toks w) = Inr t" "t \<noteq> Head" and r: "Proactor_complete (echo_env reg rem K) t w = Inr w'"
  shows "echo_measure B w' < echo_measure B w \<and> spends B (os w) (os w')"
proof -
  have q: "t \<in> set qs" using f queue_front_ok [OF wfD(1) [OF coreD(1) [OF c]]] by (cases qs) auto
  obtain z where z: "view w t = Some z" "queued_mode (t_mode z)" using queued_view [OF coreD(1) [OF c] q] .
  obtain s fd where s: "t \<in> {Rt s, Wt s}" "socks w s = Some fd" using view_live [OF coreD(1) [OF c] z(1)] .
  obtain u y where uy: "view w (Rt s) = Some u" "view w (Wt s) = Some y" "client_tokens ob (os w) (mem w) s fd u y"
    using core_client [OF c s(2)] .
  obtain w1 where w1: "Proactor_take t w = Inr w1" "core ob A {s} w1 (remove1 t qs)" "idle w1 s" "HSock s \<notin> A"
    "reports w w1" "os w1 = os w" "mem w1 = mem w" "socks w1 = socks w" "view w1 = (view w)(t \<mapsto> z\<lparr>t_mode := M_NONE\<rparr>)"
    using take_core [OF c q s(1) z(1) s(2)] by blast
  have wf1: "wf w1 (remove1 t qs)" and s1: "socks w1 s = Some fd" using coreD(1) [OF w1(2)] w1(8) s(2) by simp_all
  note fin = weight_finite [OF coreD(1) [OF c]] and fin1 = weight_finite [OF wf1]
  have lw: "load w1 + weight t (Some z) = load w" using load_upd(1) [OF fin w1(9)] z(1) by (simp add: weight_def)
  obtain x1 where x1: "toks w1 t = Some x1" "t_cb x1 = t_cb z" "t_err x1 = t_err z" "t_ioSize x1 = t_ioSize z"
    by (rule view_toks_Some [of w1 t "z\<lparr>t_mode := M_NONE\<rparr>"]) (use w1(9) in auto)
  have st: "Proactor_complete (echo_env reg rem K) t w = invoke (echo_env reg rem K) (t_cb z) (t_err z) (t_ioSize z) w1"
    using w1(1) x1 by (simp add: Proactor_complete_def)
  have gone: ?thesis if "EchoClient_dtor rem K s w1 = Inr w'"
  proof -
    note d = dtor_spends [OF bl wf1 s1 that]
    have "load w' \<le> load w1" using dtor_load [OF fin1, of w' s] d by simp
    moreover have "0 < weight t (Some z)" using z(2) by (simp add: weight_def split: tokref.splits)
    ultimately show ?thesis using d lw w1(6) by (simp add: echo_measure_def spends_def)
  qed
  have idle0: "weight (Rt s) (view w1 (Rt s)) = 0" "weight (Wt s) (view w1 (Wt s)) = 0"
    using w1(3) by (auto elim!: idleD simp: weight_idle)
  show ?thesis
  proof (cases "t = Rt s")
    case True
    then have "z = u" using z uy by simp
    then have "t_cb z = Some (OnRead s)" using uy(3) z(2) by (auto simp: client_tokens_def)
    then have e: "EchoClient_onRead rem K s (t_err z) (t_ioSize z) w1 = Inr w'"
      using r unfolding st by (simp add: invoke_def echo_env_def echo_call_def)
    show ?thesis
    proof (cases "brings_data z")
      case False
      then show ?thesis using gone e by (auto simp: brings_data_def EchoClient_onRead_def split: if_splits)
    next
      case data: True
      obtain y' where y': "view w' = (view w1)(Wt s \<mapsto> y')" "spends B (os w1) (os w')"
        using answer_spends [OF bl wf1 w1(3) s1 _ _ e] data by (auto simp: brings_data_def)
      have "load w' \<le> load w1 + 2" using load_upd(1) [OF fin1 y'(1)] weight_le(2) [of s "Some y'"] idle0(2) by simp
      moreover have "weight t (Some z) = 3" using z(2) data True by (simp add: weight_def)
      ultimately show ?thesis using lw y'(2) w1(6) by (simp add: echo_measure_def spends_def)
    qed
  next
    case False
    then have zy: "z = y" "t = Wt s" using z uy s(1) by auto
    then have "t_cb z = Some (OnWrite s)" using uy(3) z(2) by (auto simp: client_tokens_def writing_def)
    then have e: "EchoClient_onWrite rem K s (t_err z) (t_ioSize z) w1 = Inr w'"
      using r unfolding st by (simp add: invoke_def echo_env_def echo_call_def)
    show ?thesis
    proof (cases "brings_data z")
      case False
      then show ?thesis using gone e by (auto simp: brings_data_def EchoClient_onWrite_def split: if_splits)
    next
      case data: True
      then have "EchoClient_startRecv K s w1 = Inr w'" using e by (simp add: brings_data_def EchoClient_onWrite_def)
      then obtain y' where y': "view w' = (view w1)(Rt s \<mapsto> y')" "spends B (os w1) (os w')"
        "brings_data y' \<longrightarrow> b_in B (os w') < b_in B (os w1)"
        using startRecv_spends [OF bl wf1 w1(3) s1] by blast
      have ld: "load w' = load w1 + weight (Rt s) (Some y')" using load_upd(1) [OF fin1 y'(1)] idle0(1) by simp
      have "weight t (Some z) = 2" using z(2) data zy(2) by (simp add: weight_def)
      moreover have "weight (Rt s) (Some y') \<le> (if brings_data y' then 3 else 1)" by (simp add: weight_def)
      ultimately show ?thesis using lw ld y'(2,3) w1(6) by (auto simp: echo_measure_def spends_def split: if_splits)
    qed
  qed
qed

end

section \<open>What a step spends\<close>

lemma acts_spends:
  assumes bl: "budget_laws added removed K B" and a: "acts removed K s fd w w'"
  shows "spends B (os w) (os w')"
proof -
  obtain w1 where w1: "os w1 = os w"
    "reads K s fd w1 w' \<or> writes K s fd w1 w' \<or> shrinks s w1 w' \<and> frees removed K fd (os w1) (os w')"
    using a by (auto simp: acts_def silent_def)
  have "spends B (os w) (os w')" if "reads K s fd w1 w'"
    using that os_spends(1) [OF bl] budgetD(1) [OF bl] w1(1) unfolding reads_def by metis
  moreover have "spends B (os w) (os w')" if "writes K s fd w1 w'"
    using that os_spends(1) [OF bl] budgetD(2) [OF bl] w1(1) unfolding writes_def by metis
  moreover have "spends B (os w) (os w')" if "frees removed K fd (os w1) (os w')"
    using that budgetD(9) [OF bl] spends_trans [OF _ budgetD(5) [OF bl]] w1(1) by (auto simp: frees_def)
  ultimately show ?thesis using w1(2) by blast
qed

lemma joins_spends:
  assumes bl: "budget_laws added removed K B" and a: "joins added K soc w w'"
  shows "spends B (os w) (os w')"
proof -
  obtain w1 where w1: "if soc = -1 then os w1 = os w else added soc (HSock (next_obj w)) (os w) (os w1)"
    "reads K (next_obj w) soc w1 w'"
    using a by (auto simp: joins_def)
  have "spends B (os w) (os w1)" using w1(1) budgetD(8) [OF bl] by (auto split: if_splits)
  then show ?thesis
    using w1(2) os_spends(1) [OF bl] spends_trans budgetD(1) [OF bl] unfolding reads_def by metis
qed

text \<open>Every round that asks for another one has taken a connection.\<close>

lemma admits_spends:
  assumes bl: "budget_laws added removed K B" and a: "admits added K b w w'"
  shows "spends B (os w) (os w')" and "b \<Longrightarrow> b_conn B (os w') < b_conn B (os w)"
proof -
  obtain soc w1 where w1: "takes K (os w) (os w1) soc" "w' = w1 \<and> \<not> b \<or> joins added K soc w1 w' \<and> (b \<longrightarrow> soc \<noteq> -1)"
    using a by (auto simp: admits_def)
  obtain fd so en ad k where k: "k_accept K fd (os w) = (so, en, ad, k)" "soc \<in> {so, -1}"
    "if so = -1 then os w1 = k else \<exists>e b e'. SetNonBlock K so True e k = (b, e', os w1)"
    using w1(1) by (auto simp: takes_def)
  have "spends B k k'" if "SetNonBlock K so nb e k = (c, e', k')" for nb e c e' k'
    using that by (rule SetNonBlock_calls)
      (simp, metis budgetD(6) [OF bl] snd_conv, metis budgetD(6,7) [OF bl] snd_conv spends_trans)
  then have "spends B k (os w1)" using k(3) by (auto split: if_splits)
  moreover note budgetD(3) [OF bl k(1)]
  ultimately have s: "spends B (os w) (os w1)" "soc \<noteq> -1 \<longrightarrow> b_conn B (os w1) < b_conn B (os w)"
    using k(2) by (auto simp: spends_def)
  show "spends B (os w) (os w')" using w1(2) s(1) spends_trans [OF s(1) joins_spends [OF bl]] by auto
  show "b_conn B (os w') < b_conn B (os w)" if b
    using that w1(2) s(2) joins_spends [OF bl, of soc w1 w'] by (auto simp: spends_def)
qed

context echo_poller
begin

lemma accept_ends:
  assumes bl: "budget_laws added removed K B" and L: "host added removed K ob"
  shows "core ob A {} w qs \<Longrightarrow> accs w a \<noteq> None \<Longrightarrow> Acceptor_onRead (echo_env reg rem K) a w \<noteq> None"
proof (induction "b_conn B (os w)" arbitrary: w qs rule: less_induct)
  case less
  obtain b w' qs' where w': "Acceptor_round (echo_env reg rem K) a w = Inr (b, w')" "core ob A {} w' qs'" "accs w' a \<noteq> None"
    "admits added K b w w'"
    using round_core [OF L less.prems] by blast
  show ?case
  proof (cases b)
    case True
    then have "Acceptor_onRead (echo_env reg rem K) a w' \<noteq> None"
      using less.hyps [OF _ w'(2,3)] admits_spends(2) [OF bl w'(4)] by simp
    then show ?thesis using w'(1) True by (subst Acceptor_onRead.simps) simp
  next
    case False
    then show ?thesis using w'(1) by (subst Acceptor_onRead.simps) simp
  qed
qed

sublocale ending: ending_client "echo_env reg rem K" "echo_J added removed K ob" calm "budget_laws added removed K B" "echo_measure B"
  for K ob B
proof (unfold_locales, goal_cases)
  case (1 A w t w')
  then show ?case using complete_lowers unfolding echo_J_def by blast
next
  case (2 h A w)
  obtain qs where L: "host added removed K ob" and c: "core ob (insert h A) {} w qs" using 2(2) by (rule echo_JD)
  have c0: "core ob (insert h A) {} (w\<lparr>p_deleted := []\<rparr>) qs" using core_deleted [OF c] .
  show ?case
  proof (cases h)
    case (HSock s)
    then show ?thesis by (simp add: handler_onRead_def)
  next
    case (HAcc a)
    then have "accs (w\<lparr>p_deleted := []\<rparr>) a \<noteq> None" using coreD(4) [OF c0] by (auto simp: served_def)
    from accept_ends [OF 2(1) L c0 this] show ?thesis using HAcc by (simp add: handler_onRead_def)
  qed
next
  case (3 w now)
  then show ?case using timerLoop_returns unfolding echo_J_def by blast
qed

end

section \<open>Every round of the server ends\<close>

lemma quiescent_round_ends:
  assumes L: "linux K ob" and bl: "budget_laws (epoll_added K) (epoll_removed K) K B" and q: "quiescent K ob w"
  shows "Epoll_round (epoll_env K) w \<noteq> None"
proof -
  obtain ret en evs sigs k where p: "k_poll_wait K (p_fd w) (p_pollIntervalMsec w) (os w) = (ret, en, evs, sigs, k)"
    by (metis prod_cases5)
  have "wait_law (ret, en, evs, sigs, k) ob (os w)" using linuxD(3) [OF L, of "p_fd w" "p_pollIntervalMsec w" "os w"] p by simp
  then have "epe.server.polls K K ob w (take (nat ret) evs) k"
    using q by (intro epe.polls_ok) (auto simp: quiescent_def)
  moreover have "e_kern (epoll_env K) = K" by (simp add: epoll_env_def echo_env_def)
  ultimately show ?thesis
    using epe.ending.waited_ends [OF epe.server.event_steps(1) bl] p unfolding Epoll_round_waited epoll_env_def by simp
qed

end
