(* ===== verification/Simulation.thy ===== *)
theory Simulation
  imports Environment Signals "HOL-Library.AList"
begin

text \<open>
  A concrete operating system that satisfies the laws: descriptors, registrations, connections that
  wait to be accepted, input that wait to be read, a budget for what a write may take, and a script
  of what the poller reports. It is the environment of the examples.
\<close>

record sim =
  s_fds :: "int list"
  s_reg :: "(int \<times> handler) list"
  s_conns :: nat
  s_input :: "(int \<times> byte list) list"
  s_room :: nat
  s_in :: "int \<Rightarrow> byte list"
  s_out :: "int \<Rightarrow> byte list"
  s_clock :: timeval
  s_polls :: "(32 word \<times> handler) list list"

definition EBADF :: int where "EBADF = 9"
definition EINTR :: int where "EINTR = 4"

definition new_fd :: "int list \<Rightarrow> int" where
  "new_fd fds = fold max fds 2 + 1"

lemma fold_max_ge: "(m::int) \<le> fold max fds m \<and> (\<forall>f\<in>set fds. f \<le> fold max fds m)"
proof (induction fds arbitrary: m)
  case (Cons a fds)
  from Cons [of "max a m"] show ?case by auto
qed simp

lemma new_fd: "new_fd fds \<notin> set fds" "0 \<le> new_fd fds" "new_fd fds \<noteq> -1"
  using fold_max_ge [of 2 fds] by (force simp: new_fd_def)+

text \<open>What is waiting on a descriptor: no entry is \<open>EAGAIN\<close>, an empty entry is the end of the stream.\<close>

definition sim_read :: "int \<Rightarrow> int \<Rightarrow> sim \<Rightarrow> int \<times> int \<times> byte list \<times> sim" where
  "sim_read fd n k =
     (if fd = -1 then (-1, EBADF, [], k)
      else case map_of (s_input k) fd of
        None \<Rightarrow> (-1, EAGAIN, [], k)
      | Some bs \<Rightarrow>
          (let now = take (nat n) bs; later = drop (nat n) bs
           in (int (List.length now), 0, now,
               k\<lparr>s_input := (if later = [] then AList.delete fd (s_input k) else AList.update fd later (s_input k)),
                 s_in := (s_in k)(fd := s_in k fd @ now)\<rparr>)))"

definition sim_write :: "int \<Rightarrow> byte list \<Rightarrow> sim \<Rightarrow> int \<times> int \<times> sim" where
  "sim_write fd bs k =
     (let now = take (s_room k) bs
      in if now = [] then (-1, EAGAIN, k\<lparr>s_room := 1024\<rparr>)
         else (int (List.length now), 0, k\<lparr>s_room := s_room k - List.length now, s_out := (s_out k)(fd := s_out k fd @ now)\<rparr>))"

definition sim_open :: "sim \<Rightarrow> int \<times> int \<times> sim" where
  "sim_open k = (let fd = new_fd (s_fds k) in (fd, 0, k\<lparr>s_fds := fd # s_fds k\<rparr>))"

definition sim_accept :: "int \<Rightarrow> sim \<Rightarrow> int \<times> int \<times> sockaddr_in \<times> sim" where
  "sim_accept fd k =
     (let a = \<lparr>sin_family = 2, sin_addr = 0, sin_port = 0\<rparr>; soc = new_fd (s_fds k)
      in if s_conns k = 0 then (-1, EAGAIN, a, k)
         else (soc, 0, a, k\<lparr>s_conns := s_conns k - 1, s_fds := soc # s_fds k,
                 s_in := (s_in k)(soc := []), s_out := (s_out k)(soc := [])\<rparr>))"

definition sim_close :: "int \<Rightarrow> sim \<Rightarrow> sim" where
  "sim_close fd k = k\<lparr>s_fds := filter (\<lambda>f. f \<noteq> fd) (s_fds k), s_reg := AList.delete fd (s_reg k)\<rparr>"

fun one_each :: "handler list \<Rightarrow> (32 word \<times> handler) list \<Rightarrow> (32 word \<times> handler) list" where
  "one_each hs [] = []"
| "one_each hs ((e, h) # evs) =
     (if h \<in> set hs then (e, h) # one_each (removeAll h hs) evs else one_each hs evs)"

definition sim_wait :: "sim \<Rightarrow> int \<times> int \<times> (32 word \<times> handler) list \<times> int list \<times> sim" where
  "sim_wait k =
     (case s_polls k of
        [] \<Rightarrow> (-1, EINTR, [], [SIGTERM], k)
      | evs # rest \<Rightarrow>
          (let evs' = one_each (map snd (filter (\<lambda>(fd, h). map_of (s_reg k) fd = Some h) (s_reg k))) evs
           in (int (List.length evs'), 0, evs', [], k\<lparr>s_polls := rest\<rparr>)))"

definition simK :: "sim kernel" where
  "simK =
     \<lparr>k_read = sim_read, k_write = sim_write, k_accept = sim_accept, k_socket = sim_open,
      k_reuseaddr = (\<lambda>_ _ k. (0, 0, k)), k_getfl = (\<lambda>_ k. (2, 0, k)), k_setfl = (\<lambda>_ _ k. (0, 0, k)),
      k_bind = (\<lambda>_ _ k. (0, 0, k)), k_listen = (\<lambda>_ _ k. (0, 0, k)), k_close = sim_close,
      k_gettimeofday = (\<lambda>k. (s_clock k, k)), k_poll_create = sim_open,
      k_poll_add = (\<lambda>_ fd _ h k. (0, 0, k\<lparr>s_reg := (fd, h) # s_reg k\<rparr>)),
      k_poll_del = (\<lambda>_ fd k. (0, 0, k\<lparr>s_reg := AList.delete fd (s_reg k)\<rparr>)),
      k_poll_wait = (\<lambda>_ _ k. sim_wait k), k_kqueue = sim_open,
      k_kevent_change = (\<lambda>_ fd _ _ h k. (0, 0, case h of Some h' \<Rightarrow> k\<lparr>s_reg := (fd, h') # s_reg k\<rparr>
                                          | None \<Rightarrow> k\<lparr>s_reg := AList.delete fd (s_reg k)\<rparr>)),
      k_kevent_wait = (\<lambda>_ _ k. sim_wait k), k_strerror = (\<lambda>_. ''?''), k_inet_addr = (\<lambda>_. 0x0100007F),
      k_inet_ntop = (\<lambda>_. Inr ''127.0.0.1''), k_htons = (\<lambda>p. p), k_indet = 0, k_fresh_tv = (\<lambda>_ _. Timeval 0 0)\<rparr>"

definition simOb :: "sim observer" where
  "simOb = \<lparr>o_open = (\<lambda>k. set (s_fds k)), o_reg = (\<lambda>k. map_of (s_reg k)), o_in = s_in, o_out = s_out\<rparr>"

section \<open>The simulation satisfies the laws\<close>

lemma simK_sel:
  "k_read simK = sim_read" "k_write simK = sim_write" "k_accept simK = sim_accept" "k_socket simK = sim_open"
  "k_close simK = sim_close" "k_poll_create simK = sim_open" "k_kqueue simK = sim_open"
  "k_poll_wait simK efd ms k = sim_wait k" "k_kevent_wait simK kfd tmo k = sim_wait k"
  "k_getfl simK fd k = (2, 0, k)" "k_setfl simK fd fl k = (0, 0, k)" "k_gettimeofday simK k = (s_clock k, k)"
  "k_reuseaddr simK fd v k = (0, 0, k)" "k_bind simK fd a k = (0, 0, k)" "k_listen simK fd n k = (0, 0, k)"
  "k_poll_add simK efd fd ev h k = (0, 0, k\<lparr>s_reg := (fd, h) # s_reg k\<rparr>)"
  "k_poll_del simK efd fd k = (0, 0, k\<lparr>s_reg := AList.delete fd (s_reg k)\<rparr>)"
  "k_kevent_change simK kfd fd filt fl ho k = (0, 0, case ho of Some h' \<Rightarrow> k\<lparr>s_reg := (fd, h') # s_reg k\<rparr>
                                          | None \<Rightarrow> k\<lparr>s_reg := AList.delete fd (s_reg k)\<rparr>)"
  by (simp_all add: simK_def)

lemma simOb_sel [simp]:
  "o_open simOb k = set (s_fds k)" "o_reg simOb k = map_of (s_reg k)" "o_in simOb k = s_in k" "o_out simOb k = s_out k"
  by (simp_all add: simOb_def)

lemma del_le: "map_of (AList.delete fd l) = (map_of l)(fd := None)"
  by (simp add: delete_conv')

lemma sim_posix: "posix_read simK" "posix_write simK"
  by (auto simp: posix_read_def posix_write_def simK_sel sim_read_def sim_write_def Let_def EBADF_def EAGAIN_def
      split: if_splits option.splits)

lemma take_min_length: "take (min (length bs) n) bs = take n bs"
  by (simp add: min_def)

lemma sim_io: "io_laws simK simOb"
  using sim_posix
  by (auto simp: take_min_length io_laws_def simK_sel sim_read_def sim_write_def Let_def split: if_splits option.splits)

lemma sim_conn: "conn_laws simK simOb"
  using new_fd
  by (auto simp: conn_laws_def simK_sel sim_accept_def sim_close_def Let_def del_le split: if_splits)

lemma sim_setup: "setup_laws simK simOb"
  using new_fd by (auto simp: setup_laws_def simK_sel opens_def sim_open_def Let_def)

lemma map_upd_None_le: "(m(x := None)) \<subseteq>\<^sub>m m"
  by (simp add: map_le_def)

lemma sim_poll: "poll_laws (epoll_added simK) (epoll_removed simK) simOb"
  "poll_laws (kqueue_added simK) (kqueue_removed simK) simOb"
  by (auto simp: poll_laws_def epoll_added_def epoll_removed_def kqueue_added_def kqueue_removed_def simK_sel
      same_obs_def del_le map_upd_None_le)

lemma one_each_ok: "distinct (map snd (one_each hs evs)) \<and> set (map snd (one_each hs evs)) \<subseteq> set hs"
  by (induction hs evs rule: one_each.induct) auto

lemma sim_wait_ok: "wait_law (sim_wait k) simOb k"
proof (cases "s_polls k")
  case (Cons evs rest)
  let ?hs = "map snd (filter (\<lambda>(fd, h). map_of (s_reg k) fd = Some h) (s_reg k))"
  have "set ?hs \<subseteq> ran (map_of (s_reg k))" by (auto simp: ran_def)
  then have "set (map snd (one_each ?hs evs)) \<subseteq> ran (map_of (s_reg k))"
    using one_each_ok [of ?hs evs] subset_trans by blast
  then show ?thesis using Cons one_each_ok [of ?hs evs]
    by (simp add: wait_law_def sim_wait_def Let_def same_obs_def)
qed (simp add: wait_law_def sim_wait_def)

lemma sim_linux: "linux simK simOb" and sim_bsd: "bsd simK simOb"
  using sim_io sim_conn sim_setup sim_poll sim_wait_ok by (simp_all add: linux_def bsd_def simK_sel)

text \<open>A start: \<open>n\<close> connections wait, some input, some room for output, a script.\<close>

definition sim0 :: "nat \<Rightarrow> (int \<times> byte list) list \<Rightarrow> nat \<Rightarrow> (32 word \<times> handler) list list \<Rightarrow> sim" where
  "sim0 n input room polls =
     \<lparr>s_fds = [0, 1, 2], s_reg = [], s_conns = n, s_input = input, s_room = room, s_in = (\<lambda>_. []), s_out = (\<lambda>_. []),
      s_clock = Timeval 100 0, s_polls = polls\<rparr>"

end
