(* ===== verification/SimulationBudget.thy ===== *)
theory SimulationBudget
  imports EchoBudget Simulation
begin

text \<open>The simulated system has a finite budget: what it holds.\<close>

fun held :: "(int \<times> byte list) list \<Rightarrow> nat" where
  "held [] = 0"
| "held ((fd, bs) # l) = List.length bs + held l"

definition simB :: "sim budget" where
  "simB = \<lparr>b_in = (\<lambda>k. held (s_input k)), b_conn = s_conns\<rparr>"

lemma held_delete_le: "held (AList.delete fd l) \<le> held l"
  by (induction l rule: held.induct) (auto simp: AList.delete_eq)

lemma held_delete: "map_of l fd = Some bs \<Longrightarrow> held (AList.delete fd l) + List.length bs \<le> held l"
proof (induction l rule: held.induct)
  case (2 f cs l)
  then show ?case using held_delete_le [of fd l] by (auto simp: AList.delete_eq split: if_splits)
qed simp

lemma held_update:
  "map_of l fd = Some bs \<Longrightarrow> held (AList.update fd cs l) + List.length bs = held l + List.length cs"
  by (induction l rule: held.induct) (auto split: if_splits)

lemma sim_read_budget:
  assumes "sim_read fd n k = (ret, en, bs, k')"
  shows "spends simB k k' \<and> (0 < ret \<longrightarrow> b_in simB k' < b_in simB k)"
proof (cases "fd = -1 \<or> map_of (s_input k) fd = None")
  case True
  then show ?thesis using assms by (cases "fd = -1") (auto simp: sim_read_def split: option.splits)
next
  case False
  then obtain cs where cs: "map_of (s_input k) fd = Some cs" by auto
  have k': "ret = int (List.length (take (nat n) cs))" "s_conns k' = s_conns k"
    "s_input k' = (if drop (nat n) cs = [] then AList.delete fd (s_input k) else AList.update fd (drop (nat n) cs) (s_input k))"
    using assms False cs by (auto simp: sim_read_def Let_def)
  show ?thesis
  proof (cases "drop (nat n) cs = []")
    case True
    then show ?thesis using k' held_delete [OF cs] by (cases cs) (simp_all add: spends_def simB_def)
  next
    case False
    then show ?thesis using k' held_update [OF cs, of "drop (nat n) cs"]
      by (cases "0 \<le> n") (auto simp: spends_def simB_def)
  qed
qed

lemma sim_budget:
  "budget_laws (epoll_added simK) (epoll_removed simK) simK simB"
  "budget_laws (kqueue_added simK) (kqueue_removed simK) simK simB"
  unfolding budget_laws_def
  using sim_read_budget
  by (auto simp: simK_sel sim_write_def sim_accept_def sim_close_def epoll_added_def epoll_removed_def
      kqueue_added_def kqueue_removed_def Let_def spends_def simB_def split: if_splits)

end
