(* ===== verification/EchoTermination.thy ===== *)
theory EchoTermination
  imports EchoBudget
begin

unbundle bit_operations_syntax

text \<open>
  When the program ends. No step of the server adds to what the system has left (what its peers may
  still send, how many may connect), so a system in which every wait uses some of it up, until a
  signal stops the loop, ends the loop and the program.
\<close>

section \<open>Waits that end\<close>

text \<open>
  Every wait uses up some of the budget, fails, or delivers a signal that stops the loop. So the
  budget also counts the waits until that signal.
\<close>

definition waits_end :: "('k \<Rightarrow> int \<times> int \<times> (32 word \<times> handler) list \<times> int list \<times> 'k) \<Rightarrow> 'k budget \<Rightarrow> bool" where
  "waits_end wait B \<longleftrightarrow>
     (\<forall>k ret en evs sigs k'. wait k = (ret, en, evs, sigs, k') \<longrightarrow>
        ret < 0 \<or> (\<exists>n\<in>set sigs. n \<noteq> SIGPIPE) \<or> b_in B k' + b_conn B k' < b_in B k + b_conn B k)"

section \<open>What the steps spend\<close>

context echo_poller
begin

lemma accept_loop_spends:
  assumes bl: "budget_laws added removed K B" and L: "host added removed K ob"
    and r: "Acceptor_onRead (echo_env reg rem K) a w = Some (Inr w')" and c: "core ob A {} w qs" and a: "accs w a \<noteq> None"
  shows "spends B (os w) (os w')"
proof -
  have "spends B (os w) (os v')" if "spends B (os w) (os v)" "admits added K b v v'" for v v' b
    using spends_trans [OF that(1) admits_spends(1) [OF bl that(2)]] .
  then show ?thesis using accept_loop_keeps [OF L r c a, of "\<lambda>v. spends B (os w) (os v)"] by fastforce
qed

text \<open>The invariant of the server together with what is left is an invariant of the loops too.\<close>

definition thrifty :: "'k kernel \<Rightarrow> 'k observer \<Rightarrow> 'k budget \<Rightarrow> 'k \<Rightarrow> handler set \<Rightarrow> 'k echo_world \<Rightarrow> bool" where
  "thrifty K ob B k0 A w \<longleftrightarrow> budget_laws added removed K B \<and> echo_J added removed K ob A w \<and> spends B k0 (os w)"

lemma thriftyI:
  assumes "thrifty K ob B k0 A w" and "echo_J added removed K ob A' w'" and "spends B (os w) (os w')"
  shows "thrifty K ob B k0 A' w'"
  using assms spends_trans [of B k0 "os w" "os w'"] by (simp add: thrifty_def)

lemma thriftyD:
  assumes "thrifty K ob B k0 A w"
  obtains qs where "budget_laws added removed K B" "host added removed K ob" "core ob A {} w qs" "echo_J added removed K ob A w"
  using assms unfolding thrifty_def by (auto elim: echo_JD)

sublocale spending: proactor_client "echo_env reg rem K" "thrifty K ob B k0" calm for K ob B k0
proof (unfold_locales, goal_cases)
  case (1 A w)
  then show ?case using server.front by (auto simp: thrifty_def)
next
  case (2 A w t)
  obtain qs where p: "budget_laws added removed K B" "host added removed K ob" "core ob A {} w qs" "echo_J added removed K ob A w"
    using 2(1) by (rule thriftyD)
  obtain w' where w': "Proactor_complete (echo_env reg rem K) t w = Inr w'" "echo_J added removed K ob A w'" "reports w w'"
    using server.complete [OF p(4) 2(2,3)] by blast
  from complete_lowers [OF p(1-3) 2(2,3) w'(1)] show ?case using w' thriftyI [OF 2(1) w'(2)] by blast
next
  case (3 A w)
  then show ?case using server.quiet by (auto simp: thrifty_def)
next
  case (4 A w h)
  then show ?case using server.extend by (auto simp: thrifty_def)
next
  case (5 A w C)
  then show ?case using server.weaken by (auto simp: thrifty_def)
next
  case (6 w t ts)
  obtain qs where p: "budget_laws added removed K B" "host added removed K ob" "core ob {} {} w qs" "echo_J added removed K ob {} w"
    using 6(1) by (rule thriftyD)
  obtain w' qs' where w': "Proactor_timeout (echo_env reg rem K) t w = Inr w'" "core ob {} {} w' qs'" "calm w'" "\<exists>s fd. acts removed K s fd w w'"
    using timeout_core [OF p(2,3) 6(2,3)] by metis
  then have "echo_J added removed K ob {} w'" using p(2) by (auto simp: echo_J_def)
  then show ?case using w'(1,3,4) thriftyI [OF 6(1)] acts_spends [OF p(1)] by blast
next
  case (7 A w t)
  then show ?case using server.timed by (auto simp: thrifty_def)
next
  case (8 h A w r)
  let ?w = "w\<lparr>p_deleted := []\<rparr>"
  obtain qs where p: "budget_laws added removed K B" "host added removed K ob" "core ob (insert h A) {} w qs"
      "echo_J added removed K ob (insert h A) w"
    using 8(1) by (rule thriftyD)
  obtain w' where w': "r = Inr w'" "echo_J added removed K ob A w'" "reports ?w w'"
    using server.read_step [OF p(4) 8(2,3)] by blast
  have c0: "core ob (insert h A) {} ?w qs" using core_deleted [OF p(3)] .
  have "spends B (os ?w) (os w')"
  proof (cases h)
    case (HSock s)
    then have "Socket_onRead K s ?w = Inr w'" using 8(3) w'(1) by (simp add: handler_onRead_def echo_env_def)
    then obtain fd where "socks ?w s = Some fd" "w' = ?w \<or> reads K s fd ?w w'"
      using onRead_core [OF hostD(1) [OF p(2)], of s A ?w qs] c0 8(2) HSock by auto
    then show ?thesis using acts_spends [OF p(1) actsI(1) [OF _ silent_refl]] by (metis spends_refl)
  next
    case (HAcc a)
    then have "accs ?w a \<noteq> None" using coreD(4) [OF c0] by (auto simp: served_def)
    moreover have "Acceptor_onRead (echo_env reg rem K) a ?w = Some (Inr w')" using 8(3) w'(1) HAcc by (simp add: handler_onRead_def)
    ultimately have "spends B (os ?w) (os w')"
      using accept_loop_spends [OF p(1,2)] core_weaken [OF c0, of "{}" "{}"] by blast
    then show ?thesis .
  qed
  then show ?case using w' thriftyI [OF 8(1) w'(2)] by simp
next
  case (9 h A w)
  then show ?case using server.was_alive by (auto simp: thrifty_def)
next
  case (10 h A w)
  obtain qs where p: "budget_laws added removed K B" "host added removed K ob" "core ob (insert h A) {} w qs"
      "echo_J added removed K ob (insert h A) w"
    using 10(1) by (rule thriftyD)
  obtain w' where w': "handler_onWrite (echo_env reg rem K) h w = Inr w'" "echo_J added removed K ob A w'"
    using server.write_step [OF p(4) 10(2)] by blast
  have "spends B (os w) (os w')"
  proof (cases h)
    case (HSock s)
    then have "Socket_onWrite K s w = Inr w'" using w'(1) by (simp add: handler_onWrite_def echo_env_def)
    then obtain fd where "socks w s = Some fd" "w' = w \<or> writes K s fd w w'"
      using onWrite_core [OF hostD(1) [OF p(2)], of s A w qs] p(3) 10(2) HSock by auto
    then show ?thesis using acts_spends [OF p(1) actsI(2) [OF _ silent_refl]] by (metis spends_refl)
  qed (use w'(1) in \<open>auto simp: handler_onWrite_def Acceptor_onWrite_def bindS_eq_Inr\<close>)
  then show ?case using w' thriftyI [OF 10(1) w'(2)] by blast
next
  case (11 h A w)
  obtain qs where p: "budget_laws added removed K B" "host added removed K ob" "core ob (insert h A) {} w qs"
      "echo_J added removed K ob (insert h A) w"
    using 11(1) by (rule thriftyD)
  obtain w' where w': "handler_onClose (echo_env reg rem K) h w = Inr w'" "echo_J added removed K ob A w'" "calm w'"
    using server.close_step [OF p(4) 11(2,3)] by blast
  have "spends B (os w) (os w')"
  proof (cases h)
    case (HSock s)
    then obtain w2 where "Socket_onClose (echo_env reg rem K) s w = Inr w2" "\<exists>fd. acts removed K s fd w w2"
      using onClose_core [OF p(2), of s A w qs] p(3) 11(3) by blast
    then show ?thesis using w'(1) HSock acts_spends [OF p(1)] by (auto simp: handler_onClose_def)
  next
    case (HAcc a)
    then obtain x where x: "accs w a = Some x" using coreD(4) [OF p(3)] by (auto simp: served_def)
    then obtain f where f: "a_cb x = Some f" using served_accs [OF coreD(4) [OF p(3)]] by blast
    define w1 where "w1 = w\<lparr>accs := (accs w)(a \<mapsto> x\<lparr>a_err := Error_set (a_err x) ECONNRESET ''closed'' []\<rparr>)\<rparr>"
    have c1: "core ob (insert h A) {} w1 qs" unfolding w1_def by (rule core_accs [OF p(3) x]) auto
    have "Server_onAccept reg K (-1) w1 = Inr w'"
      using w'(1) HAcc x f by (simp add: handler_onClose_def Acceptor_onClose_def acc_invoke_def w1_def echo_env_def)
    then have "joins added K (-1) w1 w'" using onAccept_core [OF p(2) c1, of "-1"] by auto
    from joins_spends [OF p(1) this] show ?thesis by (simp add: w1_def)
  qed
  then show ?case using w' thriftyI [OF 11(1) w'(2)] by blast
next
  case (12 A w)
  obtain qs where p: "budget_laws added removed K B" "host added removed K ob" "core ob A {} w qs" "echo_J added removed K ob A w"
    using 12 by (rule thriftyD)
  have e: "e_kern (echo_env reg rem K) = K" by (simp add: echo_env_def)
  from server.clock [OF p(4)] show ?case
    using thriftyI [OF 12, of A "w\<lparr>os := snd (k_gettimeofday K (os w))\<rparr>"] budgetD(4) [OF p(1), of "os w"] by (simp add: e)
next
  case (13 A w n)
  then have "echo_J added removed K ob A w" by (simp add: thrifty_def)
  from server.signal [OF this, of n] show ?case using thriftyI [OF 13, of A] by (simp add: echo_env_def)
qed

text \<open>A round that goes on has spent, beyond what the wait took, nothing but more.\<close>

lemma waited_spends:
  assumes bl: "budget_laws added removed K B" and we: "waits_end wait B" and wt: "wait (os w) = (ret, en, evs, sigs, k)"
    and st: "server.event_step K step" and wl: "wait_law (ret, en, evs, sigs, k) ob (os w)"
    and j: "echo_J added removed K ob {} w" "calm w" and r: "waited (echo_env reg rem K) step msg (ret, en, evs, sigs, k) w = Some (Inr (None, w'))"
  shows "b_in B (os w') + b_conn B (os w') < b_in B (os w) + b_conn B (os w)"
proof -
  have "server.polls K ob w (take (nat ret) evs) k" using polls_ok [OF wl j] .
  then have "spending.polls K ob B k w (take (nat ret) evs) k"
    using bl by (simp add: server.polls_def spending.polls_def thrifty_def)
  from spending.waited_ok [OF _ this r] st have "spends B k (os w')"
    by (auto simp: thrifty_def server.event_step_def spending.event_step_def)
  moreover have "e_signal (echo_env reg rem K) = (\<lambda>n w. snd (SigHandler n w))" by (simp add: echo_env_def)
  then have "\<not> p_stop (fold (\<lambda>n w. snd (SigHandler n w)) sigs (w\<lparr>os := k\<rparr>)) \<and> 0 \<le> ret"
    using r by (simp add: waited_def Let_def split: if_splits)
  then have "b_in B k + b_conn B k < b_in B (os w) + b_conn B (os w)"
    using we wt unfolding waits_end_def signals_stop by (metis not_le)
  ultimately show ?thesis by (simp add: spends_def)
qed

end

section \<open>The loops end\<close>

text \<open>A loop whose every round ends, and lowers a measure when it goes on, ends.\<close>

lemma loop_ends:
  fixes M :: "'w \<Rightarrow> nat"
  assumes unf: "\<And>w. run w = (case round w of None \<Rightarrow> None | Some (Inl f) \<Rightarrow> Some (Inl f)
      | Some (Inr (Some b, w')) \<Rightarrow> Some (Inr (b, w')) | Some (Inr (None, w')) \<Rightarrow> run w')"
    and step: "\<And>w. I w \<Longrightarrow> \<exists>b w'. round w = Some (Inr (b, w')) \<and> (b = None \<longrightarrow> I w' \<and> M w' < M w)"
  shows "I w \<Longrightarrow> \<exists>b w'. run w = Some (Inr (b, w'))"
proof (induction "M w" arbitrary: w rule: less_induct)
  case less
  obtain b w' where w': "round w = Some (Inr (b, w'))" "b = None \<longrightarrow> I w' \<and> M w' < M w" using step [OF less.prems] by blast
  show ?case
  proof (cases b)
    case None
    then have "\<exists>b v. run w' = Some (Inr (b, v))" using less.hyps w'(2) by blast
    then show ?thesis using w'(1) None by (subst unf) simp
  next
    case (Some c)
    then show ?thesis using w'(1) by (subst unf) simp
  qed
qed

lemma epoll_run_ends:
  assumes L: "linux K ob" and bl: "budget_laws (epoll_added K) (epoll_removed K) K B"
    and we: "\<And>efd ms. waits_end (k_poll_wait K efd ms) B" and q: "quiescent K ob w"
  shows "\<exists>b w'. Epoll_run (epoll_env K) w = Some (Inr (b, w'))"
proof (rule loop_ends [where I = "quiescent K ob" and round = "Epoll_round (epoll_env K)" and M = "\<lambda>w. b_in B (os w) + b_conn B (os w)"])
  fix w assume q: "quiescent K ob w"
  obtain ret en evs sigs k where p: "k_poll_wait K (p_fd w) (p_pollIntervalMsec w) (os w) = (ret, en, evs, sigs, k)"
    by (metis prod_cases5)
  have wl: "wait_law (ret, en, evs, sigs, k) ob (os w)" using linuxD(3) [OF L, of "p_fd w" "p_pollIntervalMsec w" "os w"] p by simp
  obtain r where r: "Epoll_round (epoll_env K) w = Some r" using quiescent_round_ends [OF L bl q] by blast
  then obtain b w' where w': "r = Inr (b, w')" "b = None \<longrightarrow> quiescent K ob w'" using quiescent_round [OF L q r] by blast
  have "b_in B (os w') + b_conn B (os w') < b_in B (os w) + b_conn B (os w)" if "b = None"
  proof (rule epe.waited_spends [OF bl we p epe.server.event_steps(1) wl])
    show "echo_J (epoll_added K) (epoll_removed K) K ob {} w" "calm w" using q by (simp_all add: quiescent_def)
    have "e_kern (epoll_env K) = K" by (simp add: epoll_env_def echo_env_def)
    then show "waited (echo_env (Epoll_register K) (Epoll_remove K) K)
        (Epoll_event (echo_env (Epoll_register K) (Epoll_remove K) K)) ''epoll_wait fail [%d][%s]'' (ret, en, evs, sigs, k) w = Some (Inr (None, w'))"
      using r w'(1) that p unfolding Epoll_round_waited epoll_env_def by simp
  qed
  then show "\<exists>b w'. Epoll_round (epoll_env K) w = Some (Inr (b, w')) \<and>
      (b = None \<longrightarrow> quiescent K ob w' \<and> b_in B (os w') + b_conn B (os w') < b_in B (os w) + b_conn B (os w))"
    using r w' by blast
qed (rule Epoll_run.simps, rule q)

end
