(* ===== verification/SimulationWaits.thy ===== *)
theory SimulationWaits
  imports SimulationBudget EchoTermination
begin

text \<open>The script of the poller ends with a signal; a budget that also counts the waits until then.\<close>

definition simW :: "sim budget" where
  "simW = \<lparr>b_in = (\<lambda>k. held (s_input k) + List.length (s_polls k)), b_conn = s_conns\<rparr>"

lemma sim_calls_poll:
  "sim_read fd n k = (ret, en, bs, k') \<Longrightarrow> s_polls k' = s_polls k"
  "sim_write fd bs k = (ret, en, k') \<Longrightarrow> s_polls k' = s_polls k"
  by (auto simp: sim_read_def sim_write_def Let_def split: if_splits option.splits)

lemma sim_script_budget:
  "budget_laws (epoll_added simK) (epoll_removed simK) simK simW"
  "budget_laws (kqueue_added simK) (kqueue_removed simK) simK simW"
proof -
  have "spends simW k k' \<and> (0 < ret \<longrightarrow> b_in simW k' < b_in simW k)" if "sim_read fd n k = (ret, en, bs, k')" for fd n k ret en bs k'
    using sim_read_budget [OF that] sim_calls_poll(1) [OF that] by (simp add: spends_def simW_def simB_def)
  then show "budget_laws (epoll_added simK) (epoll_removed simK) simK simW"
    "budget_laws (kqueue_added simK) (kqueue_removed simK) simK simW"
    unfolding budget_laws_def
    by (auto simp: simK_sel sim_write_def sim_accept_def sim_close_def epoll_added_def epoll_removed_def
        kqueue_added_def kqueue_removed_def Let_def spends_def simW_def split: if_splits)
qed

lemma sim_waits_end: "waits_end (k_poll_wait simK efd ms) simW" "waits_end (k_kevent_wait simK kfd tmo) simW"
  by (auto simp: waits_end_def simK_sel sim_wait_def simW_def Let_def split: list.splits)

end
