(* ===== verification/EchoTimers.thy ===== *)
theory EchoTimers
  imports EchoServing
begin

text \<open>
  What the timer loop of the proactor does to the clients of the echo server: those whose deadline
  has passed are disconnected, the others are not touched. Timers are removed by their deadline, so a
  client can lose its timer to another one with the same deadline, and it is spared then.
\<close>

text \<open>The deadline of a token has passed; it is that of no other client.\<close>

definition overdue :: "timeval \<Rightarrow> 'k echo_world \<Rightarrow> tokref \<Rightarrow> bool" where
  "overdue now w t \<longleftrightarrow> t \<in> set (p_timerList w) \<and> st_tv (toks w) t < now"

definition sole :: "'k echo_world \<Rightarrow> nat \<Rightarrow> tokref \<Rightarrow> bool" where
  "sole w s t \<longleftrightarrow> (\<forall>s' u. s' \<noteq> s \<longrightarrow> socks w s' \<noteq> None \<longrightarrow> u \<in> {Rt s', Wt s'} \<longrightarrow> st_tv (toks w) u \<noteq> st_tv (toks w) t)"

lemma view_tv: "view w' t = view w t \<Longrightarrow> t \<noteq> Head \<Longrightarrow> st_tv (toks w') t = st_tv (toks w) t"
  by (auto simp: view_def st_tv_def dest!: arg_cong [where f = "map_option t_tv"]
      simp: option.map_comp comp_def unlink_def split: option.splits)

text \<open>What one turn, or several, did.\<close>

definition same_client :: "'k echo_world \<Rightarrow> 'k echo_world \<Rightarrow> nat \<Rightarrow> bool" where
  "same_client w w' s \<longleftrightarrow> socks w' s = socks w s \<and> (\<forall>t\<in>{Rt s, Wt s}. view w' t = view w t)"

definition expelled :: "timeval \<Rightarrow> 'k echo_world \<Rightarrow> 'k echo_world \<Rightarrow> bool" where
  "expelled now w w' \<longleftrightarrow> set (p_timerList w') \<subseteq> set (p_timerList w) \<and>
     (\<forall>s. same_client w w' s \<or> (socks w' s = None \<and> (\<exists>t\<in>{Rt s, Wt s}. overdue now w t))) \<and>
     (\<forall>s t. t \<in> {Rt s, Wt s} \<longrightarrow> overdue now w t \<longrightarrow> sole w s t \<longrightarrow> socks w' s = None \<or> overdue now w' t)"

lemma expelledD:
  assumes "expelled now w w'"
  shows "set (p_timerList w') \<subseteq> set (p_timerList w)"
    and "same_client w w' s \<or> (socks w' s = None \<and> (\<exists>t\<in>{Rt s, Wt s}. overdue now w t))"
    and "t \<in> {Rt s, Wt s} \<Longrightarrow> overdue now w t \<Longrightarrow> sole w s t \<Longrightarrow> socks w' s = None \<or> overdue now w' t"
  using assms unfolding expelled_def by blast+

lemma expelled_refl: "expelled now w w"
  by (simp add: expelled_def same_client_def)

lemma same_client_tv: "same_client w w' s \<Longrightarrow> t \<in> {Rt s, Wt s} \<Longrightarrow> st_tv (toks w') t = st_tv (toks w) t"
  using view_tv unfolding same_client_def by blast

lemma same_client_trans: "same_client w w1 s \<Longrightarrow> same_client w1 w' s \<Longrightarrow> same_client w w' s"
  by (simp add: same_client_def)

lemma same_overdue:
  assumes "expelled now w w'" and "same_client w w' s" and "t \<in> {Rt s, Wt s}" and "overdue now w' t"
  shows "overdue now w t"
  using assms(4) expelledD(1) [OF assms(1)] same_client_tv [OF assms(2,3)] by (auto simp: overdue_def)

lemma sole_kept:
  assumes a: "expelled now w w'" and k: "same_client w w' s" and t: "t \<in> {Rt s, Wt s}" and o: "sole w s t"
  shows "sole w' s t"
  unfolding sole_def
proof (intro allI impI)
  fix s' u
  assume s': "s' \<noteq> s" "socks w' s' \<noteq> None" "u \<in> {Rt s', Wt s'}"
  then have k': "same_client w w' s'" using expelledD(2) [OF a, of s'] by auto
  then have "socks w s' \<noteq> None" using s'(2) by (simp add: same_client_def)
  then have "st_tv (toks w) u \<noteq> st_tv (toks w) t" using o s'(1,3) unfolding sole_def by blast
  then show "st_tv (toks w') u \<noteq> st_tv (toks w') t" using same_client_tv [OF k' s'(3)] same_client_tv [OF k t] by simp
qed

lemma expelled_trans:
  assumes a: "expelled now w w1" and b: "expelled now w1 w'"
  shows "expelled now w w'"
proof -
  have "same_client w w' s \<or> (socks w' s = None \<and> (\<exists>t\<in>{Rt s, Wt s}. overdue now w t))" for s
  proof (cases "same_client w w1 s")
    case True
    then show ?thesis using expelledD(2) [OF b, of s] same_client_trans same_overdue [OF a True] by blast
  next
    case False
    then have g: "socks w1 s = None" "\<exists>t\<in>{Rt s, Wt s}. overdue now w t" using expelledD(2) [OF a, of s] by blast+
    then have "socks w' s = None" using expelledD(2) [OF b, of s] by (auto simp: same_client_def)
    then show ?thesis using g(2) by blast
  qed
  moreover have "socks w' s = None \<or> overdue now w' t" if t: "t \<in> {Rt s, Wt s}" "overdue now w t" "sole w s t" for s t
  proof (cases "socks w1 s")
    case None
    then show ?thesis using expelledD(2) [OF b, of s] by (auto simp: same_client_def)
  next
    case (Some fd)
    then have "same_client w w1 s" "overdue now w1 t" using expelledD(2) [OF a, of s] expelledD(3) [OF a t] by auto
    then show ?thesis using expelledD(3) [OF b t(1)] sole_kept [OF a _ t(1,3)] by blast
  qed
  ultimately show ?thesis using expelledD(1) [OF a] expelledD(1) [OF b] unfolding expelled_def by blast
qed

lemma expires_expelled:
  assumes e: "expires s w w'" and l: "set (p_timerList w') \<subseteq> set (p_timerList w)" and t: "t \<in> {Rt s, Wt s}" "overdue now w t"
  shows "expelled now w w'"
proof -
  have x: "socks w s \<noteq> None" "socks w' = (socks w)(s := None)" "view w' = (view w)(Rt s := None, Wt s := None)"
    "spared s w (p_timerList w')"
    using e by (simp_all add: expires_def)
  have "socks w' s' = None \<or> overdue now w' u" if u: "u \<in> {Rt s', Wt s'}" "overdue now w u" "sole w s' u" for s' u
  proof (cases "s' = s")
    case True
    then show ?thesis using x(2) by simp
  next
    case False
    then have "st_tv (toks w) u \<notin> st_tv (toks w) ` {Rt s, Wt s}" using u(3) x(1) by (fastforce simp: sole_def)
    then have "u \<in> set (p_timerList w')" using x(4) u(2) by (simp add: spared_def overdue_def)
    moreover have "view w' u = view w u" using x(3) u(1) False by auto
    then have "st_tv (toks w') u = st_tv (toks w) u" using view_tv u(1) by blast
    ultimately show ?thesis using u(2) by (simp add: overdue_def)
  qed
  moreover have "same_client w w' s' \<or> (socks w' s' = None \<and> (\<exists>t\<in>{Rt s', Wt s'}. overdue now w t))" for s'
    using x(2,3) t by (cases "s' = s") (auto simp: same_client_def)
  ultimately show ?thesis using l by (simp add: expelled_def)
qed

context echo_poller
begin

lemma timerLoop_expels:
  assumes L: "host added removed K ob"
  shows "core ob {} {} w qs \<Longrightarrow> calm w \<Longrightarrow> \<exists>w'. Proactor_timerLoop (echo_env reg rem K) now w = Some (Inr w') \<and>
    expelled now w w' \<and> (\<forall>t\<in>set (p_timerList w'). \<not> overdue now w' t)"
proof (induction "card (set (p_timerList w))" arbitrary: w qs rule: less_induct)
  case less
  note tm = wfD(4) [OF coreD(1) [OF less.prems(1)]]
  show ?case
  proof (cases "p_timerList w")
    case Nil
    then show ?thesis using expelled_refl by (simp add: Proactor_timerLoop.simps)
  next
    case (Cons t ts)
    obtain x where x: "toks w t = Some x" using timers_okD(3) [OF tm, of t] Cons by auto
    have tv: "st_tv (toks w) t = t_tv x" using x by (simp add: st_tv_def)
    show ?thesis
    proof (cases "t_tv x < now")
      case False
      then have "\<not> overdue now w u" if "u \<in> set (p_timerList w)" for u
        using that timers_okD(1) [OF tm] Cons tv by (auto simp: overdue_def)
      moreover have "Proactor_timerLoop (echo_env reg rem K) now w = Some (Inr w)"
        using Cons x False by (subst Proactor_timerLoop.simps) simp
      ultimately show ?thesis using expelled_refl by blast
    next
      case True
      obtain w1 qs1 s where w1: "Proactor_timeout (echo_env reg rem K) t w = Inr w1" "core ob {} {} w1 qs1" "calm w1"
        "set (p_timerList w1) \<subseteq> set ts" "t \<in> {Rt s, Wt s}" "expires s w w1"
        using timeout_core [OF L less.prems Cons] by blast
      have "t \<notin> set ts" using timers_okD(1) [OF tm] Cons by auto
      then have "card (set ts) < card (set (p_timerList w))" using Cons by simp
      moreover have "card (set (p_timerList w1)) \<le> card (set ts)" using w1(4) by (simp add: card_mono)
      ultimately obtain w' where w': "Proactor_timerLoop (echo_env reg rem K) now w1 = Some (Inr w')" "expelled now w1 w'"
        "\<forall>t\<in>set (p_timerList w'). \<not> overdue now w' t"
        using less.hyps [OF _ w1(2,3)] by fastforce
      have "expelled now w w1"
        using expires_expelled [OF w1(6) _ w1(5)] w1(4) Cons True tv by (auto simp: overdue_def)
      then have "expelled now w w'" using expelled_trans w'(2) by blast
      moreover have "Proactor_timerLoop (echo_env reg rem K) now w = Some (Inr w')"
        using Cons x True w1(1) w'(1) by (subst Proactor_timerLoop.simps) simp
      ultimately show ?thesis using w'(3) by blast
    qed
  qed
qed

end

end
