(* ===== verification/EchoProperties.thy ===== *)
theory EchoProperties
  imports SimulationWaits EchoTimers
begin

unbundle bit_operations_syntax

text \<open>
  What the echo server guarantees in every state it can reach, and examples on the simulated
  system that show the server at work.
\<close>

section \<open>Reachable states are quiescent\<close>

lemma serving_quiescent:
  assumes "linux K ob" and "o_reg ob k = Map.empty"
  shows "serving K m k w \<Longrightarrow> quiescent K ob w"
proof (induction rule: serving.induct)
  case (start w)
  then show ?case using startup_quiescent [OF assms, of m] by auto
next
  case (round w w')
  then show ?case using quiescent_round [OF assms(1) round.IH round.hyps(2)] by auto
qed

lemma quiescentD: "quiescent K ob w \<Longrightarrow> echo_J (epoll_added K) (epoll_removed K) K ob {} w" "quiescent K ob w \<Longrightarrow> calm w"
  by (simp_all add: quiescent_def)

section \<open>Properties\<close>

text \<open>
C1: In every reachable state of the server, what was sent back on a connection is a prefix of what was received on it, and the rest is at most one buffer.
\<close>

theorem echo_stream:
  assumes "linux K ob" and "o_reg ob k = Map.empty" and "serving K m k w"
    and "socks w s = Some fd" and "fd \<noteq> -1"
  shows "\<exists>rest. o_in ob (os w) fd = o_out ob (os w) fd @ rest \<and> List.length rest \<le> BUFSIZE"
  using calm_relays [OF quiescentD [OF serving_quiescent [OF assms(1-3)]] assms(4,5)] by (simp add: relays_def)

text \<open>The state after \<open>n\<close> rounds of the simulation.\<close>

fun sim_rounds :: "nat \<Rightarrow> sim echo_world option \<Rightarrow> sim echo_world option" where
  "sim_rounds 0 w = w"
| "sim_rounds (Suc n) w =
     (case w of None \<Rightarrow> None | Some v \<Rightarrow>
        (case Epoll_round (epoll_env simK) v of Some (Inr (None, v')) \<Rightarrow> sim_rounds n (Some v') | _ \<Rightarrow> None))"

definition sim_start :: "sim \<Rightarrow> sim echo_world option" where
  "sim_start k = (case echo_startup simK (\<lambda>_ _. 0) k of Inr (None, w) \<Rightarrow> Some w | _ \<Rightarrow> None)"

lemma sim_rounds_None: "sim_rounds n None = None"
  by (cases n) simp_all

lemma sim_rounds_serving:
  assumes "serving simK m k v" and "sim_rounds n (Some v) = Some v'"
  shows "serving simK m k v'"
  using assms
proof (induction n arbitrary: v)
  case (Suc n)
  obtain v1 where v1: "Epoll_round (epoll_env simK) v = Some (Inr (None, v1))" "sim_rounds n (Some v1) = Some v'"
  proof (cases "Epoll_round (epoll_env simK) v")
    case (Some r)
    then show ?thesis using Suc.prems(2) that
      by (cases r) (auto split: option.splits prod.splits simp: sim_rounds_None)
  qed (use Suc.prems(2) in \<open>simp add: sim_rounds_None\<close>)
  then show ?case using Suc.IH serving.round [OF Suc.prems(1)] by blast
qed simp

lemma sim_serving:
  assumes "sim_rounds n (sim_start k) = Some w"
  shows "serving simK (\<lambda>_ _. 0) k w"
proof (cases "sim_start k")
  case None
  then show ?thesis using assms by (simp add: sim_rounds_None)
next
  case (Some v)
  then have "echo_startup simK (\<lambda>_ _. 0) k = Inr (None, v)"
    by (auto simp: sim_start_def split: sum.splits prod.splits option.splits)
  then show ?thesis using sim_rounds_serving [OF serving.start] assms Some by metis
qed

text \<open>One connection, five bytes of input, room for three bytes of output.\<close>

definition sim1 :: sim where
  "sim1 = sim0 1 [(5, [104, 101, 108, 108, 111])] 3
     [[(EPOLLIN, HAcc 0)], [(EPOLLOUT, HSock 0)], [(EPOLLOUT, HSock 0)]]"

definition peek :: "sim echo_world \<Rightarrow> nat \<Rightarrow> int option \<times> byte list \<times> byte list" where
  "peek w s = (socks w s, case socks w s of Some fd \<Rightarrow> (s_in (os w) fd, s_out (os w) fd) | None \<Rightarrow> ([], []))"

definition modes :: "sim echo_world \<Rightarrow> nat \<Rightarrow> mode option \<times> mode option" where
  "modes w s = (map_option t_mode (view w (Rt s)), map_option t_mode (view w (Wt s)))"

lemma sim1_run:
  "map_option (\<lambda>w. (peek w 0, modes w 0)) (sim_rounds 1 (sim_start sim1)) =
     Some ((Some 5, [104, 101, 108, 108, 111], [104, 101, 108]), Some M_NONE, Some M_ALL)"
  by code_simp

lemma sim1_state:
  obtains w where "sim_rounds 1 (sim_start sim1) = Some w" "socks w 0 = Some 5"
    "s_in (os w) 5 = [104, 101, 108, 108, 111]" "modes w 0 = (Some M_NONE, Some M_ALL)"
proof -
  obtain w where w: "sim_rounds 1 (sim_start sim1) = Some w"
    "peek w 0 = (Some 5, [104, 101, 108, 108, 111], [104, 101, 108])" "modes w 0 = (Some M_NONE, Some M_ALL)"
    using sim1_run by (cases "sim_rounds 1 (sim_start sim1)") auto
  then show thesis using that by (auto simp: peek_def split: option.splits)
qed

lemma sim1_reg: "o_reg simOb sim1 = Map.empty"
  by (simp add: sim1_def sim0_def)

theorem echo_stream_witness:
  "\<exists>w. serving simK (\<lambda>_ _. 0) sim1 w \<and> socks w 0 = Some 5 \<and> s_in (os w) 5 = [104, 101, 108, 108, 111] \<and>
     (\<exists>rest. s_in (os w) 5 = s_out (os w) 5 @ rest \<and> List.length rest \<le> BUFSIZE)"
proof -
  obtain w where w: "sim_rounds 1 (sim_start sim1) = Some w" and s: "socks w 0 = Some 5" "s_in (os w) 5 = [104, 101, 108, 108, 111]"
    by (rule sim1_state)
  note sv = sim_serving [OF w]
  from echo_stream [OF sim_linux sim1_reg sv s(1)] s sv show ?thesis by auto
qed

text \<open>
C2: Between two rounds every connected client either waits for input with everything it received sent back, or waits to send, and what its write token still has to send is exactly what is owed.
\<close>

theorem echo_client_state:
  assumes "linux K ob" and "o_reg ob k = Map.empty" and "serving K m k w"
    and "socks w s = Some fd" and "fd \<noteq> -1"
  shows "\<exists>x y. view w (Rt s) = Some x \<and> view w (Wt s) = Some y \<and>
    (t_mode x = M_SOME \<and> t_mode y = M_NONE \<and> o_in ob (os w) fd = o_out ob (os w) fd \<or>
     t_mode x = M_NONE \<and> t_mode y = M_ALL \<and> o_in ob (os w) fd = o_out ob (os w) fd @
       mem_load (mem w) (ptr_add (t_buf y) (t_ioSize y)) (nat (t_bufSize y - t_ioSize y)))"
  by (rule calm_cases [OF quiescentD [OF serving_quiescent [OF assms(1-3)]] assms(4,5)]) auto

theorem echo_client_state_witness:
  "\<exists>w y. serving simK (\<lambda>_ _. 0) sim1 w \<and> view w (Wt 0) = Some y \<and> t_mode y = M_ALL \<and>
     s_in (os w) 5 = s_out (os w) 5 @
       mem_load (mem w) (ptr_add (t_buf y) (t_ioSize y)) (nat (t_bufSize y - t_ioSize y))"
proof -
  obtain w where w: "sim_rounds 1 (sim_start sim1) = Some w" and s: "socks w 0 = Some 5" and m: "modes w 0 = (Some M_NONE, Some M_ALL)"
    by (rule sim1_state)
  note sv = sim_serving [OF w]
  from echo_client_state [OF sim_linux sim1_reg sv s] m sv show ?thesis by (auto simp: modes_def)
qed



text \<open>
C4: No reachable state of the server leads to a fault: no access to a destroyed object, no null pointer, no call of an empty callback, whatever events, timeouts and errors the system reports.
\<close>

theorem echo_no_fault:
  assumes "linux K ob" and "o_reg ob k = Map.empty" and "serving K m k w"
  shows "Epoll_round (epoll_env K) w \<noteq> Some (Inl f)"
  using quiescent_round [OF assms(1) serving_quiescent [OF assms], of "Inl f"] by auto

theorem echo_no_fault_witness:
  "\<exists>w. serving simK (\<lambda>_ _. 0) sim1 w \<and> Epoll_round (epoll_env simK) w \<noteq> Some (Inl Dangling)"
proof -
  obtain w where w: "sim_rounds 1 (sim_start sim1) = Some w" by (rule sim1_state)
  from echo_no_fault [OF sim_linux sim1_reg sim_serving [OF w]] sim_serving [OF w] show ?thesis by blast
qed

lemma run_accs:
  assumes L: "linux K ob" and r: "Epoll_run (epoll_env K) w = Some r" and q: "quiescent K ob w"
  shows "\<exists>b w'. r = Inr (b, w') \<and> accs w' 0 \<noteq> None"
proof -
  have "E = epoll_env K \<longrightarrow> quiescent K ob w \<longrightarrow> (\<exists>b w'. r = Inr (b, w') \<and> accs w' 0 \<noteq> None)"
    if "Epoll_run E w = Some r" for E w r
  proof (rule Epoll_run.raw_induct [OF _ that], goal_cases)
    case (1 rec E w r)
    show ?case
    proof (intro impI)
      assume e: "E = epoll_env K" and q: "quiescent K ob w"
      obtain r1 where r1: "Epoll_round E w = Some r1" using 1(2) by (cases "Epoll_round E w") auto
      then obtain b w1 where w1: "r1 = Inr (b, w1)" "b = None \<longrightarrow> quiescent K ob w1"
        "b \<noteq> None \<longrightarrow> (\<exists>w2. echo_J (epoll_added K) (epoll_removed K) K ob {} w2 \<and> accs w1 = accs w2)"
        using quiescent_round [OF L q r1 [unfolded e]] by blast
      show "\<exists>b w'. r = Inr (b, w') \<and> accs w' 0 \<noteq> None"
      proof (cases b)
        case None
        then have "rec E w1 = Some r" using 1(2) r1 w1(1) by simp
        then show ?thesis using 1(1) [of E w1 r] e w1(2) None by blast
      next
        case (Some c)
        then obtain w2 where "echo_J (epoll_added K) (epoll_removed K) K ob {} w2" "accs w1 = accs w2" using w1(3) by blast
        then have "accs w1 0 \<noteq> None" by (auto simp: echo_J_def served_def dest!: coreD(4))
        then show ?thesis using 1(2) r1 w1(1) Some by auto
      qed
    qed
  qed
  then show ?thesis using r q by blast
qed

text \<open>
The program as a whole: if it ends it ends with the exit code 0 or 1 and without a fault.
\<close>

theorem echo_main_exit:
  assumes L: "linux K ob" and k: "o_reg ob k = Map.empty" and r: "echo_main K m k = Some r"
  shows "\<exists>c w. r = Inr (c, w) \<and> c \<in> {0, 1}"
proof (rule epe.program_exits [OF linuxD(1,2) [OF L] setup_lawsD(2) [OF linuxD(2) [OF L]] k _ r [unfolded echo_main_def]])
  fix w r assume "echo_J (epoll_added K) (epoll_removed K) K ob {} w" "calm w" "Epoll_run (epoll_env K) w = Some r"
  then show "\<exists>b w'. r = Inr (b, w') \<and> accs w' 0 \<noteq> None" using run_accs [OF L] by (simp add: quiescent_def)
qed

definition sim2 :: sim where
  "sim2 = sim0 0 [] 0 []"

lemma sim2_reg: "o_reg simOb sim2 = Map.empty"
  by (simp add: sim2_def sim0_def)

lemma sim_main: "case echo_main simK (\<lambda>_ _. 0) sim2 of Some (Inr (c, w)) \<Rightarrow> c = 0 | _ \<Rightarrow> False"
  by code_simp

theorem echo_main_exit_witness: "\<exists>r c w. echo_main simK (\<lambda>_ _. 0) sim2 = Some r \<and> r = Inr (c, w) \<and> c \<in> {0, 1}"
proof -
  obtain r where r: "echo_main simK (\<lambda>_ _. 0) sim2 = Some r"
    using sim_main by (cases "echo_main simK (\<lambda>_ _. 0) sim2") auto
  from echo_main_exit [OF sim_linux sim2_reg r] r show ?thesis by blast
qed

text \<open>
C9: The program ends: when the peers send finitely much and a signal that stops the loop, or a failing wait, comes after finitely many waits, \<open>main\<close> returns, with the exit code 0 or 1 and without a fault.
\<close>

theorem echo_main_ends:
  assumes L: "linux K ob" and k: "o_reg ob k = Map.empty" and bl: "budget_laws (epoll_added K) (epoll_removed K) K B"
    and we: "\<And>efd ms. waits_end (k_poll_wait K efd ms) B"
  shows "\<exists>c w. echo_main K m k = Some (Inr (c, w)) \<and> c \<in> {0, 1}"
proof -
  have "echo_main K m k \<noteq> None"
    unfolding echo_main_def
    by (rule epe.program_ends [OF linuxD(1,2) [OF L] setup_lawsD(2) [OF linuxD(2) [OF L]] k])
      (use epoll_run_ends [OF L bl we] in \<open>simp add: quiescent_def\<close>)
  then show ?thesis using echo_main_exit [OF L k] by blast
qed

theorem echo_main_ends_witness: "\<exists>c w. echo_main simK (\<lambda>_ _. 0) sim1 = Some (Inr (c, w)) \<and> c \<in> {0, 1}"
  by (rule echo_main_ends [OF sim_linux sim1_reg sim_script_budget(1) sim_waits_end(1)])

text \<open>
The loop over the expired timers ends in every reachable state, even though its callbacks change the timer list.
\<close>

theorem echo_timers_return:
  assumes "linux K ob" and "o_reg ob k = Map.empty" and "serving K m k w"
  shows "\<exists>w'. Proactor_processTimer (epoll_env K) w = Some (Inr w')"
proof -
  obtain qs where L: "host (epoll_added K) (epoll_removed K) K ob" and c: "core ob {} {} w qs" and q: "calm w"
    using serving_quiescent [OF assms] by (auto simp: quiescent_def echo_J_def)
  obtain now k' where g: "k_gettimeofday K (os w) = (now, k')" by fastforce
  have "core ob {} {} (w\<lparr>os := k'\<rparr>) qs" using core_os [OF c] conn_lawsD(5) [OF hostD(2) [OF L], of "os w"] g by simp
  then obtain w' where "Proactor_timerLoop (epoll_env K) now (w\<lparr>os := k'\<rparr>) = Some (Inr w')"
    using epe.timerLoop_returns [OF L, of "w\<lparr>os := k'\<rparr>" qs now] q unfolding epoll_env_def by auto
  moreover have "e_kern (epoll_env K) = K" by (simp add: epoll_env_def echo_env_def)
  ultimately show ?thesis using g by (simp add: Proactor_processTimer_def)
qed

theorem echo_timers_return_witness:
  "\<exists>w w'. serving simK (\<lambda>_ _. 0) sim1 w \<and> Proactor_processTimer (epoll_env simK) w = Some (Inr w')"
proof -
  obtain w where w: "sim_rounds 1 (sim_start sim1) = Some w" by (rule sim1_state)
  from echo_timers_return [OF sim_linux sim1_reg sim_serving [OF w]] sim_serving [OF w] show ?thesis by blast
qed

text \<open>
Startup ends without a fault and either hands a running server to the loop or gives up with exit code 1, in which case the loop is not entered.
\<close>

theorem echo_startup_ok:
  assumes "linux K ob" and "o_reg ob k = Map.empty"
  shows "\<exists>w. echo_startup K m k = Inr (None, w) \<and> serving K m k w \<or> echo_startup K m k = Inr (Some 1, w)"
  using startup_quiescent [OF assms, of m] serving.start by fastforce

theorem echo_startup_ok_witness:
  "\<exists>w. echo_startup simK (\<lambda>_ _. 0) sim1 = Inr (None, w) \<and> serving simK (\<lambda>_ _. 0) sim1 w \<or>
    echo_startup simK (\<lambda>_ _. 0) sim1 = Inr (Some 1, w)"
  by (rule echo_startup_ok [OF sim_linux sim1_reg])



text \<open>
C5: When the peers can send only finitely many bytes and make only finitely many connections, every round of the event loop ends without a fault, although each completion can start the next request and the accept loop takes one connection after another.
\<close>

theorem echo_round_returns:
  assumes "linux K ob" and "o_reg ob k = Map.empty" and "serving K m k w"
    and "budget_laws (epoll_added K) (epoll_removed K) K B"
  shows "\<exists>b w'. Epoll_round (epoll_env K) w = Some (Inr (b, w'))"
proof -
  have q: "quiescent K ob w" by (rule serving_quiescent [OF assms(1-3)])
  obtain r where r: "Epoll_round (epoll_env K) w = Some r" using quiescent_round_ends [OF assms(1,4) q] by blast
  then show ?thesis using quiescent_round [OF assms(1) q r] by blast
qed

theorem echo_round_returns_witness:
  "\<exists>w b w'. serving simK (\<lambda>_ _. 0) sim1 w \<and> Epoll_round (epoll_env simK) w = Some (Inr (b, w'))"
proof -
  obtain w where w: "sim_rounds 1 (sim_start sim1) = Some w" by (rule sim1_state)
  from echo_round_returns [OF sim_linux sim1_reg sim_serving [OF w] sim_budget(1)] sim_serving [OF w] show ?thesis by blast
qed



text \<open>
C27: The timer loop ends in every reachable state and disconnects the overdue: no deadline that has passed is left in the list, only clients with an overdue request are gone, and every overdue client is gone unless it shares its deadline with another client, whose deletion then removed its timer.
\<close>

theorem expired_clients_go:
  assumes L: "linux K ob" and k: "o_reg ob k = Map.empty" and w: "serving K m k w" and now: "k_gettimeofday K (os w) = (now, k')"
  shows "\<exists>w'. Proactor_processTimer (epoll_env K) w = Some (Inr w') \<and>
    (\<forall>t\<in>set (p_timerList w'). now \<le> st_tv (toks w') t) \<and>
    (\<forall>s. socks w' s = socks w s \<or> socks w' s = None \<and> (\<exists>t\<in>{Rt s, Wt s}. overdue now w t)) \<and>
    (\<forall>s t. t \<in> {Rt s, Wt s} \<longrightarrow> overdue now w t \<longrightarrow> sole w s t \<longrightarrow> socks w' s = None)"
proof -
  let ?w = "w\<lparr>os := k'\<rparr>"
  obtain qs where h: "host (epoll_added K) (epoll_removed K) K ob" and c: "core ob {} {} w qs" and q: "calm w"
    using serving_quiescent [OF L k w] by (auto simp: quiescent_def echo_J_def)
  have "core ob {} {} ?w qs" using core_os [OF c] conn_lawsD(5) [OF hostD(2) [OF h], of "os w"] now by simp
  then obtain w' where w': "Proactor_timerLoop (epoll_env K) now ?w = Some (Inr w')" "expelled now ?w w'"
      "\<forall>t\<in>set (p_timerList w'). \<not> overdue now w' t"
    using epe.timerLoop_expels [OF h, of ?w qs now] q unfolding epoll_env_def by auto
  have o: "overdue now ?w = overdue now w" "sole ?w = sole w" by (simp_all add: overdue_def sole_def fun_eq_iff)
  have "e_kern (epoll_env K) = K" by (simp add: epoll_env_def echo_env_def)
  then have "Proactor_processTimer (epoll_env K) w = Some (Inr w')" using now w'(1) by (simp add: Proactor_processTimer_def)
  moreover have "\<forall>t\<in>set (p_timerList w'). now \<le> st_tv (toks w') t" using w'(3) by (auto simp: overdue_def)
  moreover have "socks w' s = socks w s \<or> socks w' s = None \<and> (\<exists>t\<in>{Rt s, Wt s}. overdue now w t)" for s
    using expelledD(2) [OF w'(2), of s] unfolding o by (auto simp: same_client_def)
  moreover have "socks w' s = None" if "t \<in> {Rt s, Wt s}" "overdue now w t" "sole w s t" for s t
    using expelledD(3) [OF w'(2) that(1)] that(2,3) w'(3) unfolding o by (auto simp: overdue_def)
  ultimately show ?thesis by blast
qed

text \<open>A system whose clock advances by three seconds whenever it is read; a client that sends nothing.\<close>

definition slowK :: "sim kernel" where
  "slowK = simK\<lparr>k_gettimeofday := (\<lambda>k. (s_clock k, k\<lparr>s_clock := timeradd (s_clock k) (Timeval 3 0)\<rparr>))\<rparr>"

definition sim3 :: sim where
  "sim3 = sim0 1 [] 0 [[(EPOLLIN, HAcc 0)]]"

lemma slow_linux: "linux slowK simOb"
proof -
  have "io_laws slowK simOb" using sim_linux unfolding linux_def io_laws_def posix_read_def posix_write_def by (simp add: slowK_def)
  moreover have "conn_laws slowK simOb" using new_fd
    by (auto simp: conn_laws_def slowK_def simK_sel sim_accept_def sim_close_def Let_def del_le same_obs_def split: if_splits)
  moreover have "setup_laws slowK simOb" using sim_linux unfolding linux_def setup_laws_def by (simp add: slowK_def)
  moreover have "epoll_added slowK = epoll_added simK" "epoll_removed slowK = epoll_removed simK"
    by (simp_all add: fun_eq_iff epoll_added_def epoll_removed_def slowK_def)
  ultimately show ?thesis using sim_linux by (simp add: linux_def slowK_def)
qed

definition slow_state :: "sim echo_world option" where
  "slow_state = (case echo_startup slowK (\<lambda>_ _. 0) sim3 of
     Inr (None, w) \<Rightarrow> (case Epoll_round (epoll_env slowK) w of Some (Inr (None, w')) \<Rightarrow> Some w' | _ \<Rightarrow> None) | _ \<Rightarrow> None)"

lemma slow_run:
  "map_option (\<lambda>w. (socks w 0, socks w 1, p_timerList w, st_tv (toks w) (Rt 0), s_clock (os w), next_obj w)) slow_state =
     Some (Some 5, None, [Rt 0], Timeval 105 0, Timeval 106 0, 1)"
  by code_simp

lemma slow_serving: "slow_state = Some w \<Longrightarrow> serving slowK (\<lambda>_ _. 0) sim3 w"
  using serving.start [of slowK "\<lambda>_ _. 0" sim3] serving.round
  by (fastforce simp: slow_state_def split: sum.splits prod.splits option.splits)

theorem expired_clients_go_witness:
  "\<exists>w w'. serving slowK (\<lambda>_ _. 0) sim3 w \<and> socks w 0 = Some 5 \<and>
     Proactor_processTimer (epoll_env slowK) w = Some (Inr w') \<and> socks w' 0 = None"
proof -
  obtain w where w: "slow_state = Some w" "socks w 0 = Some 5" "p_timerList w = [Rt 0]" "st_tv (toks w) (Rt 0) = Timeval 105 0"
      "s_clock (os w) = Timeval 106 0" "next_obj w = 1"
    using slow_run by auto
  note sv = slow_serving [OF w(1)]
  have reg: "o_reg simOb sim3 = Map.empty" by (simp add: sim3_def sim0_def)
  have g: "k_gettimeofday slowK (os w) = (Timeval 106 0, (os w)\<lparr>s_clock := timeradd (s_clock (os w)) (Timeval 3 0)\<rparr>)"
    using w(5) by (simp add: slowK_def)
  have "owners simOb w" using quiescentD(1) [OF serving_quiescent [OF slow_linux reg sv]] coreD(2) by (auto simp: echo_J_def)
  then have "socks w s = None" if "s \<noteq> 0" for s using ownersD(1) [of simOb w s] that w(6) by (cases "socks w s") auto
  then have "sole w 0 (Rt 0)" by (auto simp: sole_def)
  moreover have "overdue (Timeval 106 0) w (Rt 0)" using w(3,4) by (simp add: overdue_def less_timeval_def timercmp_less_def)
  ultimately show ?thesis using expired_clients_go [OF slow_linux reg sv g] sv w(2) by blast
qed

end
