(* ===== verification/WakeupProperties.thy ===== *)
theory WakeupProperties
  imports EchoWakeups EchoProperties
begin

unbundle bit_operations_syntax

text \<open>
  No wakeup of a client is lost, although the registrations are edge-triggered, with an example on the
  simulated system.
\<close>

section \<open>The simulated system\<close>

text \<open>
  All input of the simulation is there from the start, so that no event for it is ever due once a read
  found nothing; that there is room for output is always about to be reported.
\<close>

definition simG :: "sim edges" where
  "simG = \<lparr>g_in_ready = (\<lambda>k fd. map_of (s_input k) fd \<noteq> None), g_in_due = (\<lambda>_ _. False),
     g_out_ready = (\<lambda>k _. 0 < s_room k), g_out_due = (\<lambda>_ _. True)\<rparr>"

lemma sim_armed:
  "armed_in simOb simG k fd h \<longleftrightarrow> map_of (s_reg k) fd = Some h \<longrightarrow> map_of (s_input k) fd = None" "armed_out simOb simG k fd h"
  by (simp_all add: armed_in_def armed_out_def simG_def)

lemma map_of_update_other: "f \<noteq> fd \<Longrightarrow> map_of (AList.update fd bs l) f = map_of l f"
  by (simp add: update_conv')

lemma sim_read_edges:
  assumes "sim_read fd n k = (ret, en, bs, k')"
  shows "keeps simOb simG fd k k' \<and> (ret < 0 \<and> en = EAGAIN \<longrightarrow> (\<forall>h. armed_in simOb simG k' fd h))"
  using assms
  by (auto simp: sim_read_def keeps_def sim_armed Let_def EBADF_def EAGAIN_def map_of_update_other del_le split: if_splits option.splits)

lemma sim_edges: "edge_laws (epoll_added simK) (epoll_removed simK) simK simOb simG"
  unfolding edge_laws_def
  using sim_read_edges
  by (auto simp: simK_sel sim_write_def sim_accept_def sim_close_def epoll_added_def epoll_removed_def keeps_def steady_def
      sim_armed del_le Let_def split: if_splits)

lemma sim_edge_wait: "edge_wait (k_poll_wait simK efd ms k) simOb simG k"
  by (auto simp: edge_wait_def simK_sel sim_wait_def sim_armed Let_def split: list.splits)

section \<open>The property\<close>

text \<open>
C6: No wakeup is lost with edge-triggered registrations: in every reachable state a registered client waits in exactly one direction, and when its descriptor is ready in that direction, a wait still has to report it, although the server drops the events of the direction a client does not wait for and those of clients deleted in the same batch.
\<close>

theorem no_lost_wakeup:
  assumes L: "linux K ob" and k: "o_reg ob k = Map.empty" and w: "serving K m k w"
    and el: "edge_laws (epoll_added K) (epoll_removed K) K ob g" and ew: "\<And>efd ms k. edge_wait (k_poll_wait K efd ms k) ob g k"
    and reg: "o_reg ob (os w) fd = Some (HSock s)"
  shows "\<exists>x y. socks w s = Some fd \<and> view w (Rt s) = Some x \<and> view w (Wt s) = Some y \<and>
    (t_mode x = M_SOME \<and> t_mode y = M_NONE \<and> (g_in_ready g (os w) fd \<longrightarrow> g_in_due g (os w) fd) \<or>
     t_mode x = M_NONE \<and> t_mode y = M_ALL \<and> (g_out_ready g (os w) fd \<longrightarrow> g_out_due g (os w) fd))"
proof -
  have j: "watched ob g {} {} w" and q: "echo_J (epoll_added K) (epoll_removed K) K ob {} w" "calm w"
    using serving_watched [OF L k el ew w] by (simp_all add: watch_J_def)
  have "registered ob w" using q(1) coreD(3) by (auto simp: echo_J_def)
  then have s: "socks w s = Some fd" "fd \<noteq> -1" using reg unfolding registered_def by blast+
  from q s show ?thesis
  proof (cases rule: calm_cases)
    case (reads x y)
    then have "armed_in ob g (os w) fd (HSock s)" using j s by (simp add: watched_def waits_in_def)
    then show ?thesis using reads s(1) reg by (simp add: armed_in_def)
  next
    case (writes x y)
    then have "armed_out ob g (os w) fd (HSock s)" using j s by (simp add: watched_def waits_out_def)
    then show ?thesis using writes s(1) reg by (simp add: armed_out_def)
  qed
qed

lemma sim1_answered:
  "map_option (\<lambda>w. (socks w 0, modes w 0, map_of (s_reg (os w)) 5)) (sim_rounds 3 (sim_start sim1)) =
     Some (Some 5, (Some M_SOME, Some M_NONE), Some (HSock 0))"
  by code_simp

theorem no_lost_wakeup_witness:
  "\<exists>w. serving simK (\<lambda>_ _. 0) sim1 w \<and> modes w 0 = (Some M_SOME, Some M_NONE) \<and> map_of (s_input (os w)) 5 = None"
proof -
  obtain w where w: "sim_rounds 3 (sim_start sim1) = Some w" "modes w 0 = (Some M_SOME, Some M_NONE)"
      "map_of (s_reg (os w)) 5 = Some (HSock 0)"
    using sim1_answered by (cases "sim_rounds 3 (sim_start sim1)") auto
  note sv = sim_serving [OF w(1)]
  have "o_reg simOb (os w) 5 = Some (HSock 0)" using w(3) by simp
  from no_lost_wakeup [OF sim_linux sim1_reg sv sim_edges sim_edge_wait this] w(2) sv
  show ?thesis by (auto simp: modes_def simG_def)
qed

end
