(* ===== verification/KqueueServing.thy ===== *)
theory KqueueServing
  imports SimulationWaits
begin

unbundle bit_operations_syntax

text \<open>
  The echo server on the kqueue build: its reachable states, and the same guarantees as on epoll,
  from the same interfaces. A registration never asks for writability there, but every event is taken
  for both directions, so a pending write goes on when the next input arrives.
\<close>

section \<open>Reachable states\<close>

inductive kq_serving :: "'k kernel \<Rightarrow> memory \<Rightarrow> 'k \<Rightarrow> 'k echo_world \<Rightarrow> bool" for K m k where
  start: "kq_startup K m k = Inr (None, w) \<Longrightarrow> kq_serving K m k w"
| round: "kq_serving K m k w \<Longrightarrow> Kqueue_round (kqueue_env K) (Kqueue_timeout 100) w = Some (Inr (None, w')) \<Longrightarrow> kq_serving K m k w'"

definition kq_quiescent :: "'k kernel \<Rightarrow> 'k observer \<Rightarrow> 'k echo_world \<Rightarrow> bool" where
  "kq_quiescent K ob w \<longleftrightarrow> echo_J (kqueue_added K) (kqueue_removed K) K ob {} w \<and> calm w"

lemma bsdD:
  assumes "bsd K ob"
  shows "host (kqueue_added K) (kqueue_removed K) K ob" "setup_laws K ob" "wait_law (k_kevent_wait K kfd tmo k) ob k"
    "opens ob k (k_kqueue K k)"
  using assms unfolding bsd_def host_def setup_laws_def by blast+

lemma kq_polls:
  assumes L: "bsd K ob" and q: "kq_quiescent K ob w" and p: "k_kevent_wait K (p_fd w) tmo (os w) = (ret, en, evs, sigs, k)"
  shows "kqe.server.polls K K ob w (take (nat ret) evs) k"
proof -
  have "wait_law (ret, en, evs, sigs, k) ob (os w)" using bsdD(3) [OF L, of "p_fd w" tmo "os w"] p by simp
  then show ?thesis using q by (intro kqe.polls_ok) (auto simp: kq_quiescent_def)
qed

lemma kq_round:
  assumes L: "bsd K ob" and q: "kq_quiescent K ob w" and r: "Kqueue_round (kqueue_env K) tmo w = Some r"
  shows "\<exists>b w'. r = Inr (b, w') \<and> (b = None \<longrightarrow> kq_quiescent K ob w') \<and> (b \<noteq> None \<longrightarrow> accs w' 0 \<noteq> None)"
proof -
  obtain ret en evs sigs k where p: "k_kevent_wait K (p_fd w) tmo (os w) = (ret, en, evs, sigs, k)" by (metis prod_cases5)
  have "e_kern (kqueue_env K) = K" by (simp add: kqueue_env_def echo_env_def)
  then have "\<exists>b w'. r = Inr (b, w') \<and> (b = None \<longrightarrow> kq_quiescent K ob w') \<and>
      (b \<noteq> None \<longrightarrow> (\<exists>w1. echo_J (kqueue_added K) (kqueue_removed K) K ob {} w1 \<and> accs w' = accs w1))"
    using kqe.server.waited_ok [OF kqe.server.event_steps(2) kq_polls [OF L q p]] r p
    unfolding Kqueue_round_waited kqueue_env_def kq_quiescent_def by simp
  moreover have "accs w1 0 \<noteq> None" if "echo_J (kqueue_added K) (kqueue_removed K) K ob {} w1" for w1
    using that coreD(4) by (auto simp: echo_J_def served_def dest!: coreD(4))
  ultimately show ?thesis by (elim exE conjE) (auto simp del: split_paired_Ex)
qed

lemma kq_round_ends:
  assumes L: "bsd K ob" and q: "kq_quiescent K ob w" and bl: "budget_laws (kqueue_added K) (kqueue_removed K) K B"
  shows "Kqueue_round (kqueue_env K) tmo w \<noteq> None"
proof -
  obtain ret en evs sigs k where p: "k_kevent_wait K (p_fd w) tmo (os w) = (ret, en, evs, sigs, k)" by (metis prod_cases5)
  have "e_kern (kqueue_env K) = K" by (simp add: kqueue_env_def echo_env_def)
  then show ?thesis
    using kqe.ending.waited_ends [OF kqe.server.event_steps(2) bl kq_polls [OF L q p]] p
    unfolding Kqueue_round_waited kqueue_env_def by simp
qed

lemma kq_serving_quiescent:
  assumes L: "bsd K ob" and k: "o_reg ob k = Map.empty"
  shows "kq_serving K m k w \<Longrightarrow> kq_quiescent K ob w"
proof (induction rule: kq_serving.induct)
  case (start w)
  then show ?case using kqe.startup_calm [OF bsdD(1,2,4) [OF L] k, of m] by (auto simp: kq_startup_def kq_quiescent_def)
next
  case (round w w')
  then show ?case using kq_round [OF L round.IH round.hyps(2)] by auto
qed

lemma kq_loop_exits:
  assumes L: "bsd K ob" and r: "Kqueue_loop (kqueue_env K) tmo w = Some r" and q: "kq_quiescent K ob w"
  shows "\<exists>b w'. r = Inr (b, w') \<and> accs w' 0 \<noteq> None"
proof -
  have "E = kqueue_env K \<longrightarrow> kq_quiescent K ob w \<longrightarrow> (\<exists>b w'. r = Inr (b, w') \<and> accs w' 0 \<noteq> None)"
    if "Kqueue_loop E tmo w = Some r" for E tmo w r
  proof (rule Kqueue_loop.raw_induct [OF _ that], goal_cases)
    case (1 rec E tmo w r)
    show ?case
    proof (intro impI)
      assume e: "E = kqueue_env K" and q: "kq_quiescent K ob w"
      obtain r1 where r1: "Kqueue_round E tmo w = Some r1" using 1(2) by (cases "Kqueue_round E tmo w") auto
      then obtain b w1 where w1: "r1 = Inr (b, w1)" "b = None \<longrightarrow> kq_quiescent K ob w1" "b \<noteq> None \<longrightarrow> accs w1 0 \<noteq> None"
        using kq_round [OF L q r1 [unfolded e]] by blast
      then show "\<exists>b w'. r = Inr (b, w') \<and> accs w' 0 \<noteq> None"
        using 1(1) [of E tmo w1 r] 1(2) r1 e by (cases b) auto
    qed
  qed
  then show ?thesis using r q by blast
qed

lemma kq_loop_ends:
  assumes L: "bsd K ob" and bl: "budget_laws (kqueue_added K) (kqueue_removed K) K B"
    and we: "\<And>kfd tmo. waits_end (k_kevent_wait K kfd tmo) B" and q: "kq_quiescent K ob w"
  shows "\<exists>b w'. Kqueue_loop (kqueue_env K) tmo w = Some (Inr (b, w'))"
proof (rule loop_ends [where I = "kq_quiescent K ob" and round = "Kqueue_round (kqueue_env K) tmo"
      and M = "\<lambda>w. b_in B (os w) + b_conn B (os w)"])
  fix v assume q: "kq_quiescent K ob v"
  obtain ret en evs sigs k where p: "k_kevent_wait K (p_fd v) tmo (os v) = (ret, en, evs, sigs, k)" by (metis prod_cases5)
  have wl: "wait_law (ret, en, evs, sigs, k) ob (os v)" using bsdD(3) [OF L, of "p_fd v" tmo "os v"] p by simp
  obtain r where r: "Kqueue_round (kqueue_env K) tmo v = Some r" using kq_round_ends [OF L q bl] by blast
  then obtain b w' where w': "r = Inr (b, w')" "b = None \<longrightarrow> kq_quiescent K ob w'" using kq_round [OF L q r] by blast
  have "b_in B (os w') + b_conn B (os w') < b_in B (os v) + b_conn B (os v)" if "b = None"
  proof (rule kqe.waited_spends [OF bl we p kqe.server.event_steps(2) wl])
    show "echo_J (kqueue_added K) (kqueue_removed K) K ob {} v" "calm v" using q by (simp_all add: kq_quiescent_def)
    have "e_kern (kqueue_env K) = K" by (simp add: kqueue_env_def echo_env_def)
    then show "waited (echo_env (Kqueue_register K) (Kqueue_remove K) K)
        (Kqueue_event (echo_env (Kqueue_register K) (Kqueue_remove K) K)) ''kevent fail [%d][%s]'' (ret, en, evs, sigs, k) v = Some (Inr (None, w'))"
      using r w'(1) that p unfolding Kqueue_round_waited kqueue_env_def by simp
  qed
  then show "\<exists>b w'. Kqueue_round (kqueue_env K) tmo v = Some (Inr (b, w')) \<and>
      (b = None \<longrightarrow> kq_quiescent K ob w' \<and> b_in B (os w') + b_conn B (os w') < b_in B (os v) + b_conn B (os v))"
    using r w' by blast
qed (rule Kqueue_loop.simps, rule q)

section \<open>Properties\<close>


text \<open>One connection, five bytes of input, room for three; the events carry the flag \<open>EV_CLEAR\<close>.\<close>

definition kq_sim :: sim where
  "kq_sim = sim0 1 [(5, [104, 101, 108, 108, 111])] 3 [[(32, HAcc 0)], [(32, HSock 0)]]"

fun kq_sim_rounds :: "nat \<Rightarrow> sim echo_world \<Rightarrow> sim echo_world option" where
  "kq_sim_rounds 0 w = Some w"
| "kq_sim_rounds (Suc n) w =
     (case Kqueue_round (kqueue_env simK) (Kqueue_timeout 100) w of Some (Inr (None, w')) \<Rightarrow> kq_sim_rounds n w' | _ \<Rightarrow> None)"

definition kq_sim_start :: "sim echo_world option" where
  "kq_sim_start = (case kq_startup simK (\<lambda>_ _. 0) kq_sim of Inr (None, w) \<Rightarrow> Some w | _ \<Rightarrow> None)"

lemma kq_sim_rounds_serving: "kq_serving simK m k v \<Longrightarrow> kq_sim_rounds n v = Some w \<Longrightarrow> kq_serving simK m k w"
proof (induction n arbitrary: v)
  case (Suc n)
  obtain v' where "Kqueue_round (kqueue_env simK) (Kqueue_timeout 100) v = Some (Inr (None, v'))" "kq_sim_rounds n v' = Some w"
    using Suc.prems(2) by (auto split: option.splits sum.splits prod.splits)
  then show ?case using Suc.IH kq_serving.round [OF Suc.prems(1)] by blast
qed simp

lemma kq_sim_start: "kq_sim_start = Some w \<Longrightarrow> kq_serving simK (\<lambda>_ _. 0) kq_sim w"
  by (rule kq_serving.start) (simp add: kq_sim_start_def split: sum.splits prod.splits option.splits)

lemma kq_sim_run: "map_option (\<lambda>w. (socks w 0, s_in (os w) 5, s_out (os w) 5)) (Option.bind kq_sim_start (kq_sim_rounds 1)) =
    Some (Some 5, [104, 101, 108, 108, 111], [104, 101, 108])"
  by code_simp

lemma kq_sim_reg: "o_reg simOb kq_sim = Map.empty"
  by (simp add: kq_sim_def sim0_def)


text \<open>
The program on the kqueue build as a whole: if it ends it ends with the exit code 0 or 1 and without a fault.
\<close>

theorem kq_main_exit:
  assumes L: "bsd K ob" and k: "o_reg ob k = Map.empty" and r: "kq_main K m k = Some r"
  shows "\<exists>c w. r = Inr (c, w) \<and> c \<in> {0, 1}"
proof (rule kqe.program_exits [OF bsdD(1,2,4) [OF L] k _ r [unfolded kq_main_def]])
  fix w r assume "echo_J (kqueue_added K) (kqueue_removed K) K ob {} w" "calm w" "Kqueue_run (kqueue_env K) w = Some r"
  then show "\<exists>b w'. r = Inr (b, w') \<and> accs w' 0 \<noteq> None"
    using kq_loop_exits [OF L] by (simp add: Kqueue_run_def kq_quiescent_def)
qed

lemma kq_main_run: "case kq_main simK (\<lambda>_ _. 0) (sim0 0 [] 0 []) of Some (Inr (c, w)) \<Rightarrow> c = 0 | _ \<Rightarrow> False"
  by code_simp

theorem kq_main_exit_witness:
  "\<exists>r c w. kq_main simK (\<lambda>_ _. 0) (sim0 0 [] 0 []) = Some r \<and> r = Inr (c, w) \<and> c \<in> {0, 1}"
proof -
  obtain r where r: "kq_main simK (\<lambda>_ _. 0) (sim0 0 [] 0 []) = Some r"
    using kq_main_run by (cases "kq_main simK (\<lambda>_ _. 0) (sim0 0 [] 0 [])") auto
  from kq_main_exit [OF sim_bsd _ r] r show ?thesis by (auto simp: sim0_def)
qed

text \<open>
The program on the kqueue build ends: when the peers send finitely much and a signal that stops the loop, or a failing wait, comes after finitely many waits, \<open>main\<close> returns, with the exit code 0 or 1 and without a fault.
\<close>

theorem kq_main_ends:
  assumes L: "bsd K ob" and k: "o_reg ob k = Map.empty" and bl: "budget_laws (kqueue_added K) (kqueue_removed K) K B"
    and we: "\<And>kfd tmo. waits_end (k_kevent_wait K kfd tmo) B"
  shows "\<exists>c w. kq_main K m k = Some (Inr (c, w)) \<and> c \<in> {0, 1}"
proof -
  have "kq_main K m k \<noteq> None"
    unfolding kq_main_def
    by (rule kqe.program_ends [OF bsdD(1,2,4) [OF L] k]) (use kq_loop_ends [OF L bl we] in \<open>simp add: Kqueue_run_def kq_quiescent_def\<close>)
  then show ?thesis using kq_main_exit [OF L k] by blast
qed

theorem kq_main_ends_witness: "\<exists>c w. kq_main simK (\<lambda>_ _. 0) kq_sim = Some (Inr (c, w)) \<and> c \<in> {0, 1}"
  by (rule kq_main_ends [OF sim_bsd kq_sim_reg sim_script_budget(2) sim_waits_end(2)])

end
