(* ===== verification/Asio.thy ===== *)
theory Asio
  imports Prelude
begin

text \<open>
  What the Boost programs of the repository use of Boost.Asio, whose code is not part of it: an
  \<open>io_service\<close> holds the asynchronous operations that were started, \<open>run\<close> takes one that has
  completed after the other and calls its handler. Which one completes next and how is a parameter
  (record \<open>asio\<close>); that an operation is completed once, and with what its documentation allows, is
  the hypothesis \<open>asio_laws\<close>. The choice does not depend on the handlers. The buffers of an
  operation are arrays of the program's memory. \<open>io_in\<close> and \<open>io_out\<close> record the bytes delivered
  to the program and the bytes taken from it on each socket; the programs do not look at them.
\<close>

section \<open>Operations\<close>

text \<open>The first argument is the object whose socket the operation is about.\<close>

datatype 'h aop =
    Async_accept nat (op_handler: 'h)
  | Async_connect nat (op_handler: 'h)
  | Async_read_some nat ptr nat (op_handler: 'h)
  | Async_read nat ptr nat (op_handler: 'h)
  | Async_write nat ptr nat (op_handler: 'h)
  | Async_wait int (op_handler: 'h)

abbreviation shape :: "'h aop \<Rightarrow> unit aop" where
  "shape \<equiv> map_aop (\<lambda>_. ())"

fun subject :: "'h aop \<Rightarrow> nat option" where
  "subject (Async_accept c h) = Some c"
| "subject (Async_connect c h) = Some c"
| "subject (Async_read_some c p n h) = Some c"
| "subject (Async_read c p n h) = Some c"
| "subject (Async_write c p n h) = Some c"
| "subject (Async_wait s h) = None"

text \<open>
  How an operation ended: the error (0 for none), the bytes a read delivered, and
  \<open>bytes_transferred\<close>.
\<close>

record completion =
  c_err :: int
  c_data :: "byte list"
  c_count :: nat

datatype asio_event = Completed nat completion | Signalled int | No_work

record 'k asio =
  a_next :: "unit aop list \<Rightarrow> 'k \<Rightarrow> asio_event \<times> 'k"
  a_listen :: "int \<Rightarrow> 'k \<Rightarrow> bool \<times> 'k"
  a_resolve :: "string \<Rightarrow> string \<Rightarrow> 'k \<Rightarrow> bool \<times> 'k"
  a_time :: "'k \<Rightarrow> int \<times> 'k"

text \<open>
  The documented completions: \<open>async_read_some\<close> delivers at least one byte or an error and no more
  than the buffer takes; \<open>async_read\<close> and \<open>async_write\<close> go on until the whole buffer was
  transferred or an error occurs.
\<close>

fun fits :: "'h aop \<Rightarrow> completion \<Rightarrow> bool" where
  "fits (Async_read_some c p n h) r \<longleftrightarrow> c_count r = List.length (c_data r) \<and> c_count r \<le> n \<and>
     (if c_err r = 0 then 0 < n \<longrightarrow> 0 < c_count r else c_count r = 0)"
| "fits (Async_read c p n h) r \<longleftrightarrow> c_count r = List.length (c_data r) \<and> c_count r \<le> n \<and>
     (if c_err r = 0 then c_count r = n else c_count r < n)"
| "fits (Async_write c p n h) r \<longleftrightarrow> c_count r \<le> n \<and> (c_err r = 0 \<longrightarrow> c_count r = n)"
| "fits (Async_accept c h) r \<longleftrightarrow> True"
| "fits (Async_connect c h) r \<longleftrightarrow> True"
| "fits (Async_wait s h) r \<longleftrightarrow> True"

text \<open>A completed operation is one of those outstanding; without any, \<open>run\<close> has no work.\<close>

definition asio_laws :: "'k asio \<Rightarrow> bool" where
  "asio_laws A \<longleftrightarrow>
     (\<forall>ops k i r k'. a_next A ops k = (Completed i r, k') \<longrightarrow> i < List.length ops \<and> fits (ops ! i) r) \<and>
     (\<forall>ops k k'. a_next A ops k = (No_work, k') \<longrightarrow> ops = [])"

section \<open>The io service\<close>

text \<open>
  What the C++ standard leaves undefined in these programs, and an uncaught exception: a store past
  the end of an array, the use of a destroyed object, destroying an object twice or one that
  \<open>new\<close> did not make, following a null pointer, \<open>std::terminate\<close>.
\<close>

datatype asio_fault = Overrun | Deleted_use | Double_delete | Delete_automatic | Null_service | Terminate

record ('h, 'k) io =
  io_ops :: "'h aop list"
  io_stopped :: bool
  io_mem :: memory
  io_in :: "nat \<Rightarrow> byte list"
  io_out :: "nat \<Rightarrow> byte list"
  io_os :: 'k

definition io_start :: "'h aop \<Rightarrow> ('h, 'k, 'm) io_scheme \<Rightarrow> ('h, 'k, 'm) io_scheme" where
  "io_start a w = w\<lparr>io_ops := io_ops w @ [a]\<rparr>"

definition io_stop :: "('h, 'k, 'm) io_scheme \<Rightarrow> ('h, 'k, 'm) io_scheme" where
  "io_stop w = w\<lparr>io_stopped := True\<rparr>"

fun transfer :: "'h aop \<Rightarrow> completion \<Rightarrow> ('h, 'k, 'm) io_scheme \<Rightarrow> ('h, 'k, 'm) io_scheme" where
  "transfer (Async_read_some c p n h) r w =
     w\<lparr>io_mem := mem_store p (c_data r) (io_mem w), io_in := (io_in w)(c := io_in w c @ c_data r)\<rparr>"
| "transfer (Async_read c p n h) r w =
     w\<lparr>io_mem := mem_store p (c_data r) (io_mem w), io_in := (io_in w)(c := io_in w c @ c_data r)\<rparr>"
| "transfer (Async_write c p n h) r w =
     w\<lparr>io_out := (io_out w)(c := io_out w c @ take (c_count r) (mem_load (io_mem w) p n))\<rparr>"
| "transfer (Async_accept c h) r w = w"
| "transfer (Async_connect c h) r w = w"
| "transfer (Async_wait s h) r w = w"

definition remove_nth :: "nat \<Rightarrow> 'a list \<Rightarrow> 'a list" where
  "remove_nth i xs = take i xs @ drop (Suc i) xs"

datatype ending = Returned | Killed int

text \<open>
  One turn of \<open>run\<close>; with an \<open>ending\<close> it was the last one. \<open>call\<close> says what the handlers do and
  \<open>sig\<close> what a delivered signal does.
\<close>

definition io_round ::
  "'k asio \<Rightarrow> ('h \<Rightarrow> completion \<Rightarrow> ('h, 'k, 'm) io_scheme \<Rightarrow> asio_fault + ('h, 'k, 'm) io_scheme) \<Rightarrow>
   (int \<Rightarrow> ('h, 'k, 'm) io_scheme \<Rightarrow> asio_fault + ending option \<times> ('h, 'k, 'm) io_scheme) \<Rightarrow>
   ('h, 'k, 'm) io_scheme \<Rightarrow> asio_fault + ending option \<times> ('h, 'k, 'm) io_scheme" where
  "io_round A call sig w =
     (if io_stopped w then Inr (Some Returned, w)
      else case a_next A (map shape (io_ops w)) (io_os w) of (ev, k) \<Rightarrow>
        (case ev of
           No_work \<Rightarrow> Inr (Some Returned, w\<lparr>io_os := k\<rparr>)
         | Signalled n \<Rightarrow> sig n (w\<lparr>io_os := k\<rparr>)
         | Completed i r \<Rightarrow>
             bindS (call (op_handler (io_ops w ! i)) r
                     (transfer (io_ops w ! i) r (w\<lparr>io_ops := remove_nth i (io_ops w), io_os := k\<rparr>)))
               (\<lambda>w. Inr (None, w))))"

partial_function (option) io_run ::
  "'k asio \<Rightarrow> ('h \<Rightarrow> completion \<Rightarrow> ('h, 'k, 'm) io_scheme \<Rightarrow> asio_fault + ('h, 'k, 'm) io_scheme) \<Rightarrow>
   (int \<Rightarrow> ('h, 'k, 'm) io_scheme \<Rightarrow> asio_fault + ending option \<times> ('h, 'k, 'm) io_scheme) \<Rightarrow>
   ('h, 'k, 'm) io_scheme \<Rightarrow> (asio_fault + ending \<times> ('h, 'k, 'm) io_scheme) option" where
  "io_run A call sig w =
     (case io_round A call sig w of
        Inl f \<Rightarrow> Some (Inl f)
      | Inr (Some e, w') \<Rightarrow> Some (Inr (e, w'))
      | Inr (None, w') \<Rightarrow> io_run A call sig w')"

declare io_run.simps [code]

section \<open>Lemmas\<close>

lemma subject_map [simp]: "subject (map_aop f a) = subject a"
  by (cases a) simp_all

lemma fits_map [simp]: "fits (map_aop f a) r = fits a r"
  by (cases a) simp_all

lemma shape_map [simp]: "shape (map_aop f a) = shape a"
  by (cases a) simp_all

lemma handler_map [simp]: "op_handler (map_aop f a) = f (op_handler a)"
  by (cases a) simp_all

lemma asio_lawsD:
  assumes "asio_laws A"
  shows "a_next A ops k = (Completed i r, k') \<Longrightarrow> i < List.length ops \<and> fits (ops ! i) r"
    and "a_next A ops k = (No_work, k') \<Longrightarrow> ops = []"
  using assms unfolding asio_laws_def by blast+

lemma io_start_sel [simp]:
  "io_ops (io_start a w) = io_ops w @ [a]" "io_stopped (io_start a w) = io_stopped w"
  "io_mem (io_start a w) = io_mem w" "io_in (io_start a w) = io_in w" "io_out (io_start a w) = io_out w"
  "io_os (io_start a w) = io_os w" "io.more (io_start a w) = io.more w"
  by (simp_all add: io_start_def)

lemma io_stop_sel [simp]:
  "io_ops (io_stop w) = io_ops w" "io_stopped (io_stop w)" "io_mem (io_stop w) = io_mem w"
  "io_in (io_stop w) = io_in w" "io_out (io_stop w) = io_out w" "io_os (io_stop w) = io_os w"
  "io.more (io_stop w) = io.more w"
  by (simp_all add: io_stop_def)

lemma transfer_sel [simp]:
  "io_ops (transfer a r w) = io_ops w" "io_stopped (transfer a r w) = io_stopped w"
  "io_os (transfer a r w) = io_os w" "io.more (transfer a r w) = io.more w"
  by (cases a; simp)+

text \<open>An element taken out of a list of operations on different objects.\<close>

lemma remove_nth_split:
  assumes "i < List.length xs"
  obtains ys zs where "xs = ys @ xs ! i # zs" "remove_nth i xs = ys @ zs" "List.length ys = i"
  using that [of "take i xs" "drop (Suc i) xs"] assms
  by (simp add: remove_nth_def id_take_nth_drop)

lemma remove_nth_map: "remove_nth i (map f xs) = map f (remove_nth i xs)"
  by (simp add: remove_nth_def take_map drop_map)

lemma distinct_remove_nth:
  assumes "distinct (map f xs)" and "i < List.length xs"
  shows "distinct (map f (remove_nth i xs))" "f (xs ! i) \<notin> f ` set (remove_nth i xs)"
    "set xs = insert (xs ! i) (set (remove_nth i xs))"
proof -
  obtain ys zs where s: "xs = ys @ xs ! i # zs" "remove_nth i xs = ys @ zs" using remove_nth_split [OF assms(2)] .
  have "distinct (map f (ys @ xs ! i # zs))" using assms(1) s(1) by simp
  then show "distinct (map f (remove_nth i xs))" "f (xs ! i) \<notin> f ` set (remove_nth i xs)"
    unfolding s(2) by auto
  show "set xs = insert (xs ! i) (set (remove_nth i xs))" unfolding s(2) by (subst s(1)) auto
qed

lemma remove_nth_subset: "set (remove_nth i xs) \<subseteq> set xs"
  by (auto simp: remove_nth_def dest: in_set_takeD in_set_dropD)

text \<open>What a turn that goes on did.\<close>

lemma io_round_cases:
  assumes "io_round A call sig w = r"
  obtains (stopped) "io_stopped w" "r = Inr (Some Returned, w)"
  | (idle) k where "\<not> io_stopped w" "a_next A (map shape (io_ops w)) (io_os w) = (No_work, k)"
      "r = Inr (Some Returned, w\<lparr>io_os := k\<rparr>)"
  | (sgnal) n k where "\<not> io_stopped w" "a_next A (map shape (io_ops w)) (io_os w) = (Signalled n, k)"
      "r = sig n (w\<lparr>io_os := k\<rparr>)"
  | (completed) i c k where "\<not> io_stopped w" "a_next A (map shape (io_ops w)) (io_os w) = (Completed i c, k)"
      "r = bindS (call (op_handler (io_ops w ! i)) c
             (transfer (io_ops w ! i) c (w\<lparr>io_ops := remove_nth i (io_ops w), io_os := k\<rparr>))) (\<lambda>w. Inr (None, w))"
proof (cases "io_stopped w")
  case True
  then show ?thesis using stopped assms by (simp add: io_round_def)
next
  case False
  obtain ev k where e: "a_next A (map shape (io_ops w)) (io_os w) = (ev, k)" by fastforce
  show ?thesis
  proof (cases ev)
    case (Completed i c)
    then show ?thesis using completed [of i c k] e False assms by (simp add: io_round_def)
  next
    case (Signalled n)
    then show ?thesis using sgnal [of n k] e False assms by (simp add: io_round_def)
  next
    case No_work
    then show ?thesis using idle [of k] e False assms by (simp add: io_round_def)
  qed
qed

lemma io_completed_fits:
  assumes "asio_laws A" and "a_next A (map shape (io_ops w)) (io_os w) = (Completed i c, k)"
  shows "i < List.length (io_ops w)" and "fits (io_ops w ! i) c"
  using asio_lawsD(1) [OF assms] by auto

text \<open>What every turn keeps, \<open>run\<close> keeps, and without a fault.\<close>

lemma io_run_keeps:
  assumes step: "\<And>w r. P w \<Longrightarrow> io_round A call sig w = r \<Longrightarrow> \<exists>b w'. r = Inr (b, w') \<and> P w'"
    and r: "io_run A call sig w = Some r" and p: "P w"
  shows "\<exists>e w'. r = Inr (e, w') \<and> P w'"
proof -
  have "A' = A \<longrightarrow> call' = call \<longrightarrow> sig' = sig \<longrightarrow> P w \<longrightarrow> (\<exists>e w'. r = Inr (e, w') \<and> P w')"
    if "io_run A' call' sig' w = Some r" for A' call' sig' w r
  proof (rule io_run.raw_induct [OF _ that], goal_cases)
    case (1 rec A' call' sig' w r)
    show ?case
    proof (intro impI)
      assume e: "A' = A" "call' = call" "sig' = sig" and p: "P w"
      obtain b w1 where w1: "io_round A call sig w = Inr (b, w1)" "P w1" using step [OF p] by blast
      show "\<exists>e w'. r = Inr (e, w') \<and> P w'"
        using 1 e w1 by (cases b) auto
    qed
  qed
  then show ?thesis using r p by blast
qed

text \<open>
  A library that delivers finitely many completions, counted by \<open>P\<close>: then \<open>run\<close> returns, provided
  that the handlers leave the library alone and a signal stops it or ends the process.
\<close>

definition delivers_finitely :: "'k asio \<Rightarrow> ('k \<Rightarrow> nat) \<Rightarrow> bool" where
  "delivers_finitely A P \<longleftrightarrow> (\<forall>ops k i r k'. a_next A ops k = (Completed i r, k') \<longrightarrow> P k' < P k)"

lemma io_run_ends:
  fixes w :: "('h, 'k, 'm) io_scheme"
  assumes A: "delivers_finitely A P" and os: "\<And>h r w w'. call h r w = Inr w' \<Longrightarrow> io_os w' = io_os w"
    and sig: "\<And>n w w'. sig n w = Inr (None, w') \<Longrightarrow> io_stopped w'"
  shows "io_run A call sig w \<noteq> None"
proof (induction "if io_stopped w then 0 else Suc (P (io_os w))" arbitrary: w rule: less_induct)
  case less
  show ?case
  proof (cases "\<exists>w'. io_round A call sig w = Inr (None, w')")
    case False
    then show ?thesis by (subst io_run.simps) (auto split: sum.split prod.split option.split)
  next
    case True
    then obtain w' where w': "io_round A call sig w = Inr (None, w')" by blast
    have "io_run A call sig w' \<noteq> None"
    proof (rule io_round_cases [OF w'], goal_cases)
      case (3 n k)
      then show ?case using less.hyps [of w'] sig [of n "w\<lparr>io_os := k\<rparr>" w'] by simp
    next
      case (4 i c k)
      then have "call (op_handler (io_ops w ! i)) c
          (transfer (io_ops w ! i) c (w\<lparr>io_ops := remove_nth i (io_ops w), io_os := k\<rparr>)) = Inr w'"
        using 4(3) [symmetric] by (simp add: bindS_eq_Inr)
      from os [OF this] have "io_os w' = k" by simp
      moreover have "P k < P (io_os w)" using A 4(2) by (simp add: delivers_finitely_def)
      ultimately show ?case using less.hyps [of w'] 4(1) by simp
    qed simp_all
    then show ?thesis using w' by (subst io_run.simps) simp
  qed
qed

end
