(* ===== verification/BoostEcho.thy ===== *)
theory BoostEcho
  imports Asio
begin

text \<open>
  The echo server on Boost.Asio with callbacks (boost/test.cpp): \<open>Client\<close> reads what has arrived,
  stores a terminator behind it, writes it back and reads again; \<open>Server\<close> accepts one connection
  after the other. The \<open>c\<close>-th client made is the object \<open>c\<close> and its array \<open>_buf\<close>, the last
  member, is the block \<open>c\<close>. The server is a local variable of \<open>main\<close>. The program installs no
  signal handlers.
\<close>

datatype boost_handler = On_accept nat | On_read nat | On_write nat

record 'k boost = "(boost_handler, 'k) io" +
  b_clients :: "nat set"
  b_next :: nat

definition BUFLEN :: nat where "BUFLEN = 1024"

definition buf :: "nat \<Rightarrow> ptr" where "buf c = (c, 0)"

section \<open>Client\<close>

definition Client_open :: "nat \<Rightarrow> 'k boost \<Rightarrow> 'k boost" where
  "Client_open c w = io_start (Async_read_some c (buf c) BUFLEN (On_read c)) w"

definition Client_onRead :: "nat \<Rightarrow> completion \<Rightarrow> 'k boost \<Rightarrow> asio_fault + 'k boost" where
  "Client_onRead c r w =
     (if c \<notin> b_clients w then Inl Deleted_use
      else if c_err r \<noteq> 0 then Inr (w\<lparr>b_clients := b_clients w - {c}\<rparr>)
      else if BUFLEN \<le> c_count r then Inl Overrun
      else Inr (io_start (Async_write c (buf c) (c_count r) (On_write c))
                 (w\<lparr>io_mem := mem_store (ptr_add (buf c) (int (c_count r))) [0] (io_mem w)\<rparr>)))"

definition Client_onWrite :: "nat \<Rightarrow> completion \<Rightarrow> 'k boost \<Rightarrow> asio_fault + 'k boost" where
  "Client_onWrite c r w =
     (if c \<notin> b_clients w then Inl Deleted_use
      else if c_err r \<noteq> 0 then Inr (w\<lparr>b_clients := b_clients w - {c}\<rparr>)
      else Inr (io_start (Async_read_some c (buf c) BUFLEN (On_read c)) w))"

section \<open>Server\<close>

definition newHandler :: "'k boost \<Rightarrow> 'k boost" where
  "newHandler w =
     (let c = b_next w
      in io_start (Async_accept c (On_accept c)) (w\<lparr>b_next := c + 1, b_clients := insert c (b_clients w)\<rparr>))"

definition Server_accepted :: "nat \<Rightarrow> completion \<Rightarrow> 'k boost \<Rightarrow> asio_fault + 'k boost" where
  "Server_accepted c r w =
     (if c_err r \<noteq> 0 then Inl Delete_automatic
      else if c \<notin> b_clients w then Inl Deleted_use
      else Inr (newHandler (Client_open c w)))"

section \<open>The program\<close>

definition boost_call :: "boost_handler \<Rightarrow> completion \<Rightarrow> 'k boost \<Rightarrow> asio_fault + 'k boost" where
  "boost_call h r w =
     (case h of On_accept c \<Rightarrow> Server_accepted c r w | On_read c \<Rightarrow> Client_onRead c r w
      | On_write c \<Rightarrow> Client_onWrite c r w)"

text \<open>A signal ends the process.\<close>

definition boost_signal :: "int \<Rightarrow> 'k boost \<Rightarrow> asio_fault + ending option \<times> 'k boost" where
  "boost_signal n w = Inr (Some (Killed n), w)"

definition boost_round :: "'k asio \<Rightarrow> 'k boost \<Rightarrow> asio_fault + ending option \<times> 'k boost" where
  "boost_round A w = io_round A boost_call boost_signal w"

definition boost_new :: "memory \<Rightarrow> 'k \<Rightarrow> 'k boost" where
  "boost_new m k =
     \<lparr>io_ops = [], io_stopped = False, io_mem = m, io_in = (\<lambda>_. []), io_out = (\<lambda>_. []), io_os = k,
      b_clients = {}, b_next = 0\<rparr>"

text \<open>
  \<open>main\<close>: the constructor of the acceptor throws when the port cannot be listened on, which is
  caught and reported; the exit code is 0 in any case.
\<close>

definition boost_main :: "'k asio \<Rightarrow> memory \<Rightarrow> 'k \<Rightarrow> (asio_fault + ending \<times> int) option" where
  "boost_main A m k =
     (case a_listen A 9000 k of (ok, k) \<Rightarrow>
      if \<not> ok then Some (Inr (Returned, 0))
      else bindO (io_run A boost_call boost_signal (newHandler (boost_new m k)))
             (\<lambda>(e, w). Some (Inr (e, 0))))"

text \<open>The states of the running server between two completions.\<close>

inductive boosting :: "'k asio \<Rightarrow> memory \<Rightarrow> 'k \<Rightarrow> 'k boost \<Rightarrow> bool" for A m k where
  start: "boosting A m k (newHandler (boost_new m k))"
| round: "boosting A m k w \<Longrightarrow> boost_round A w = Inr (None, w') \<Longrightarrow> boosting A m k w'"

lemma boost_sel [simp]:
  "b_clients (io_start a w) = b_clients w" "b_next (io_start a w) = b_next w"
  "b_clients (transfer a r w) = b_clients w" "b_next (transfer a r w) = b_next w"
  by (simp_all add: io_start_def) (cases a; simp)+

end
