(* ===== verification/BoostCoro.thy ===== *)
theory BoostCoro
  imports Asio
begin

text \<open>
  The echo server on the stackless coroutines of Boost.Asio (boost_coro/test.cpp). The body of a
  \<open>reenter\<close> block goes on behind the \<open>yield\<close> it last left through, so a coroutine is the place where
  it stands: at the beginning, or at one of its \<open>yield\<close>s. Both \<open>run\<close> functions are called to start
  a coroutine and again as the handlers of its operations. The \<open>c\<close>-th client made is the object
  \<open>c\<close> and its array \<open>_buf\<close> the block \<open>c\<close>.
\<close>

datatype coro_handler = Server_run | Client_run nat

datatype client_place = At_start | At_read | At_write

datatype server_place = Srv_start | Srv_accept

record 'k coro = "(coro_handler, 'k) io" +
  co_clients :: "nat \<rightharpoonup> client_place"
  co_next :: nat
  co_server :: server_place
  co_newClient :: "nat option"
  g_ioService :: bool

definition CORO_BUFLEN :: nat where "CORO_BUFLEN = 1024"

definition cbuf :: "nat \<Rightarrow> ptr" where "cbuf c = (c, 0)"

section \<open>Client::run\<close>

text \<open>The loop arrives at one of its two \<open>yield\<close>s: the operation is started and the place is kept.\<close>

definition yield_read :: "nat \<Rightarrow> 'k coro \<Rightarrow> 'k coro" where
  "yield_read c w =
     io_start (Async_read_some c (cbuf c) CORO_BUFLEN (Client_run c))
       (w\<lparr>co_clients := (co_clients w)(c \<mapsto> At_read)\<rparr>)"

definition yield_write :: "nat \<Rightarrow> nat \<Rightarrow> 'k coro \<Rightarrow> 'k coro" where
  "yield_write c len w =
     io_start (Async_write c (cbuf c) len (Client_run c))
       (w\<lparr>co_clients := (co_clients w)(c \<mapsto> At_write)\<rparr>)"

definition Coro_Client_run :: "nat \<Rightarrow> int \<Rightarrow> nat \<Rightarrow> 'k coro \<Rightarrow> asio_fault + 'k coro" where
  "Coro_Client_run c err len w =
     (case co_clients w c of
        None \<Rightarrow> Inl Deleted_use
      | Some place \<Rightarrow>
          if err \<noteq> 0 then Inr (w\<lparr>co_clients := (co_clients w)(c := None)\<rparr>)
          else (case place of
                  At_start \<Rightarrow> Inr (yield_read c w)
                | At_read \<Rightarrow> Inr (yield_write c len w)
                | At_write \<Rightarrow> Inr (yield_read c w)))"

section \<open>Server::run\<close>

definition yield_accept :: "'k coro \<Rightarrow> 'k coro" where
  "yield_accept w =
     (let c = co_next w
      in io_start (Async_accept c Server_run)
           (w\<lparr>co_next := c + 1, co_clients := (co_clients w)(c \<mapsto> At_start), co_newClient := Some c,
              co_server := Srv_accept\<rparr>))"

definition Coro_Server_run :: "int \<Rightarrow> 'k coro \<Rightarrow> asio_fault + 'k coro" where
  "Coro_Server_run err w =
     (if err \<noteq> 0 then Inr w
      else (case co_server w of
              Srv_start \<Rightarrow> Inr (yield_accept w)
            | Srv_accept \<Rightarrow>
                (case co_newClient w of
                   None \<Rightarrow> Inl Null_service
                 | Some c \<Rightarrow> bindS (Coro_Client_run c 0 0 w) (\<lambda>w. Inr (yield_accept w)))))"

text \<open>The destructor deletes the client that no connection was accepted for.\<close>

definition Coro_Server_dtor :: "'k coro \<Rightarrow> asio_fault + 'k coro" where
  "Coro_Server_dtor w =
     (case co_newClient w of
        None \<Rightarrow> Inr w
      | Some c \<Rightarrow>
          if co_clients w c = None then Inl Double_delete
          else Inr (w\<lparr>co_clients := (co_clients w)(c := None)\<rparr>))"

section \<open>The program\<close>

definition coro_call :: "coro_handler \<Rightarrow> completion \<Rightarrow> 'k coro \<Rightarrow> asio_fault + 'k coro" where
  "coro_call h r w =
     (case h of Server_run \<Rightarrow> Coro_Server_run (c_err r) w | Client_run c \<Rightarrow> Coro_Client_run c (c_err r) (c_count r) w)"

text \<open>\<open>SigHandler\<close> stops the service, through a pointer that is null until \<open>main\<close> has set it.\<close>

definition Coro_SigHandler :: "int \<Rightarrow> 'k coro \<Rightarrow> asio_fault + 'k coro" where
  "Coro_SigHandler n w = (if g_ioService w then Inr (io_stop w) else Inl Null_service)"

text \<open>\<open>SetSigHandler\<close> installs it for SIGINT, SIGTERM and SIGPIPE; other signals end the process.\<close>

definition coro_signal :: "int \<Rightarrow> 'k coro \<Rightarrow> asio_fault + ending option \<times> 'k coro" where
  "coro_signal n w =
     (if n \<in> {2, 15, 13} then bindS (Coro_SigHandler n w) (\<lambda>w. Inr (None, w)) else Inr (Some (Killed n), w))"

definition coro_round :: "'k asio \<Rightarrow> 'k coro \<Rightarrow> asio_fault + ending option \<times> 'k coro" where
  "coro_round A w = io_round A coro_call coro_signal w"

definition coro_new :: "memory \<Rightarrow> 'k \<Rightarrow> 'k coro" where
  "coro_new m k =
     \<lparr>io_ops = [], io_stopped = False, io_mem = m, io_in = (\<lambda>_. []), io_out = (\<lambda>_. []), io_os = k,
      co_clients = Map.empty, co_next = 0, co_server = Srv_start, co_newClient = None, g_ioService = True\<rparr>"

text \<open>\<open>main\<close>: on the way out of the block the server is destroyed; the exit code is 0.\<close>

definition coro_main :: "'k asio \<Rightarrow> memory \<Rightarrow> 'k \<Rightarrow> (asio_fault + ending \<times> int) option" where
  "coro_main A m k =
     (case a_listen A 9000 k of (ok, k) \<Rightarrow>
      if \<not> ok then Some (Inr (Returned, 0))
      else bindO (Some (Coro_Server_run 0 (coro_new m k))) (\<lambda>w.
           bindO (io_run A coro_call coro_signal w) (\<lambda>(e, w).
           case e of Killed n \<Rightarrow> Some (Inr (e, 0))
           | Returned \<Rightarrow> bindO (Some (Coro_Server_dtor w)) (\<lambda>w. Some (Inr (e, 0))))))"

inductive coroing :: "'k asio \<Rightarrow> memory \<Rightarrow> 'k \<Rightarrow> 'k coro \<Rightarrow> bool" for A m k where
  start: "Coro_Server_run 0 (coro_new m k) = Inr w \<Longrightarrow> coroing A m k w"
| round: "coroing A m k w \<Longrightarrow> coro_round A w = Inr (None, w') \<Longrightarrow> coroing A m k w'"

lemma coro_sel [simp]:
  "co_clients (io_start a w) = co_clients w" "co_next (io_start a w) = co_next w"
  "co_server (io_start a w) = co_server w" "co_newClient (io_start a w) = co_newClient w"
  "g_ioService (io_start a w) = g_ioService w"
  "co_clients (transfer a r w) = co_clients w" "co_next (transfer a r w) = co_next w"
  "co_server (transfer a r w) = co_server w" "co_newClient (transfer a r w) = co_newClient w"
  "g_ioService (transfer a r w) = g_ioService w"
  "co_clients (io_stop w) = co_clients w" "co_next (io_stop w) = co_next w"
  "co_server (io_stop w) = co_server w" "co_newClient (io_stop w) = co_newClient w"
  "g_ioService (io_stop w) = g_ioService w"
  by (simp_all add: io_start_def io_stop_def) (cases a; simp)+

end
