(* ===== verification/CoroInvariant.thy ===== *)
theory CoroInvariant
  imports BoostCoro EchoService
begin

text \<open>
  The invariant of the coroutine server: every connected client has one operation outstanding, which
  fits the place where its coroutine stands, and what it received is what it sent and, while it
  writes, the front of its buffer.
\<close>

fun coro_op :: "'k coro \<Rightarrow> coro_handler aop \<Rightarrow> bool" where
  "coro_op w (Async_accept c h) \<longleftrightarrow> h = Server_run \<and> co_newClient w = Some c"
| "coro_op w (Async_read_some c p n h) \<longleftrightarrow> h = Client_run c \<and> p = cbuf c \<and> n = CORO_BUFLEN \<and>
     co_clients w c = Some At_read \<and> io_in w c = io_out w c"
| "coro_op w (Async_write c p n h) \<longleftrightarrow> h = Client_run c \<and> p = cbuf c \<and> n \<le> CORO_BUFLEN \<and>
     co_clients w c = Some At_write \<and> io_in w c = io_out w c @ mem_load (io_mem w) (cbuf c) n"
| "coro_op w (Async_connect c h) \<longleftrightarrow> False"
| "coro_op w (Async_read c p n h) \<longleftrightarrow> False"
| "coro_op w (Async_wait s h) \<longleftrightarrow> False"

text \<open>\<open>X\<close>: the clients whose handler is running.\<close>

definition coro_part :: "nat set \<Rightarrow> 'k coro \<Rightarrow> bool" where
  "coro_part X w \<longleftrightarrow>
     (\<forall>a\<in>set (io_ops w). coro_op w a) \<and> distinct (map subject (io_ops w)) \<and>
     (\<forall>c. co_next w \<le> c \<longrightarrow> co_clients w c = None \<and> io_in w c = [] \<and> io_out w c = []) \<and>
     (\<forall>c. relays CORO_BUFLEN (io_in w c) (io_out w c)) \<and>
     (\<forall>c. co_clients w c \<noteq> None \<longrightarrow> c \<notin> X \<longrightarrow> co_newClient w \<noteq> Some c \<longrightarrow> Some c \<in> subject ` set (io_ops w)) \<and>
     co_server w = Srv_accept \<and> g_ioService w \<and>
     (\<exists>n. co_newClient w = Some n \<and>
        (n \<notin> X \<longrightarrow> co_clients w n = Some At_start \<and> io_in w n = [] \<and> io_out w n = []))"

abbreviation coro_ok :: "'k coro \<Rightarrow> bool" where
  "coro_ok \<equiv> coro_part {}"

lemma coro_partD:
  assumes "coro_part X w"
  shows "a \<in> set (io_ops w) \<Longrightarrow> coro_op w a" "distinct (map subject (io_ops w))"
    "co_next w \<le> c \<Longrightarrow> co_clients w c = None \<and> io_in w c = [] \<and> io_out w c = []"
    "relays CORO_BUFLEN (io_in w c) (io_out w c)"
    "co_clients w c \<noteq> None \<Longrightarrow> c \<notin> X \<Longrightarrow> co_newClient w \<noteq> Some c \<Longrightarrow> Some c \<in> subject ` set (io_ops w)"
    "co_server w = Srv_accept" "g_ioService w"
    "\<exists>n. co_newClient w = Some n \<and>
      (n \<notin> X \<longrightarrow> co_clients w n = Some At_start \<and> io_in w n = [] \<and> io_out w n = [])"
  using assms unfolding coro_part_def by blast+

lemma coro_op_subject: "coro_op w a \<Longrightarrow> \<exists>c. subject a = Some c"
  by (cases a) simp_all

text \<open>An operation depends on its own client only.\<close>

lemma coro_op_frame:
  assumes "coro_op w a" and "subject a = Some d" and "co_clients w' d = co_clients w d"
    and "io_in w' d = io_in w d" and "io_out w' d = io_out w d" and "io_mem w' d = io_mem w d"
    and "co_newClient w = Some d \<longrightarrow> co_newClient w' = Some d"
  shows "coro_op w' a"
proof (cases a)
  case (Async_write c p n h)
  have "mem_load (io_mem w') (cbuf d) n = mem_load (io_mem w) (cbuf d) n"
    using assms(6) by (simp add: mem_load_def cbuf_def)
  then show ?thesis using Async_write assms by simp
qed (use assms in auto)

lemma ops_frame:
  assumes p: "coro_part X w" and c: "Some c \<notin> subject ` set (io_ops w)"
    and same: "\<And>d. d \<noteq> c \<Longrightarrow> co_clients w' d = co_clients w d \<and> io_in w' d = io_in w d \<and>
      io_out w' d = io_out w d \<and> io_mem w' d = io_mem w d"
    and n: "co_newClient w' = co_newClient w" and a: "a \<in> set (io_ops w)"
  shows "coro_op w' a"
proof -
  have o: "coro_op w a" using coro_partD(1) [OF p a] .
  then obtain d where d: "subject a = Some d" using coro_op_subject by blast
  then have "d \<noteq> c" using a c by force
  then show ?thesis using same n by (intro coro_op_frame [OF o d]) simp_all
qed

section \<open>The steps of the coroutines\<close>

lemma part_read:
  assumes p: "coro_part X w" and c: "Some c \<notin> subject ` set (io_ops w)" "c < co_next w" "c \<in> X"
    and s: "io_in w c = io_out w c"
  shows "coro_part X (yield_read c w)"
proof -
  let ?w = "yield_read c w"
  have op: "coro_op ?w a" if "a \<in> set (io_ops w)" for a
    by (rule ops_frame [OF p c(1) _ _ that]) (simp_all add: yield_read_def)
  show ?thesis
    unfolding coro_part_def
    using op coro_partD(2-8) [OF p] c s
    by (auto simp: yield_read_def)
qed

lemma part_write:
  assumes p: "coro_part X w" and c: "Some c \<notin> subject ` set (io_ops w)" "c < co_next w" "c \<in> X"
    and n: "n \<le> CORO_BUFLEN" and s: "io_in w c = io_out w c @ mem_load (io_mem w) (cbuf c) n"
  shows "coro_part X (yield_write c n w)"
proof -
  let ?w = "yield_write c n w"
  have op: "coro_op ?w a" if "a \<in> set (io_ops w)" for a
    by (rule ops_frame [OF p c(1) _ _ that]) (simp_all add: yield_write_def)
  show ?thesis
    unfolding coro_part_def
    using op coro_partD(2-8) [OF p] c s n
    by (auto simp: yield_write_def)
qed

lemma part_delete:
  assumes p: "coro_part X w" and c: "Some c \<notin> subject ` set (io_ops w)" "c \<in> X"
  shows "coro_part X (w\<lparr>co_clients := (co_clients w)(c := None)\<rparr>)"
proof -
  let ?w = "w\<lparr>co_clients := (co_clients w)(c := None)\<rparr>"
  have op: "coro_op ?w a" if "a \<in> set (io_ops w)" for a
    by (rule ops_frame [OF p c(1) _ _ that]) (simp_all)
  show ?thesis
    unfolding coro_part_def using op coro_partD(2-8) [OF p] c by auto
qed

lemma part_accept:
  assumes p: "coro_part X w" and n: "co_newClient w = Some n" "X \<subseteq> {n}" "n < co_next w"
    and a: "\<forall>a\<in>set (io_ops w). \<forall>c h. a \<noteq> Async_accept c h"
    and s: "co_clients w n \<noteq> None \<longrightarrow> Some n \<in> subject ` set (io_ops w)"
  shows "coro_ok (yield_accept w)"
proof -
  let ?w = "yield_accept w" and ?c = "co_next w"
  have fresh: "co_clients w ?c = None" "io_in w ?c = []" "io_out w ?c = []"
    using coro_partD(3) [OF p, of ?c] by simp_all
  have neq: "d \<noteq> ?c" if "a \<in> set (io_ops w)" "subject a = Some d" for a d
  proof -
    have "co_clients w d \<noteq> None" using coro_partD(1) [OF p that(1)] a that by (cases a) auto
    then show ?thesis using fresh(1) by metis
  qed
  have op: "coro_op ?w b" if "b \<in> set (io_ops w)" for b
  proof -
    have b: "coro_op w b" using coro_partD(1) [OF p that] .
    then obtain d where d: "subject b = Some d" using coro_op_subject by blast
    note nd = neq [OF that d]
    show ?thesis using b nd d a that by (cases b) (auto simp: yield_accept_def Let_def)
  qed
  have d: "distinct (map subject (io_ops ?w))"
    using coro_partD(2) [OF p] neq by (auto simp: yield_accept_def Let_def dest: sym)
  have has: "Some c \<in> subject ` set (io_ops w)" if "co_clients w c \<noteq> None" for c
    using coro_partD(5) [OF p that] s n that by (cases "c = n") auto
  show ?thesis
    unfolding coro_part_def
    using op d has fresh coro_partD(3,4,7) [OF p]
    by (auto simp: yield_accept_def Let_def)
qed

lemma part_settle:
  assumes "coro_part {c} w" and "co_newClient w \<noteq> Some c \<Longrightarrow> co_clients w c \<noteq> None \<Longrightarrow> Some c \<in> subject ` set (io_ops w)"
    and "co_newClient w = Some c \<Longrightarrow> co_clients w c = Some At_start \<and> io_in w c = [] \<and> io_out w c = []"
  shows "coro_ok w"
proof -
  note p = coro_partD [OF assms(1)]
  have "\<forall>d. co_clients w d \<noteq> None \<longrightarrow> d \<notin> {} \<longrightarrow> co_newClient w \<noteq> Some d \<longrightarrow> Some d \<in> subject ` set (io_ops w)"
    using p(5) assms(2) by blast
  moreover have "\<exists>n. co_newClient w = Some n \<and>
      (n \<notin> {} \<longrightarrow> co_clients w n = Some At_start \<and> io_in w n = [] \<and> io_out w n = [])"
    using p(8) assms(3) by blast
  ultimately show ?thesis using p(1-4,6,7) unfolding coro_part_def by blast
qed

lemma part_os:
  assumes "coro_part X w"
  shows "coro_part X (w\<lparr>io_os := k\<rparr>)" "coro_part X (io_stop w)"
proof -
  have "coro_op (w\<lparr>io_os := k\<rparr>) a" "coro_op (io_stop w) a" if "coro_op w a" for a
    using that by (cases a; simp add: io_stop_def)+
  then show "coro_part X (w\<lparr>io_os := k\<rparr>)" "coro_part X (io_stop w)"
    using assms unfolding coro_part_def by simp_all
qed

section \<open>One turn of the service\<close>

lemma part_take:
  fixes w :: "'k coro" and k :: 'k
  assumes p: "coro_ok w" and i: "i < List.length (io_ops w)" and c: "subject (io_ops w ! i) = Some c"
  defines "w0 \<equiv> w\<lparr>io_ops := remove_nth i (io_ops w), io_os := k\<rparr>"
  shows "coro_part {c} w0" and "Some c \<notin> subject ` set (io_ops w0)" and "c < co_next w0"
proof -
  note r = distinct_remove_nth [OF coro_partD(2) [OF p] i]
  have op: "coro_op w0 a" if "coro_op w a" for a using that by (cases a) (simp_all add: w0_def)
  have 1: "coro_op w (io_ops w ! i)" using coro_partD(1) [OF p] i by simp
  show "Some c \<notin> subject ` set (io_ops w0)" using r(2) c by (simp add: w0_def)
  have "co_clients w c \<noteq> None"
  proof (cases "io_ops w ! i")
    case (Async_accept d h)
    then show ?thesis using 1 c coro_partD(8) [OF p] by auto
  qed (use 1 c in auto)
  then show "c < co_next w0" using coro_partD(3) [OF p, of c] by (force simp: w0_def not_less [symmetric])
  have sub: "subject ` set (io_ops w) = insert (Some c) (subject ` set (io_ops w0))"
    using r(3) c by (simp add: w0_def)
  have "\<forall>a\<in>set (io_ops w0). coro_op w0 a" using op coro_partD(1) [OF p] r(3) by (auto simp: w0_def)
  moreover have "distinct (map subject (io_ops w0))" using r(1) by (simp add: w0_def)
  moreover have "\<forall>d. co_clients w0 d \<noteq> None \<longrightarrow> d \<notin> {c} \<longrightarrow> co_newClient w0 \<noteq> Some d \<longrightarrow> Some d \<in> subject ` set (io_ops w0)"
    using coro_partD(5) [OF p] sub by (simp add: w0_def) blast
  moreover have "\<forall>d. co_next w0 \<le> d \<longrightarrow> co_clients w0 d = None \<and> io_in w0 d = [] \<and> io_out w0 d = []"
    "\<forall>d. relays CORO_BUFLEN (io_in w0 d) (io_out w0 d)" "co_server w0 = Srv_accept" "g_ioService w0"
    using coro_partD(3,4,6,7) [OF p] by (simp_all add: w0_def)
  moreover have "\<exists>n. co_newClient w0 = Some n \<and>
      (n \<notin> {c} \<longrightarrow> co_clients w0 n = Some At_start \<and> io_in w0 n = [] \<and> io_out w0 n = [])"
    using coro_partD(8) [OF p] by (auto simp: w0_def)
  ultimately show "coro_part {c} w0" unfolding coro_part_def by blast
qed

lemma part_transfer:
  assumes p: "coro_part {c} w" and c: "Some c \<notin> subject ` set (io_ops w)" "subject a = Some c" "c < co_next w"
    and b: "case a of Async_read_some _ p' _ _ \<Rightarrow> p' = cbuf c | Async_read _ p' _ _ \<Rightarrow> p' = cbuf c | _ \<Rightarrow> True"
    and s: "relays CORO_BUFLEN (io_in (transfer a r w) c) (io_out (transfer a r w) c)"
  shows "coro_part {c} (transfer a r w)"
proof -
  have other: "io_in (transfer a r w) d = io_in w d \<and> io_out (transfer a r w) d = io_out w d \<and>
      io_mem (transfer a r w) d = io_mem w d" if "d \<noteq> c" for d
    using that c(2) b by (cases a) (auto simp: cbuf_def)
  have op: "coro_op (transfer a r w) x" if "x \<in> set (io_ops w)" for x
    by (rule ops_frame [OF p c(1) _ _ that]) (simp_all add: other)
  have "relays CORO_BUFLEN (io_in (transfer a r w) d) (io_out (transfer a r w) d)" for d
    using other coro_partD(4) [OF p] s by (cases "d = c") simp_all
  moreover have "io_in (transfer a r w) d = io_in w d \<and> io_out (transfer a r w) d = io_out w d" if "co_next w \<le> d" for d
    using other c(3) that by (metis leD)
  moreover obtain n where n: "co_newClient w = Some n"
      "n \<notin> {c} \<longrightarrow> co_clients w n = Some At_start \<and> io_in w n = [] \<and> io_out w n = []" using coro_partD(8) [OF p] by blast
  ultimately show ?thesis
    unfolding coro_part_def
    using op coro_partD(2,3,5-7) [OF p] other by auto
qed

lemma accepted_ok:
  assumes p: "coro_part {c} w" and c: "Some c \<notin> subject ` set (io_ops w)" "c < co_next w"
    and n: "co_newClient w = Some c" and s: "co_clients w c = Some At_start" "io_in w c = io_out w c"
  shows "\<exists>w'. Coro_Server_run 0 w = Inr w' \<and> coro_ok w'"
proof -
  have "Coro_Server_run 0 w = Inr (yield_accept (yield_read c w))"
    using n s(1) coro_partD(6) [OF p] by (simp add: Coro_Server_run_def Coro_Client_run_def)
  moreover have q: "coro_part {c} (yield_read c w)" using part_read [OF p c] s(2) by simp
  moreover have "\<forall>a\<in>set (io_ops (yield_read c w)). \<forall>d h. a \<noteq> Async_accept d h"
    using coro_partD(1) [OF p] c(1) n by (force simp: yield_read_def)
  then have "coro_ok (yield_accept (yield_read c w))"
    using part_accept [OF q, of c] c(2) n by (simp add: yield_read_def)
  ultimately show ?thesis by blast
qed

lemma client_ok:
  assumes p: "coro_part {c} w" and c: "Some c \<notin> subject ` set (io_ops w)" "c < co_next w"
    and n: "co_newClient w \<noteq> Some c"
    and s: "err = 0 \<Longrightarrow> co_clients w c = Some At_read \<and> len \<le> CORO_BUFLEN \<and> io_in w c = io_out w c @ mem_load (io_mem w) (cbuf c) len \<or>
      co_clients w c = Some At_write \<and> io_in w c = io_out w c" and alive: "co_clients w c \<noteq> None"
  shows "\<exists>w'. Coro_Client_run c err len w = Inr w' \<and> coro_ok w'"
proof (cases "err = 0")
  case False
  then have "Coro_Client_run c err len w = Inr (w\<lparr>co_clients := (co_clients w)(c := None)\<rparr>)"
    using alive by (auto simp: Coro_Client_run_def)
  then show ?thesis using part_settle [OF part_delete [OF p c(1)]] n by simp
next
  case True
  from s [OF True] show ?thesis
  proof (elim disjE conjE)
    assume a: "co_clients w c = Some At_read" "len \<le> CORO_BUFLEN" "io_in w c = io_out w c @ mem_load (io_mem w) (cbuf c) len"
    have "coro_part {c} (yield_write c len w)" using part_write [OF p c _ a(2,3)] by simp
    then have "coro_ok (yield_write c len w)" by (rule part_settle) (use n in \<open>simp_all add: yield_write_def\<close>)
    then show ?thesis using True a(1) by (simp add: Coro_Client_run_def)
  next
    assume a: "co_clients w c = Some At_write" "io_in w c = io_out w c"
    have "coro_part {c} (yield_read c w)" using part_read [OF p c _ a(2)] by simp
    then have "coro_ok (yield_read c w)" by (rule part_settle) (use n in \<open>simp_all add: yield_read_def\<close>)
    then show ?thesis using True a(1) by (simp add: Coro_Client_run_def)
  qed
qed

lemma take_length_load: "take (List.length xs) (mem_load m p (List.length xs)) = mem_load m p (List.length xs)"
  by simp

lemma completed_ok:
  fixes w :: "'k coro" and k :: 'k
  assumes p: "coro_ok w" and i: "i < List.length (io_ops w)" and f: "fits (io_ops w ! i) r"
  defines "w0 \<equiv> w\<lparr>io_ops := remove_nth i (io_ops w), io_os := k\<rparr>"
  shows "\<exists>w'. coro_call (op_handler (io_ops w ! i)) r (transfer (io_ops w ! i) r w0) = Inr w' \<and> coro_ok w'"
proof -
  let ?a = "io_ops w ! i"
  have o: "coro_op w ?a" using coro_partD(1) [OF p] i by simp
  then obtain c where c: "subject ?a = Some c" using coro_op_subject by blast
  note t = part_take [OF p i c, where k = k, folded w0_def]
  obtain n where nc: "co_newClient w = Some n" "co_clients w n = Some At_start" "io_in w n = []" "io_out w n = []"
    using coro_partD(8) [OF p] by auto
  show ?thesis
  proof (cases ?a)
    case (Async_accept d h)
    then have h: "d = c" "h = Server_run" "n = c" using o c nc(1) by auto
    show ?thesis
    proof (cases "c_err r = 0")
      case True
      then show ?thesis using accepted_ok [OF t(1-3)] nc h Async_accept by (simp add: coro_call_def w0_def)
    next
      case False
      have "coro_ok w0" by (rule part_settle [OF t(1)]) (use nc h in \<open>simp_all add: w0_def\<close>)
      then show ?thesis using False Async_accept h by (simp add: coro_call_def Coro_Server_run_def)
    qed
  next
    case (Async_read_some d q m h)
    then have h: "d = c" "h = Client_run c" "q = cbuf c" "m = CORO_BUFLEN" "co_clients w c = Some At_read" "io_in w c = io_out w c"
      using o c by auto
    let ?w = "transfer ?a r w0"
    have fr: "c_count r = List.length (c_data r)" "c_count r \<le> CORO_BUFLEN" using f Async_read_some h by simp_all
    have st: "io_in ?w c = io_out ?w c @ c_data r" "mem_load (io_mem ?w) (cbuf c) (c_count r) = c_data r"
      using Async_read_some h fr(1) by (simp_all add: w0_def)
    have q: "coro_part {c} ?w"
      by (rule part_transfer [OF t(1,2) c t(3)]) (use Async_read_some h st(1) fr in \<open>simp_all add: relays_append\<close>)
    have "\<exists>w'. Coro_Client_run c (c_err r) (c_count r) ?w = Inr w' \<and> coro_ok w'"
      by (rule client_ok [OF q]) (use t(2,3) nc h st fr in \<open>auto simp: w0_def\<close>)
    then show ?thesis using Async_read_some h by (simp add: coro_call_def)
  next
    case (Async_write d q m h)
    then have h: "d = c" "h = Client_run c" "q = cbuf c" "m \<le> CORO_BUFLEN" "co_clients w c = Some At_write"
        "io_in w c = io_out w c @ mem_load (io_mem w) (cbuf c) m"
      using o c by auto
    let ?w = "transfer ?a r w0"
    have fr: "c_count r \<le> m" "c_err r = 0 \<longrightarrow> c_count r = m" using f Async_write by simp_all
    have st: "io_in ?w c = io_out w c @ mem_load (io_mem w) (cbuf c) m"
        "io_out ?w c = io_out w c @ take (c_count r) (mem_load (io_mem w) (cbuf c) m)"
      using Async_write h by (simp_all add: w0_def)
    have q: "coro_part {c} ?w"
      by (rule part_transfer [OF t(1,2) c t(3)]) (use Async_write st h(4) in \<open>simp_all add: relays_take\<close>)
    have "\<exists>w'. Coro_Client_run c (c_err r) (c_count r) ?w = Inr w' \<and> coro_ok w'"
      by (rule client_ok [OF q]) (use t(2,3) nc h st fr in \<open>auto simp: w0_def\<close>)
    then show ?thesis using Async_write h by (simp add: coro_call_def)
  qed (use o in auto)
qed

lemma coro_round_ok:
  assumes L: "asio_laws A" and p: "coro_ok w" and r: "coro_round A w = r"
  shows "\<exists>b w'. r = Inr (b, w') \<and> coro_ok w'"
proof (rule io_round_cases [OF r [unfolded coro_round_def]], goal_cases)
  case 1
  then show ?case using p by simp
next
  case (2 k)
  then show ?case using part_os(1) [OF p] by simp
next
  case (3 n k)
  have q: "coro_ok (w\<lparr>io_os := k\<rparr>)" using part_os(1) [OF p] .
  then show ?case using 3(3) part_os(2) [OF q] coro_partD(7) [OF q] by (auto simp: coro_signal_def Coro_SigHandler_def)
next
  case (4 i c k)
  then show ?case using completed_ok [OF p io_completed_fits [OF L 4(2)], of k] by auto
qed

lemma coro_start_ok: "\<exists>w. Coro_Server_run 0 (coro_new m k) = Inr w \<and> coro_ok w"
  by (auto simp: Coro_Server_run_def coro_new_def yield_accept_def Let_def coro_part_def io_start_def)

lemma coroing_ok: "coroing A m k w \<Longrightarrow> asio_laws A \<Longrightarrow> coro_ok w"
proof (induction rule: coroing.induct)
  case (start w)
  then show ?case using coro_start_ok [of m k] by simp
next
  case (round w w')
  then show ?case using coro_round_ok by fastforce
qed

interpretation coro_echo: echo_service
  "\<lambda>w. asio_laws A \<and> coroing A m k w" "\<lambda>w c. True" io_in io_out CORO_BUFLEN for A m k
  by unfold_locales (blast intro: coro_partD(4) [OF coroing_ok])

end
