(* ===== verification/BoostEquivalence.thy ===== *)
theory BoostEquivalence
  imports BoostEcho CoroInvariant
begin

text \<open>
  The callback server and the coroutine server do the same: they start the same operations in the
  same order, so that the library makes the same choices for both, and send the same bytes, until
  the callback server goes wrong, on a read that fills its buffer or a failing accept.
\<close>

fun to_coro :: "boost_handler \<Rightarrow> coro_handler" where
  "to_coro (On_accept c) = Server_run"
| "to_coro (On_read c) = Client_run c"
| "to_coro (On_write c) = Client_run c"

fun boost_op :: "boost_handler aop \<Rightarrow> bool" where
  "boost_op (Async_accept c h) \<longleftrightarrow> h = On_accept c"
| "boost_op (Async_read_some c p n h) \<longleftrightarrow> h = On_read c \<and> p = buf c \<and> n = BUFLEN"
| "boost_op (Async_write c p n h) \<longleftrightarrow> h = On_write c \<and> p = buf c"
| "boost_op (Async_connect c h) \<longleftrightarrow> False"
| "boost_op (Async_read c p n h) \<longleftrightarrow> False"
| "boost_op (Async_wait s h) \<longleftrightarrow> False"

definition same_written :: "boost_handler aop list \<Rightarrow> memory \<Rightarrow> memory \<Rightarrow> bool" where
  "same_written ops m m' \<longleftrightarrow> (\<forall>c p n h. Async_write c p n h \<in> set ops \<longrightarrow> mem_load m p n = mem_load m' p n)"

definition agrees :: "'k boost \<Rightarrow> 'k coro \<Rightarrow> bool" where
  "agrees w v \<longleftrightarrow>
     io_ops v = map (map_aop to_coro) (io_ops w) \<and> (\<forall>a\<in>set (io_ops w). boost_op a) \<and>
     io_in w = io_in v \<and> io_out w = io_out v \<and> io_os w = io_os v \<and> \<not> io_stopped w \<and> \<not> io_stopped v \<and>
     b_clients w = dom (co_clients v) \<and> b_next w = co_next v \<and> same_written (io_ops w) (io_mem w) (io_mem v)"

lemma agreesD:
  assumes "agrees w v"
  shows "io_ops v = map (map_aop to_coro) (io_ops w)" "a \<in> set (io_ops w) \<Longrightarrow> boost_op a"
    "io_in w = io_in v" "io_out w = io_out v" "io_os w = io_os v" "\<not> io_stopped w" "\<not> io_stopped v"
    "b_clients w = dom (co_clients v)" "b_next w = co_next v" "same_written (io_ops w) (io_mem w) (io_mem v)"
  using assms unfolding agrees_def by blast+

lemma buffers: "buf = cbuf" "BUFLEN = CORO_BUFLEN"
  by (simp_all add: fun_eq_iff buf_def cbuf_def BUFLEN_def CORO_BUFLEN_def)

lemma same_written_sub: "same_written ops m m' \<Longrightarrow> set ops' \<subseteq> set ops \<Longrightarrow> same_written ops' m m'"
  unfolding same_written_def by blast

text \<open>Stores into the block of a client that writes nothing.\<close>

lemma same_written_other:
  assumes s: "same_written ops m m'" and o: "\<forall>a\<in>set ops. boost_op a" and c: "Some c \<notin> subject ` set ops"
    and e: "\<And>d. d \<noteq> c \<Longrightarrow> m2 d = m d \<and> m2' d = m' d"
  shows "same_written ops m2 m2'"
  unfolding same_written_def
proof (intro allI impI)
  fix d p n h assume a: "Async_write d p n h \<in> set ops"
  have "p = (d, 0)" using o a by (force simp: buf_def)
  moreover have "d \<noteq> c" using c a by force
  ultimately have "mem_load m2 p n = mem_load m p n" "mem_load m2' p n = mem_load m' p n"
    using e [of d] by (auto intro: mem_load_cong)
  then show "mem_load m2 p n = mem_load m2' p n" using s a unfolding same_written_def by metis
qed

lemma agrees_taken:
  fixes w :: "'k boost" and v :: "'k coro" and k :: 'k
  assumes g: "agrees w v" and i: "i < List.length (io_ops w)"
  shows "agrees (w\<lparr>io_ops := remove_nth i (io_ops w), io_os := k\<rparr>) (v\<lparr>io_ops := remove_nth i (io_ops v), io_os := k\<rparr>)"
    and "same_written [io_ops w ! i] (io_mem w) (io_mem v)"
    and "boost_op (io_ops w ! i)" and "io_ops v ! i = map_aop to_coro (io_ops w ! i)"
proof -
  have sub: "set (remove_nth i (io_ops w)) \<subseteq> set (io_ops w)"
    by (rule remove_nth_subset)
  show "agrees (w\<lparr>io_ops := remove_nth i (io_ops w), io_os := k\<rparr>) (v\<lparr>io_ops := remove_nth i (io_ops v), io_os := k\<rparr>)"
    unfolding agrees_def
    using agreesD [OF g] same_written_sub [OF agreesD(10) [OF g] sub] subsetD [OF sub] by (simp add: remove_nth_map)
  show "same_written [io_ops w ! i] (io_mem w) (io_mem v)"
    using same_written_sub [OF agreesD(10) [OF g]] i by simp
  show "boost_op (io_ops w ! i)" "io_ops v ! i = map_aop to_coro (io_ops w ! i)" using agreesD(1,2) [OF g] i by simp_all
qed

section \<open>The steps correspond\<close>

lemma agrees_start:
  assumes g: "agrees w v" and a: "boost_op a" and c: "same_written [a] (io_mem w) (io_mem v)"
  shows "agrees (io_start a w) (io_start (map_aop to_coro a) v)"
  using agreesD [OF g] a c unfolding agrees_def same_written_def by (simp add: ball_Un) blast

lemma agrees_delete:
  "agrees w v \<Longrightarrow> agrees (w\<lparr>b_clients := b_clients w - {c}\<rparr>) (v\<lparr>co_clients := (co_clients v)(c := None)\<rparr>)"
  unfolding agrees_def by auto

lemma agrees_place:
  "agrees w v \<Longrightarrow> co_clients v c \<noteq> None \<Longrightarrow> agrees w (v\<lparr>co_clients := (co_clients v)(c \<mapsto> q)\<rparr>)"
  unfolding agrees_def by auto

lemma agrees_read:
  assumes "agrees w v" and "co_clients v c \<noteq> None"
  shows "agrees (io_start (Async_read_some c (buf c) BUFLEN (On_read c)) w) (yield_read c v)"
  using agrees_start [OF agrees_place [OF assms, of At_read], of "Async_read_some c (buf c) BUFLEN (On_read c)"]
  by (simp add: yield_read_def buffers same_written_def)

lemma agrees_accept: "agrees w v \<Longrightarrow> agrees (newHandler w) (yield_accept v)"
  unfolding agrees_def same_written_def newHandler_def yield_accept_def by (auto simp: Let_def)

lemma agrees_transfer:
  assumes g: "agrees w v" and a: "boost_op a" "subject a = Some c" and c: "Some c \<notin> subject ` set (io_ops w)"
    and s: "same_written [a] (io_mem w) (io_mem v)"
  shows "agrees (transfer a r w) (transfer (map_aop to_coro a) r v)"
proof -
  have m: "io_mem (transfer a r w) d = io_mem w d \<and> io_mem (transfer (map_aop to_coro a) r v) d = io_mem v d" if "d \<noteq> c" for d
    using that a by (cases a) (auto simp: buf_def)
  have "same_written (io_ops w) (io_mem (transfer a r w)) (io_mem (transfer (map_aop to_coro a) r v))"
    by (rule same_written_other [OF agreesD(10) [OF g] _ c]) (use agreesD(2) [OF g] m in auto)
  moreover have "io_in (transfer a r w) = io_in (transfer (map_aop to_coro a) r v)"
    "io_out (transfer a r w) = io_out (transfer (map_aop to_coro a) r v)"
    using agreesD(3,4) [OF g] s by (cases a; simp add: same_written_def)+
  ultimately show ?thesis using agreesD [OF g] unfolding agrees_def by simp
qed

text \<open>What goes wrong in the callback server.\<close>

fun spoils :: "boost_handler aop \<Rightarrow> completion \<Rightarrow> asio_fault option" where
  "spoils (Async_accept c h) r = (if c_err r \<noteq> 0 then Some Delete_automatic else None)"
| "spoils (Async_read_some c p n h) r = (if c_err r = 0 \<and> c_count r = BUFLEN then Some Overrun else None)"
| "spoils a r = None"

lemma agrees_store:
  assumes g: "agrees w v" and c: "Some c \<notin> subject ` set (io_ops w)"
  shows "agrees (w\<lparr>io_mem := mem_store (ptr_add (buf c) n) bs (io_mem w)\<rparr>) v"
proof -
  have "same_written (io_ops w) (mem_store (ptr_add (buf c) n) bs (io_mem w)) (io_mem v)"
    by (rule same_written_other [OF agreesD(10) [OF g] _ c]) (use agreesD(2) [OF g] in \<open>auto simp: buf_def\<close>)
  then show ?thesis using agreesD [OF g] unfolding agrees_def by simp
qed

lemma accept_agrees:
  assumes g: "agrees w v" and c: "co_clients v c = Some At_start" "co_newClient v = Some c" "co_server v = Srv_accept"
    and r: "c_err r = 0"
  shows "\<exists>w' v'. Server_accepted c r w = Inr w' \<and> Coro_Server_run (c_err r) v = Inr v' \<and> agrees w' v'"
proof -
  have "c \<in> b_clients w" using agreesD(8) [OF g] c(1) by auto
  moreover have "agrees (newHandler (Client_open c w)) (yield_accept (yield_read c v))"
    using agrees_accept [OF agrees_read [OF g, of c]] c(1) by (simp add: Client_open_def)
  ultimately show ?thesis using c r by (simp add: Server_accepted_def Coro_Server_run_def Coro_Client_run_def)
qed

lemma read_agrees:
  assumes g: "agrees w v" and c: "co_clients v c = Some At_read" "Some c \<notin> subject ` set (io_ops w)"
    and n: "c_count r < BUFLEN" and m: "mem_load (io_mem w) (buf c) (c_count r) = mem_load (io_mem v) (buf c) (c_count r)"
  shows "\<exists>w' v'. Client_onRead c r w = Inr w' \<and> Coro_Client_run c (c_err r) (c_count r) v = Inr v' \<and> agrees w' v'"
proof -
  have a: "c \<in> b_clients w" using agreesD(8) [OF g] c(1) by auto
  show ?thesis
  proof (cases "c_err r = 0")
    case False
    then show ?thesis using a c(1) agrees_delete [OF g, of c] by (simp add: Client_onRead_def Coro_Client_run_def)
  next
    case True
    let ?w = "w\<lparr>io_mem := mem_store (ptr_add (buf c) (int (c_count r))) [0] (io_mem w)\<rparr>"
    have "agrees ?w (v\<lparr>co_clients := (co_clients v)(c \<mapsto> At_write)\<rparr>)"
      using agrees_place [OF agrees_store [OF g c(2)]] c(1) by simp
    from agrees_start [OF this, of "Async_write c (buf c) (c_count r) (On_write c)"]
    have "agrees (io_start (Async_write c (buf c) (c_count r) (On_write c)) ?w) (yield_write c (c_count r) v)"
      using m by (simp add: yield_write_def buffers same_written_def)
    then show ?thesis using True a c(1) n by (simp add: Client_onRead_def Coro_Client_run_def)
  qed
qed

lemma write_agrees:
  assumes g: "agrees w v" and c: "co_clients v c = Some At_write"
  shows "\<exists>w' v'. Client_onWrite c r w = Inr w' \<and> Coro_Client_run c (c_err r) n v = Inr v' \<and> agrees w' v'"
proof -
  have "c \<in> b_clients w" using agreesD(8) [OF g] c(1) by auto
  then show ?thesis
    using c agrees_delete [OF g, of c] agrees_read [OF g, of c]
    by (cases "c_err r = 0") (simp_all add: Client_onWrite_def Coro_Client_run_def)
qed

lemma completed_agrees:
  fixes w :: "'k boost" and v :: "'k coro" and k :: 'k
  assumes g: "agrees w v" and p: "coro_ok v" and i: "i < List.length (io_ops w)" and f: "fits (io_ops w ! i) r"
  defines "w1 \<equiv> transfer (io_ops w ! i) r (w\<lparr>io_ops := remove_nth i (io_ops w), io_os := k\<rparr>)"
    and "v1 \<equiv> transfer (io_ops v ! i) r (v\<lparr>io_ops := remove_nth i (io_ops v), io_os := k\<rparr>)"
  shows "case spoils (io_ops w ! i) r of
      Some e \<Rightarrow> boost_call (op_handler (io_ops w ! i)) r w1 = Inl e
    | None \<Rightarrow> \<exists>w' v'. boost_call (op_handler (io_ops w ! i)) r w1 = Inr w' \<and>
        coro_call (op_handler (io_ops v ! i)) r v1 = Inr v' \<and> agrees w' v'"
proof -
  let ?a = "io_ops w ! i"
  note t = agrees_taken [OF g i]
  have iv: "i < List.length (io_ops v)" using i agreesD(1) [OF g] by simp
  have o: "coro_op v (map_aop to_coro ?a)" using coro_partD(1) [OF p nth_mem [OF iv]] t(4) by simp
  obtain c where c: "subject ?a = Some c" using coro_op_subject [OF o] by auto
  have cn: "Some c \<notin> subject ` set (remove_nth i (io_ops w))"
    using distinct_remove_nth(2) [OF coro_partD(2) [OF p] iv] t(4) c agreesD(1) [OF g]
    by (auto simp: remove_nth_map image_image)
  have g1: "agrees w1 v1"
    unfolding w1_def v1_def t(4) by (rule agrees_transfer [OF t(1) t(3) c]) (use cn t(2) in simp_all)
  have al: "c \<in> b_clients w1" if "co_clients v c \<noteq> None"
    using that agreesD(8) [OF g] by (auto simp: w1_def)
  show ?thesis
  proof (cases ?a)
    case (Async_accept d h)
    then have h: "d = c" "h = On_accept c" "co_newClient v = Some c" using c t(3) o by auto
    have st: "co_clients v1 c = Some At_start" "co_newClient v1 = Some c" "co_server v1 = Srv_accept"
      using coro_partD(6,8) [OF p] h(3) by (auto simp: v1_def)
    show ?thesis
      using accept_agrees [OF g1 st, of r] Async_accept h t(4)
      by (cases "c_err r = 0") (auto simp: boost_call_def coro_call_def Server_accepted_def)
  next
    case (Async_read_some d q m h)
    then have h: "d = c" "h = On_read c" "q = buf c" "m = BUFLEN" "co_clients v c = Some At_read" using c t(3) o by auto
    have fr: "c_count r \<le> BUFLEN" "c_count r = List.length (c_data r)" "c_err r \<noteq> 0 \<longrightarrow> c_count r = 0"
      using f Async_read_some h by auto
    show ?thesis
    proof (cases "c_err r = 0 \<and> c_count r = BUFLEN")
      case True
      then show ?thesis using al h Async_read_some by (simp add: boost_call_def Client_onRead_def)
    next
      case False
      then have n: "c_count r < BUFLEN" using fr by (auto simp: BUFLEN_def)
      have "\<exists>w' v'. Client_onRead c r w1 = Inr w' \<and> Coro_Client_run c (c_err r) (c_count r) v1 = Inr v' \<and> agrees w' v'"
        by (rule read_agrees [OF g1 _ _ n]) (use h Async_read_some fr(2) cn t(4) in \<open>simp_all add: w1_def v1_def\<close>)
      then show ?thesis using False Async_read_some h t(4) by (auto simp: boost_call_def coro_call_def)
    qed
  next
    case (Async_write d q m h)
    then have h: "d = c" "h = On_write c" "co_clients v1 c = Some At_write" using c t(3) o by (auto simp: v1_def)
    show ?thesis
      using write_agrees [OF g1 h(3), of r "c_count r"] Async_write h t(4) by (simp add: boost_call_def coro_call_def)
  qed (use t(3) in simp_all)
qed

end
