(* ===== verification/Tester.thy ===== *)
theory Tester
  imports Asio
begin

text \<open>
  The load generator (tester/test.cpp): \<open>count\<close> clients connect to an echo server, and each writes a
  message of \<open>size\<close> bytes, reads as many, counts a success and starts again, until the time is up.
  An error counts as a failure and deletes the client. \<open>g_global\<close> is part of the state; its array
  \<open>buf\<close> is the block 0, and the \<open>i\<close>-th client is the object \<open>i\<close> with its array in the block
  \<open>i + 1\<close>. What \<open>getopt\<close> takes from the command line is a parameter.
\<close>

datatype tester_handler = Connected nat | Written nat | Echoed nat | Timer

record 'k tester = "(tester_handler, 'k) io" +
  g_size :: int
  g_count :: int
  g_duration :: int
  g_host :: string
  g_port :: string
  g_stop :: bool
  g_success :: int
  g_fail :: int
  g_startTime :: int
  g_elapsedTime :: int
  t_clients :: "nat set"
  t_service :: bool

definition gbuf :: ptr where "gbuf = (0, 0)"

definition tbuf :: "nat \<Rightarrow> ptr" where "tbuf i = (Suc i, 0)"

section \<open>TestClient\<close>

definition TestClient_ctor :: "nat \<Rightarrow> 'k tester \<Rightarrow> 'k tester" where
  "TestClient_ctor i w =
     io_start (Async_connect i (Connected i)) (w\<lparr>t_clients := insert i (t_clients w)\<rparr>)"

definition TestClient_dtor :: "nat \<Rightarrow> 'k tester \<Rightarrow> asio_fault + 'k tester" where
  "TestClient_dtor i w =
     (if i \<notin> t_clients w then Inl Double_delete else Inr (w\<lparr>t_clients := t_clients w - {i}\<rparr>))"

definition start_write :: "nat \<Rightarrow> 'k tester \<Rightarrow> 'k tester" where
  "start_write i w = io_start (Async_write i gbuf (nat (g_size w)) (Written i)) w"

definition TestClient_onConnect :: "nat \<Rightarrow> completion \<Rightarrow> 'k tester \<Rightarrow> asio_fault + 'k tester" where
  "TestClient_onConnect i r w =
     (if i \<notin> t_clients w then Inl Deleted_use
      else if c_err r \<noteq> 0 then TestClient_dtor i (w\<lparr>g_fail := g_fail w + 1\<rparr>)
      else if g_stop w then Inr w
      else Inr (start_write i w))"

definition TestClient_onWrite :: "nat \<Rightarrow> completion \<Rightarrow> 'k tester \<Rightarrow> asio_fault + 'k tester" where
  "TestClient_onWrite i r w =
     (if i \<notin> t_clients w then Inl Deleted_use
      else if c_err r \<noteq> 0 then TestClient_dtor i (w\<lparr>g_fail := g_fail w + 1\<rparr>)
      else if g_stop w then Inr w
      else Inr (io_start (Async_read i (tbuf i) (nat (g_size w)) (Echoed i)) w))"

definition TestClient_onRead :: "nat \<Rightarrow> completion \<Rightarrow> 'k tester \<Rightarrow> asio_fault + 'k tester" where
  "TestClient_onRead i r w =
     (if i \<notin> t_clients w then Inl Deleted_use
      else if c_err r \<noteq> 0 then TestClient_dtor i (w\<lparr>g_fail := g_fail w + 1\<rparr>)
      else if g_stop w then Inr w
      else Inr (start_write i (w\<lparr>g_success := g_success w + 1\<rparr>)))"

section \<open>The timer and the signals\<close>

definition OnTimer :: "completion \<Rightarrow> 'k tester \<Rightarrow> asio_fault + 'k tester" where
  "OnTimer r w = (if c_err r \<noteq> 0 then Inr w else Inr (io_stop (w\<lparr>g_stop := True\<rparr>)))"

definition Tester_SigHandler :: "int \<Rightarrow> 'k tester \<Rightarrow> asio_fault + 'k tester" where
  "Tester_SigHandler n w = (if t_service w then Inr (io_stop w) else Inl Null_service)"

definition tester_call :: "tester_handler \<Rightarrow> completion \<Rightarrow> 'k tester \<Rightarrow> asio_fault + 'k tester" where
  "tester_call h r w =
     (case h of Connected i \<Rightarrow> TestClient_onConnect i r w | Written i \<Rightarrow> TestClient_onWrite i r w
      | Echoed i \<Rightarrow> TestClient_onRead i r w | Timer \<Rightarrow> OnTimer r w)"

definition tester_signal :: "int \<Rightarrow> 'k tester \<Rightarrow> asio_fault + ending option \<times> 'k tester" where
  "tester_signal n w =
     (if n \<in> {2, 15, 13} then bindS (Tester_SigHandler n w) (\<lambda>w. Inr (None, w)) else Inr (Some (Killed n), w))"

definition tester_round :: "'k asio \<Rightarrow> 'k tester \<Rightarrow> asio_fault + ending option \<times> 'k tester" where
  "tester_round A w = io_round A tester_call tester_signal w"

section \<open>The command line\<close>

definition is_space :: "char \<Rightarrow> bool" where
  "is_space c \<longleftrightarrow> c = CHR '' '' \<or> c = CHR 0x09 \<or> c = CHR 0x0A \<or> c = CHR 0x0B \<or> c = CHR 0x0C \<or> c = CHR 0x0D"

definition is_digit :: "char \<Rightarrow> bool" where
  "is_digit c \<longleftrightarrow> c \<in> set ''0123456789''"

fun digits :: "int \<Rightarrow> string \<Rightarrow> int" where
  "digits n (c # s) = (if is_digit c then digits (10 * n + int (of_char c) - 48) s else n)"
| "digits n [] = n"

text \<open>\<open>atoi\<close>: white space, a sign, and the digits that follow; 0 when there are none.\<close>

definition atoi :: "string \<Rightarrow> int" where
  "atoi s =
     (case dropWhile is_space s of
        [] \<Rightarrow> 0
      | c # t \<Rightarrow> if c = CHR ''-'' then - digits 0 t else if c = CHR ''+'' then digits 0 t else digits 0 (c # t))"

definition set_option :: "char \<times> string \<Rightarrow> 'k tester \<Rightarrow> 'k tester" where
  "set_option o' w =
     (case o' of (opt, optarg) \<Rightarrow>
      if opt = CHR ''s'' then w\<lparr>g_size := atoi optarg\<rparr>
      else if opt = CHR ''c'' then w\<lparr>g_count := atoi optarg\<rparr>
      else if opt = CHR ''d'' then w\<lparr>g_duration := atoi optarg\<rparr>
      else if opt = CHR ''h'' then w\<lparr>g_host := optarg\<rparr>
      else if opt = CHR ''p'' then w\<lparr>g_port := optarg\<rparr>
      else w)"

text \<open>False stands for the message about the usage and \<open>exit(1)\<close>.\<close>

definition LoadCmdLineArgs :: "(char \<times> string) list \<Rightarrow> 'k tester \<Rightarrow> bool \<times> 'k tester" where
  "LoadCmdLineArgs opts w =
     (let w = fold set_option opts w
      in (\<not> (g_size w = 0 \<or> g_count w = 0 \<or> g_duration w = 0 \<or> g_host w = [] \<or> g_port w = []), w))"

text \<open>An array of negative length is an exception that nothing catches.\<close>

definition CreateBuffer :: "'k tester \<Rightarrow> asio_fault + 'k tester" where
  "CreateBuffer w =
     (if g_size w < 0 then Inl Terminate
      else Inr (w\<lparr>io_mem := mem_store gbuf (replicate (nat (g_size w)) 49) (io_mem w)\<rparr>))"

section \<open>main\<close>

definition Global_new :: "memory \<Rightarrow> 'k \<Rightarrow> 'k tester" where
  "Global_new m k =
     \<lparr>io_ops = [], io_stopped = False, io_mem = m, io_in = (\<lambda>_. []), io_out = (\<lambda>_. []), io_os = k,
      g_size = 0, g_count = 0, g_duration = 0, g_host = [], g_port = [], g_stop = False, g_success = 0, g_fail = 0,
      g_startTime = 0, g_elapsedTime = 0, t_clients = {}, t_service = False\<rparr>"

definition tester_start :: "'k asio \<Rightarrow> 'k tester \<Rightarrow> 'k tester" where
  "tester_start A w =
     (case a_time A (io_os w) of (now, k) \<Rightarrow>
      let w = fold TestClient_ctor [0..<nat (g_count w)] (w\<lparr>io_os := k, g_startTime := now\<rparr>)
      in io_start (Async_wait (g_duration w) Timer) w)"

text \<open>
  \<open>main\<close> up to the call of \<open>run\<close>: with an exit code, it gives up before, on a wrong command line or
  when the host cannot be resolved, which throws and is caught.
\<close>

definition tester_setup :: "'k asio \<Rightarrow> (char \<times> string) list \<Rightarrow> memory \<Rightarrow> 'k \<Rightarrow> asio_fault + int option \<times> 'k tester" where
  "tester_setup A opts m k =
     (case LoadCmdLineArgs opts (Global_new m k) of (ok, w) \<Rightarrow>
      if \<not> ok then Inr (Some 1, w)
      else bindS (CreateBuffer w) (\<lambda>w.
           let w = w\<lparr>t_service := True\<rparr>
           in case a_resolve A (g_host w) (g_port w) (io_os w) of (ok, k) \<Rightarrow>
              if \<not> ok then Inr (Some 0, w\<lparr>io_os := k\<rparr>) else Inr (None, tester_start A (w\<lparr>io_os := k\<rparr>))))"

definition tester_cleanup :: "'k tester \<Rightarrow> asio_fault + 'k tester" where
  "tester_cleanup w = fold (\<lambda>i r. bindS r (TestClient_dtor i)) [0..<nat (g_count w)] (Inr w)"

definition setElapsedTime :: "'k asio \<Rightarrow> 'k tester \<Rightarrow> 'k tester" where
  "setElapsedTime A w = (case a_time A (io_os w) of (now, k) \<Rightarrow> w\<lparr>io_os := k, g_elapsedTime := now - g_startTime w\<rparr>)"

text \<open>The exit code, and the counts of the report when \<open>main\<close> comes to printing it.\<close>

definition tester_main ::
  "'k asio \<Rightarrow> (char \<times> string) list \<Rightarrow> memory \<Rightarrow> 'k \<Rightarrow> (asio_fault + ending \<times> int \<times> (int \<times> int) option) option" where
  "tester_main A opts m k =
     bindO (Some (tester_setup A opts m k)) (\<lambda>(code, w).
     case code of
       Some c \<Rightarrow> Some (Inr (Returned, c, if c = 0 then Some (g_success w, g_fail w) else None))
     | None \<Rightarrow>
         bindO (io_run A tester_call tester_signal w) (\<lambda>(e, w).
         case e of Killed n \<Rightarrow> Some (Inr (e, 0, None))
         | Returned \<Rightarrow>
             bindO (Some (tester_cleanup w)) (\<lambda>w.
             let w = setElapsedTime A w in Some (Inr (e, 0, Some (g_success w, g_fail w))))))"

inductive testing :: "'k asio \<Rightarrow> (char \<times> string) list \<Rightarrow> memory \<Rightarrow> 'k \<Rightarrow> 'k tester \<Rightarrow> bool" for A opts m k where
  start: "tester_setup A opts m k = Inr (None, w) \<Longrightarrow> testing A opts m k w"
| round: "testing A opts m k w \<Longrightarrow> tester_round A w = Inr (None, w') \<Longrightarrow> testing A opts m k w'"

lemma tester_sel [simp]:
  "g_size (io_start a w) = g_size w" "g_count (io_start a w) = g_count w" "g_duration (io_start a w) = g_duration w"
  "g_stop (io_start a w) = g_stop w" "g_success (io_start a w) = g_success w" "g_fail (io_start a w) = g_fail w"
  "t_clients (io_start a w) = t_clients w" "t_service (io_start a w) = t_service w"
  "g_size (transfer a r w) = g_size w" "g_count (transfer a r w) = g_count w" "g_stop (transfer a r w) = g_stop w"
  "g_success (transfer a r w) = g_success w" "g_fail (transfer a r w) = g_fail w"
  "t_clients (transfer a r w) = t_clients w" "t_service (transfer a r w) = t_service w"
  "g_size (io_stop w) = g_size w" "g_count (io_stop w) = g_count w" "g_stop (io_stop w) = g_stop w"
  "g_success (io_stop w) = g_success w" "g_fail (io_stop w) = g_fail w"
  "t_clients (io_stop w) = t_clients w" "t_service (io_stop w) = t_service w"
  by (simp_all add: io_start_def io_stop_def) (cases a; simp)+

end
