(* ===== verification/TesterInvariant.thy ===== *)
theory TesterInvariant
  imports Tester EchoService
begin

text \<open>
  The invariant of the load generator. A client has sent whole messages but for the one it is
  sending, has read back whole messages but for the one it is reading, and the counters are sums over
  the clients.
\<close>

definition msg :: "'k tester \<Rightarrow> nat" where "msg w = nat (g_size w)"

definition clients :: "'k tester \<Rightarrow> nat" where "clients w = nat (g_count w)"

text \<open>The messages a client has read back, and the bytes of \<open>n\<close> messages.\<close>

definition trips :: "'k tester \<Rightarrow> nat \<Rightarrow> nat" where
  "trips w i = List.length (io_in w i) div msg w"

definition ones :: "nat \<Rightarrow> byte list" where "ones n = replicate n 49"

lemma ones_add: "ones (a + b) = ones a @ ones b"
  by (simp add: ones_def replicate_add)

lemma length_ones [simp]: "List.length (ones n) = n"
  by (simp add: ones_def)

lemma take_ones: "take k (ones n) = ones (min k n)"
  by (simp add: ones_def min_def)

lemma ones_eq: "xs = ones n \<Longrightarrow> xs = ones (List.length xs)"
  by simp

fun tester_op :: "'k tester \<Rightarrow> tester_handler aop \<Rightarrow> bool" where
  "tester_op w (Async_connect i h) \<longleftrightarrow> h = Connected i \<and> i \<in> t_clients w \<and> io_in w i = [] \<and> io_out w i = []"
| "tester_op w (Async_write i p n h) \<longleftrightarrow> h = Written i \<and> i \<in> t_clients w \<and> p = gbuf \<and> n = msg w \<and>
     List.length (io_in w i) = msg w * trips w i \<and> io_out w i = ones (msg w * trips w i)"
| "tester_op w (Async_read i p n h) \<longleftrightarrow> h = Echoed i \<and> i \<in> t_clients w \<and> p = tbuf i \<and> n = msg w \<and>
     List.length (io_in w i) = msg w * trips w i \<and> io_out w i = ones (msg w * Suc (trips w i))"
| "tester_op w (Async_wait s h) \<longleftrightarrow> h = Timer"
| "tester_op w (Async_accept i h) \<longleftrightarrow> False"
| "tester_op w (Async_read_some i p n h) \<longleftrightarrow> False"

text \<open>What holds of every client, the deleted ones included.\<close>

definition sound :: "'k tester \<Rightarrow> nat \<Rightarrow> bool" where
  "sound w i \<longleftrightarrow> io_out w i = ones (List.length (io_out w i)) \<and> List.length (io_in w i) \<le> List.length (io_out w i) \<and>
     List.length (io_out w i) \<le> msg w * Suc (trips w i)"

definition counted :: "'k tester \<Rightarrow> bool" where
  "counted w \<longleftrightarrow> t_clients w \<subseteq> {..<clients w} \<and> g_success w = int (\<Sum>i<clients w. trips w i) \<and>
     g_fail w = int (clients w) - int (card (t_clients w))"

text \<open>\<open>X\<close>: the client whose handler is running.\<close>

definition tester_part :: "nat set \<Rightarrow> 'k tester \<Rightarrow> bool" where
  "tester_part X w \<longleftrightarrow>
     (\<forall>a\<in>set (io_ops w). tester_op w a) \<and> distinct (map subject (io_ops w)) \<and>
     (\<forall>i. i \<in> t_clients w \<longrightarrow> i \<notin> X \<longrightarrow> Some i \<in> subject ` set (io_ops w)) \<and>
     (\<forall>i. sound w i) \<and> counted w \<and> 0 < g_size w \<and> t_service w \<and> (g_stop w \<longrightarrow> io_stopped w) \<and>
     mem_load (io_mem w) gbuf (msg w) = ones (msg w)"

abbreviation tester_ok :: "'k tester \<Rightarrow> bool" where
  "tester_ok \<equiv> tester_part {}"

lemma tester_partD:
  assumes "tester_part X w"
  shows "a \<in> set (io_ops w) \<Longrightarrow> tester_op w a" "distinct (map subject (io_ops w))"
    "i \<in> t_clients w \<Longrightarrow> i \<notin> X \<Longrightarrow> Some i \<in> subject ` set (io_ops w)"
    "sound w i" "counted w" "0 < g_size w" "t_service w" "g_stop w \<Longrightarrow> io_stopped w"
    "mem_load (io_mem w) gbuf (msg w) = ones (msg w)"
  using assms unfolding tester_part_def by blast+

lemma msg_pos: "0 < g_size w \<Longrightarrow> 0 < msg w"
  by (simp add: msg_def)

text \<open>An operation depends on its own client.\<close>

lemma tester_op_frame:
  assumes "tester_op w a" and "subject a \<noteq> Some i" and "g_size w' = g_size w"
    and "\<And>d. d \<noteq> i \<Longrightarrow> (d \<in> t_clients w \<longrightarrow> d \<in> t_clients w') \<and> io_in w' d = io_in w d \<and> io_out w' d = io_out w d"
  shows "tester_op w' a"
  using assms by (cases a) (auto simp: msg_def trips_def)

lemma sound_frame:
  "sound w i \<Longrightarrow> g_size w' = g_size w \<Longrightarrow> io_in w' i = io_in w i \<Longrightarrow> io_out w' i = io_out w i \<Longrightarrow> sound w' i"
  by (simp add: sound_def msg_def trips_def)

section \<open>The steps of a client\<close>

lemma part_start:
  assumes p: "tester_part {i} w" and i: "Some i \<notin> subject ` set (io_ops w)"
    and a: "subject a = Some i" "tester_op (io_start a w) a"
  shows "tester_ok (io_start a w)"
proof -
  have "tester_op (io_start a w) b" if "b \<in> set (io_ops w)" for b
    by (rule tester_op_frame [OF tester_partD(1) [OF p that], of i]) (use imageI [OF that, of subject] i in auto)
  moreover have "counted (io_start a w)"
    using tester_partD(5) [OF p] by (simp add: counted_def clients_def trips_def msg_def)
  moreover have "sound (io_start a w) j" for j
    by (rule sound_frame [OF tester_partD(4) [OF p]]) simp_all
  ultimately show ?thesis
    unfolding tester_part_def using tester_partD(2,3,6-9) [OF p] i a by (auto simp: msg_def)
qed

lemma part_fail:
  assumes p: "tester_part {i} w" and i: "Some i \<notin> subject ` set (io_ops w)" and c: "i \<in> t_clients w"
  shows "\<exists>w'. TestClient_dtor i (w\<lparr>g_fail := g_fail w + 1\<rparr>) = Inr w' \<and> tester_ok w'"
proof -
  let ?w = "w\<lparr>g_fail := g_fail w + 1, t_clients := t_clients w - {i}\<rparr>"
  have "tester_op ?w b" if "b \<in> set (io_ops w)" for b
    by (rule tester_op_frame [OF tester_partD(1) [OF p that], of i]) (use imageI [OF that, of subject] i in auto)
  moreover have "counted ?w"
  proof -
    have "finite (t_clients w)" "t_clients w \<noteq> {}"
      using tester_partD(5) [OF p] c by (auto simp: counted_def intro: finite_subset)
    then have "0 < card (t_clients w)" by (simp add: card_gt_0_iff)
    then show ?thesis
      using tester_partD(5) [OF p] c by (auto simp: counted_def clients_def trips_def msg_def card_Diff_singleton)
  qed
  moreover have "sound ?w j" for j
    by (rule sound_frame [OF tester_partD(4) [OF p]]) simp_all
  ultimately have "tester_ok ?w"
    unfolding tester_part_def using tester_partD(2,3,6-9) [OF p] i by (auto simp: msg_def)
  then show ?thesis using c by (simp add: TestClient_dtor_def)
qed



text \<open>What a transfer of the client \<open>i\<close> leaves as it was.\<close>

definition same_but :: "nat \<Rightarrow> 'k tester \<Rightarrow> 'k tester \<Rightarrow> bool" where
  "same_but i w w' \<longleftrightarrow> io_ops w' = io_ops w \<and> g_size w' = g_size w \<and> g_count w' = g_count w \<and> t_clients w' = t_clients w \<and>
     io_stopped w' = io_stopped w \<and> g_stop w' = g_stop w \<and> t_service w' = t_service w \<and> g_fail w' = g_fail w \<and>
     (\<forall>d. d \<noteq> i \<longrightarrow> io_in w' d = io_in w d \<and> io_out w' d = io_out w d) \<and>
     mem_load (io_mem w') gbuf (msg w) = mem_load (io_mem w) gbuf (msg w)"

lemma same_butD:
  assumes "same_but i w w'"
  shows "io_ops w' = io_ops w" "g_size w' = g_size w" "g_count w' = g_count w" "t_clients w' = t_clients w"
    "io_stopped w' = io_stopped w" "g_stop w' = g_stop w" "t_service w' = t_service w" "g_fail w' = g_fail w"
    "d \<noteq> i \<Longrightarrow> io_in w' d = io_in w d \<and> io_out w' d = io_out w d"
    "mem_load (io_mem w') gbuf (msg w) = mem_load (io_mem w) gbuf (msg w)" "msg w' = msg w" "clients w' = clients w"
  using assms unfolding same_but_def msg_def clients_def by simp_all

lemma trips_other:
  assumes s: "same_but i w w'" and d: "d \<noteq> i"
  shows "trips w' d = trips w d"
  using same_butD(9) [OF s d] same_butD(11) [OF s] by (simp add: trips_def)

lemma trips_sum:
  assumes s: "same_but i w w'" and i: "i < clients w" and t: "trips w' i = k + trips w i"
  shows "(\<Sum>j<clients w'. trips w' j) = k + (\<Sum>j<clients w. trips w j)"
proof -
  have "(\<Sum>j\<in>{..<clients w} - {i}. trips w' j) = (\<Sum>j\<in>{..<clients w} - {i}. trips w j)"
    using trips_other [OF s] by (intro sum.cong) auto
  then show ?thesis
    using i t same_butD(12) [OF s] by (simp add: sum.remove [of "{..<clients w}" i])
qed

lemma part_moved:
  assumes p: "tester_part {i} w" and i: "Some i \<notin> subject ` set (io_ops w)" "i \<in> t_clients w" and s: "same_but i w w'"
    and t: "trips w' i = k + trips w i" "g_success w' = int k + g_success w" and n: "sound w' i"
  shows "tester_part {i} w'"
proof -
  note d = same_butD [OF s]
  have op: "tester_op w' b" if "b \<in> set (io_ops w)" for b
    by (rule tester_op_frame [OF tester_partD(1) [OF p that], of i]) (use imageI [OF that, of subject] i d in auto)
  have "i < clients w" using tester_partD(5) [OF p] i(2) by (auto simp: counted_def)
  then have "counted w'"
    using tester_partD(5) [OF p] trips_sum [OF s _ t(1)] t(2) d by (simp add: counted_def)
  moreover have "sound w' j" for j
    using n sound_frame [OF tester_partD(4) [OF p]] d by (cases "j = i") auto
  ultimately show ?thesis
    unfolding tester_part_def using tester_partD(2,3,6-9) [OF p] d op by (auto simp: msg_def)
qed

lemma same_but_transfer:
  assumes "subject a = Some i" and "case a of Async_read _ p _ _ \<Rightarrow> p = tbuf i | Async_read_some _ _ _ _ \<Rightarrow> False | _ \<Rightarrow> True"
  shows "same_but i w (transfer a r w)"
  using assms unfolding same_but_def by (cases a) (auto simp: tbuf_def gbuf_def mem_load_store_other)

lemma part_taken:
  fixes w :: "'k tester" and k :: 'k
  assumes p: "tester_ok w" and i: "i < List.length (io_ops w)"
  defines "w0 \<equiv> w\<lparr>io_ops := remove_nth i (io_ops w), io_os := k\<rparr>"
  shows "tester_part (case subject (io_ops w ! i) of None \<Rightarrow> {} | Some c \<Rightarrow> {c}) w0"
    and "subject (io_ops w ! i) \<notin> subject ` set (io_ops w0)"
proof -
  note r = distinct_remove_nth [OF tester_partD(2) [OF p] i]
  have op: "tester_op w0 a" if "tester_op w a" for a
    using that by (cases a) (simp_all add: w0_def msg_def trips_def)
  show "subject (io_ops w ! i) \<notin> subject ` set (io_ops w0)" using r(2) by (simp add: w0_def)
  have "\<forall>a\<in>set (io_ops w0). tester_op w0 a" using op tester_partD(1) [OF p] r(3) by (auto simp: w0_def)
  moreover have "Some c \<in> subject ` set (io_ops w0)"
    if "c \<in> t_clients w0" "c \<notin> (case subject (io_ops w ! i) of None \<Rightarrow> {} | Some c \<Rightarrow> {c})" for c
    using that tester_partD(3) [OF p, of c] r(3) by (auto simp: w0_def split: option.splits)
  moreover have "\<forall>j. sound w0 j" by (intro allI, rule sound_frame [OF tester_partD(4) [OF p]]) (simp_all add: w0_def)
  moreover have "counted w0" using tester_partD(5) [OF p] by (simp add: w0_def counted_def clients_def trips_def msg_def)
  ultimately show "tester_part (case subject (io_ops w ! i) of None \<Rightarrow> {} | Some c \<Rightarrow> {c}) w0"
    unfolding tester_part_def using r(1) tester_partD(6-9) [OF p] by (simp add: w0_def msg_def)
qed

section \<open>One turn of the service\<close>

lemma div_msg: "0 < m \<Longrightarrow> c < m \<Longrightarrow> (m * t + c) div m = t" for m c t :: nat
  by simp

lemma connect_ok:
  assumes p: "tester_part {i} w" and i: "Some i \<notin> subject ` set (io_ops w)" "i \<in> t_clients w"
    and s: "io_in w i = []" "io_out w i = []" "\<not> g_stop w"
  shows "\<exists>w'. TestClient_onConnect i r w = Inr w' \<and> tester_ok w'"
proof (cases "c_err r = 0")
  case True
  have "tester_ok (start_write i w)"
    unfolding start_write_def by (rule part_start [OF p i(1)]) (use i(2) s in \<open>simp_all add: trips_def msg_def ones_def\<close>)
  then show ?thesis using True i s by (simp add: TestClient_onConnect_def)
qed (use part_fail [OF p i] i in \<open>simp add: TestClient_onConnect_def\<close>)

lemma write_ok:
  assumes p: "tester_part {i} w" and i: "Some i \<notin> subject ` set (io_ops w)" "i \<in> t_clients w"
    and s: "c_err r = 0 \<Longrightarrow> List.length (io_in w i) = msg w * trips w i \<and> io_out w i = ones (msg w * Suc (trips w i))" "\<not> g_stop w"
  shows "\<exists>w'. TestClient_onWrite i r w = Inr w' \<and> tester_ok w'"
proof (cases "c_err r = 0")
  case True
  have "tester_ok (io_start (Async_read i (tbuf i) (nat (g_size w)) (Echoed i)) w)"
    by (rule part_start [OF p i(1)]) (use i(2) s(1) [OF True] in \<open>simp_all add: trips_def msg_def\<close>)
  then show ?thesis using True i s by (simp add: TestClient_onWrite_def)
qed (use part_fail [OF p i] i in \<open>simp add: TestClient_onWrite_def\<close>)

lemma read_failed:
  assumes p: "tester_part {i} w" and i: "Some i \<notin> subject ` set (io_ops w)" "i \<in> t_clients w" and e: "c_err r \<noteq> 0"
  shows "\<exists>w'. TestClient_onRead i r w = Inr w' \<and> tester_ok w'"
  using part_fail [OF p i] i e by (simp add: TestClient_onRead_def)

lemma read_done:
  fixes w :: "'k tester"
  assumes p: "tester_part {i} (w\<lparr>g_success := g_success w + 1\<rparr>)" and i: "Some i \<notin> subject ` set (io_ops w)" "i \<in> t_clients w"
    and s: "List.length (io_in w i) = msg w * trips w i" "io_out w i = ones (msg w * trips w i)" "\<not> g_stop w" and e: "c_err r = 0"
  shows "\<exists>w'. TestClient_onRead i r w = Inr w' \<and> tester_ok w'"
proof -
  have "tester_ok (start_write i (w\<lparr>g_success := g_success w + 1\<rparr>))"
    unfolding start_write_def
    by (rule part_start [OF p]) (use i s in \<open>simp_all add: trips_def msg_def\<close>)
  then show ?thesis using e i s by (simp add: TestClient_onRead_def)
qed

lemma tester_completed_ok:
  fixes w :: "'k tester" and k :: 'k
  assumes p: "tester_ok w" and i: "i < List.length (io_ops w)" and f: "fits (io_ops w ! i) r" and st: "\<not> io_stopped w"
  defines "w1 \<equiv> transfer (io_ops w ! i) r (w\<lparr>io_ops := remove_nth i (io_ops w), io_os := k\<rparr>)"
  shows "\<exists>w'. tester_call (op_handler (io_ops w ! i)) r w1 = Inr w' \<and> tester_ok w'"
proof -
  let ?a = "io_ops w ! i" and ?w = "w\<lparr>io_ops := remove_nth i (io_ops w), io_os := k\<rparr>"
  note t = part_taken [OF p i, where k = k]
  have o: "tester_op w ?a" using tester_partD(1) [OF p] i by simp
  have ns: "\<not> g_stop w" using tester_partD(8) [OF p] st by blast
  have pos: "0 < msg w" using msg_pos tester_partD(6) [OF p] .
  have m: "msg w1 = msg w" "\<And>j. io_in ?w j = io_in w j" "\<And>j. io_out ?w j = io_out w j" "\<And>j. trips ?w j = trips w j"
    by (simp_all add: w1_def msg_def trips_def)
  show ?thesis
  proof (cases ?a)
    case (Async_wait s h)
    then have "tester_ok ?w" "h = Timer" "w1 = ?w" using t(1) o by (simp_all add: w1_def)
    moreover have "tester_ok (io_stop (v\<lparr>g_stop := True\<rparr>))" if "tester_ok v" for v :: "'k tester"
    proof -
      have op: "tester_op (io_stop (v\<lparr>g_stop := True\<rparr>)) b" if "tester_op v b" for b
        using that by (cases b) (simp_all add: msg_def trips_def)
      have "\<forall>j. sound (io_stop (v\<lparr>g_stop := True\<rparr>)) j"
        by (intro allI, rule sound_frame [OF tester_partD(4) [OF that]]) simp_all
      then show ?thesis using that op
        unfolding tester_part_def by (simp add: counted_def clients_def trips_def msg_def)
    qed
    ultimately show ?thesis using Async_wait by (auto simp: tester_call_def OnTimer_def)
  next
    case (Async_connect j h)
    then have "h = Connected j" "j \<in> t_clients w" "io_in w j = []" "io_out w j = []" "w1 = ?w" using o by (simp_all add: w1_def)
    then show ?thesis using connect_ok [of j ?w r] t Async_connect ns by (simp add: tester_call_def)
  next
    case (Async_write j q n h)
    then have h: "h = Written j" "j \<in> t_clients w" "q = gbuf" "n = msg w"
        "List.length (io_in w j) = msg w * trips w j" "io_out w j = ones (msg w * trips w j)" using o by simp_all
    have sj: "same_but j ?w w1" unfolding w1_def by (rule same_but_transfer) (simp_all add: Async_write)
    have fr: "c_count r \<le> msg w" "c_err r = 0 \<longrightarrow> c_count r = msg w" using f Async_write h(4) by simp_all
    have out: "io_out w1 j = ones (msg w * trips w j + c_count r)" "io_in w1 j = io_in w j"
      using Async_write h fr(1) tester_partD(9) [OF p] by (simp_all add: w1_def ones_add take_ones)
    then have tr: "trips w1 j = trips w j" using m(1) by (simp add: trips_def)
    have "tester_part {j} w1"
      by (rule part_moved [where k = 0 and w = ?w]) (use t Async_write h sj m tr out fr in \<open>simp_all add: sound_def w1_def\<close>)
    moreover have "\<not> g_stop w1" "j \<in> t_clients w1" "Some j \<notin> subject ` set (io_ops w1)"
      using ns h(2) t(2) Async_write by (simp_all add: w1_def)
    ultimately show ?thesis
      using write_ok [of j w1 r] out tr h fr m(1) Async_write by (simp add: tester_call_def add.commute)
  next
    case (Async_read j q n h)
    then have h: "h = Echoed j" "j \<in> t_clients w" "q = tbuf j" "n = msg w"
        "List.length (io_in w j) = msg w * trips w j" "io_out w j = ones (msg w * Suc (trips w j))" using o by simp_all
    have sj: "same_but j ?w w1" unfolding w1_def by (rule same_but_transfer) (simp_all add: Async_read h)
    have fr: "c_count r = List.length (c_data r)" "c_err r = 0 \<longrightarrow> c_count r = msg w" "c_err r \<noteq> 0 \<longrightarrow> c_count r < msg w"
      using f Async_read h(4) by (simp_all split: if_splits)
    have io: "io_out w1 j = io_out w j" "List.length (io_in w1 j) = msg w * trips w j + c_count r"
      using Async_read h fr(1) by (simp_all add: w1_def)
    have w1: "\<not> g_stop w1" "j \<in> t_clients w1" "Some j \<notin> subject ` set (io_ops w1)"
      using ns h(2) t(2) Async_read by (simp_all add: w1_def)
    have "\<exists>w'. TestClient_onRead j r w1 = Inr w' \<and> tester_ok w'"
    proof (cases "c_err r = 0")
      case False
      have tr: "trips w1 j = trips w j" using io(2) fr(3) False div_msg pos m(1) by (simp add: trips_def)
      have "tester_part {j} w1"
        by (rule part_moved [where k = 0 and w = ?w])
          (use t Async_read h sj m tr io fr(3) False in \<open>simp_all add: sound_def w1_def\<close>)
      then show ?thesis using read_failed w1(2,3) False by blast
    next
      case True
      let ?w1 = "w1\<lparr>g_success := g_success w1 + 1\<rparr>"
      have tr: "trips w1 j = Suc (trips w j)" using io(2) fr(2) True pos m(1) by (simp add: trips_def)
      have sj': "same_but j ?w ?w1" using sj by (simp add: same_but_def)
      have g: "g_success w1 = g_success w" by (simp add: w1_def)
      have v: "trips ?w1 j = trips w1 j" "msg ?w1 = msg w" using m(1) by (simp_all add: trips_def msg_def)
      have "tester_part {j} ?w1"
        by (rule part_moved [where k = 1 and w = ?w])
          (use t Async_read h sj' m tr io fr(2) True v g in \<open>simp_all add: sound_def\<close>)
      then show ?thesis using read_done [of j w1 r] w1 io tr True fr(2) m(1) h by simp
    qed
    then show ?thesis using Async_read h by (simp add: tester_call_def)
  qed (use o in auto)
qed

lemma part_tester_os:
  assumes p: "tester_ok w"
  shows "tester_ok (w\<lparr>io_os := k\<rparr>)" "tester_ok (io_stop w)"
proof -
  have "tester_op (w\<lparr>io_os := k\<rparr>) b" "tester_op (io_stop w) b" if "tester_op w b" for b
    using that by (cases b; simp add: msg_def trips_def)+
  moreover have "\<forall>j. sound (w\<lparr>io_os := k\<rparr>) j" "\<forall>j. sound (io_stop w) j"
    by (intro allI, rule sound_frame [OF tester_partD(4) [OF p]], simp_all)+
  ultimately show "tester_ok (w\<lparr>io_os := k\<rparr>)" "tester_ok (io_stop w)"
    using p unfolding tester_part_def by (simp_all add: counted_def clients_def trips_def msg_def)
qed

lemma tester_round_ok:
  assumes L: "asio_laws A" and p: "tester_ok w" and r: "tester_round A w = r"
  shows "\<exists>b w'. r = Inr (b, w') \<and> tester_ok w'"
proof (rule io_round_cases [OF r [unfolded tester_round_def]], goal_cases)
  case 1
  then show ?case using p by simp
next
  case (2 k)
  then show ?case using part_tester_os(1) [OF p] by simp
next
  case (3 n k)
  have q: "tester_ok (w\<lparr>io_os := k\<rparr>)" using part_tester_os(1) [OF p] .
  then show ?case using 3(3) part_tester_os(2) [OF q] tester_partD(7) [OF q] by (auto simp: tester_signal_def Tester_SigHandler_def)
next
  case (4 i c k)
  then show ?case using tester_completed_ok [OF p io_completed_fits [OF L 4(2)] 4(1), of k] by auto
qed

section \<open>The start\<close>

lemma fold_ctor:
  "set is \<inter> t_clients w = {} \<Longrightarrow> distinct is \<Longrightarrow>
   fold TestClient_ctor is w = w\<lparr>io_ops := io_ops w @ map (\<lambda>i. Async_connect i (Connected i)) is, t_clients := t_clients w \<union> set is\<rparr>"
proof (induction "is" arbitrary: w)
  case (Cons i "is")
  then show ?case by (simp add: TestClient_ctor_def io_start_def insert_commute Un_commute)
qed simp

lemma set_option_frame: "set_option x w = w\<lparr>g_size := g_size (set_option x w), g_count := g_count (set_option x w),
    g_duration := g_duration (set_option x w), g_host := g_host (set_option x w), g_port := g_port (set_option x w)\<rparr>"
  by (cases x) (simp add: set_option_def)

lemma options_frame: "\<exists>s c d h p. fold set_option opts w =
    w\<lparr>g_size := s, g_count := c, g_duration := d, g_host := h, g_port := p\<rparr>"
proof (induction opts arbitrary: w)
  case Nil
  show ?case by (intro exI [of _ "g_size w"] exI [of _ "g_count w"] exI [of _ "g_duration w"] exI [of _ "g_host w"] exI [of _ "g_port w"]) simp
next
  case (Cons x opts)
  obtain s c d h p where x: "set_option x w = w\<lparr>g_size := s, g_count := c, g_duration := d, g_host := h, g_port := p\<rparr>"
    using set_option_frame by metis
  show ?case using Cons [of "set_option x w"] by (simp add: x)
qed

lemma tester_setup_ok:
  assumes "tester_setup A opts m k = Inr (None, w)"
  shows "tester_ok w"
proof -
  obtain s c d h p where l: "fold set_option opts (Global_new m k) =
      (Global_new m k)\<lparr>g_size := s, g_count := c, g_duration := d, g_host := h, g_port := p\<rparr>"
    using options_frame by blast
  have s: "0 < s" "s \<noteq> 0"
    using assms l by (auto simp: tester_setup_def LoadCmdLineArgs_def CreateBuffer_def Let_def Global_new_def split: if_splits)
  define w0 where "w0 = (Global_new m k)\<lparr>g_size := s, g_count := c, g_duration := d, g_host := h, g_port := p,
      io_mem := mem_store gbuf (ones (nat s)) m, t_service := True\<rparr>"
  obtain ok k' where k': "a_resolve A h p k = (ok, k')" by fastforce
  have w: "w = tester_start A (w0\<lparr>io_os := k'\<rparr>)"
    using assms l s k' by (auto simp: tester_setup_def LoadCmdLineArgs_def CreateBuffer_def Let_def Global_new_def w0_def ones_def
        split: if_splits)
  obtain t k2 where t: "a_time A k' = (t, k2)" by fastforce
  have e: "w = w0\<lparr>io_os := k2, g_startTime := t, io_ops := map (\<lambda>i. Async_connect i (Connected i)) [0..<nat c] @ [Async_wait d Timer],
      t_clients := {0..<nat c}\<rparr>"
    unfolding w tester_start_def
    by (simp add: t Let_def fold_ctor w0_def Global_new_def io_start_def)
  have "mem_load (mem_store gbuf (ones (nat s)) m) gbuf (nat s) = ones (nat s)"
    using mem_load_store_same [of gbuf "ones (nat s)" m] by simp
  moreover have "subject \<circ> (\<lambda>i. Async_connect i (Connected i)) = Some" by (simp add: fun_eq_iff)
  ultimately show ?thesis
    using s unfolding tester_part_def e
    by (auto simp: w0_def Global_new_def counted_def clients_def sound_def trips_def msg_def ones_def distinct_map
        lessThan_atLeast0 image_image)
qed

lemma testing_ok: "testing A opts m k w \<Longrightarrow> asio_laws A \<Longrightarrow> tester_ok w"
proof (induction rule: testing.induct)
  case (start w)
  from tester_setup_ok [OF this(1)] show ?case .
next
  case (round w w')
  then show ?case using tester_round_ok by fastforce
qed

section \<open>The end\<close>

lemma dtor_Inl: "fold (\<lambda>i r. bindS r (TestClient_dtor i)) is (Inl e) = Inl e"
  by (induction "is") simp_all

lemma dtor_all:
  "distinct is \<Longrightarrow> fold (\<lambda>i r. bindS r (TestClient_dtor i)) is (Inr w) =
     (if set is \<subseteq> t_clients w then Inr (w\<lparr>t_clients := t_clients w - set is\<rparr>) else Inl Double_delete)"
proof (induction "is" arbitrary: w)
  case (Cons i "is")
  show ?case
  proof (cases "i \<in> t_clients w")
    case True
    then have "TestClient_dtor i w = Inr (w\<lparr>t_clients := t_clients w - {i}\<rparr>)" by (simp add: TestClient_dtor_def)
    moreover have "t_clients w - {i} - set is = t_clients w - set (i # is)" by auto
    moreover have "set is \<subseteq> t_clients w - {i} \<longleftrightarrow> set (i # is) \<subseteq> t_clients w" using True Cons.prems by auto
    ultimately show ?thesis using Cons.IH [of "w\<lparr>t_clients := t_clients w - {i}\<rparr>"] Cons.prems by simp
  next
    case False
    then have "TestClient_dtor i w = Inl Double_delete" by (simp add: TestClient_dtor_def)
    then show ?thesis using False dtor_Inl by simp
  qed
qed simp

lemma cleanup:
  assumes c: "counted w"
  shows "tester_cleanup w = (if g_fail w = 0 then Inr (w\<lparr>t_clients := {}\<rparr>) else Inl Double_delete)"
proof -
  have sub: "t_clients w \<subseteq> {..<clients w}" and f: "g_fail w = int (clients w) - int (card (t_clients w))"
    using c by (simp_all add: counted_def)
  have "{..<clients w} \<subseteq> t_clients w \<longleftrightarrow> g_fail w = 0"
    using sub f card_subset_eq [OF finite_lessThan sub] card_lessThan [of "clients w"] by (metis eq_iff_diff_eq_0 of_nat_eq_iff subset_antisym order_refl)
  then show ?thesis
    using dtor_all [of "[0..<clients w]" w] sub unfolding tester_cleanup_def clients_def
    by (auto simp: lessThan_atLeast0)
qed

end
