(* ===== verification/AsioScript.thy ===== *)
theory AsioScript
  imports Asio
begin

text \<open>
  A concrete library that satisfies the laws, for the examples: its state is a script of completions
  and signals, and it delivers a SIGTERM when the script is at its end or asks for a completion that
  no outstanding operation can have. Time stands still.
\<close>

fun script_next :: "unit aop list \<Rightarrow> asio_event list \<Rightarrow> asio_event \<times> asio_event list" where
  "script_next ops (Completed i r # es) =
     (if i < List.length ops \<and> fits (ops ! i) r then (Completed i r, es) else (Signalled 15, es))"
| "script_next ops (Signalled n # es) = (Signalled n, es)"
| "script_next ops (No_work # es) = (Signalled 15, es)"
| "script_next ops [] = (Signalled 15, [])"

definition scriptA :: "asio_event list asio" where
  "scriptA =
     \<lparr>a_next = script_next, a_listen = (\<lambda>_ k. (True, k)), a_resolve = (\<lambda>_ _ k. (True, k)), a_time = (\<lambda>k. (7, k))\<rparr>"

lemma script_completed:
  "script_next ops k = (Completed i r, k') \<Longrightarrow> i < List.length ops \<and> fits (ops ! i) r"
  "script_next ops k \<noteq> (No_work, k')"
  by (cases "(ops, k)" rule: script_next.cases; auto split: if_splits)+

lemma script_laws: "asio_laws scriptA"
  using script_completed unfolding asio_laws_def scriptA_def by simp

lemma script_finite: "delivers_finitely scriptA List.length"
proof -
  have "List.length k' < List.length k" if "script_next ops k = (Completed i r, k')" for ops k i r k'
    using that by (cases "(ops, k)" rule: script_next.cases) (auto split: if_splits)
  then show ?thesis by (auto simp: delivers_finitely_def scriptA_def)
qed

text \<open>A completion with no error, and one that delivers bytes.\<close>

definition finished :: "nat \<Rightarrow> completion" where
  "finished n = \<lparr>c_err = 0, c_data = [], c_count = n\<rparr>"

definition got_bytes :: "byte list \<Rightarrow> completion" where
  "got_bytes bs = \<lparr>c_err = 0, c_data = bs, c_count = List.length bs\<rparr>"

definition failed :: "int \<Rightarrow> completion" where
  "failed e = \<lparr>c_err = e, c_data = [], c_count = 0\<rparr>"

end
