(* ===== verification/BoostProperties.thy ===== *)
theory BoostProperties
  imports BoostEquivalence TesterInvariant AsioScript
begin

text \<open>
  What the programs on Boost.Asio guarantee: the two echo servers, their equivalence and where they
  go wrong, and the load generator.
\<close>

section \<open>Reachable states\<close>

lemma boost_start_agrees:
  "Coro_Server_run 0 (coro_new m k) = Inr (yield_accept (coro_new m k))"
  "agrees (newHandler (boost_new m k)) (yield_accept (coro_new m k))"
  by (simp_all add: Coro_Server_run_def coro_new_def)
    (simp add: agrees_def newHandler_def yield_accept_def boost_new_def Let_def same_written_def io_start_def)

lemma boost_round_agrees:
  assumes L: "asio_laws A" and g: "agrees w v" and p: "coro_ok v" and r: "boost_round A w = Inr (None, w')"
  shows "\<exists>v'. coro_round A v = Inr (None, v') \<and> agrees w' v' \<and> coro_ok v'"
proof (rule io_round_cases [OF r [unfolded boost_round_def]], goal_cases)
  case (4 i c k)
  note f = io_completed_fits [OF L 4(2)]
  have sh: "map shape (io_ops v) = map shape (io_ops w)" using agreesD(1) [OF g] by simp
  have n: "a_next A (map shape (io_ops v)) (io_os v) = (Completed i c, k)" using 4(2) agreesD(5) [OF g] sh by simp
  have "spoils (io_ops w ! i) c = None"
    using completed_agrees [OF g p f, of k] 4(3) by (cases "spoils (io_ops w ! i) c") auto
  then obtain v' where v': "agrees w' v'"
      "coro_call (op_handler (io_ops v ! i)) c (transfer (io_ops v ! i) c (v\<lparr>io_ops := remove_nth i (io_ops v), io_os := k\<rparr>)) = Inr v'"
    using completed_agrees [OF g p f, of k] 4(3) by auto
  have c: "coro_round A v = Inr (None, v')"
    using n v'(2) agreesD(7) [OF g] by (simp add: coro_round_def io_round_def)
  then have "coro_ok v'" using coro_round_ok [OF L p c] by simp
  then show ?case using v'(1) c by blast
qed (simp_all add: boost_signal_def)

lemma boosting_agrees:
  assumes L: "asio_laws A"
  shows "boosting A m k w \<Longrightarrow> \<exists>v. coroing A m k v \<and> agrees w v"
proof (induction rule: boosting.induct)
  case start
  show ?case using coroing.start [OF boost_start_agrees(1)] boost_start_agrees(2) by (intro exI conjI)
next
  case (round w w')
  then obtain v where v: "coroing A m k v" "agrees w v" by blast
  obtain v' where v': "coro_round A v = Inr (None, v')" "agrees w' v'"
    using boost_round_agrees [OF L v(2) coroing_ok [OF v(1) L] round.hyps(2)] by blast
  show ?case using coroing.round [OF v(1) v'(1)] v'(2) by (intro exI conjI)
qed

interpretation boost_echo: echo_service
  "\<lambda>w. asio_laws A \<and> boosting A m k w" "\<lambda>w c. True" io_in io_out BUFLEN for A m k
proof (unfold_locales, goal_cases)
  case (1 w c)
  then obtain v where v: "coroing A m k v" "agrees w v" using boosting_agrees [of A m k w] by blast
  show ?case using coro_partD(4) [OF coroing_ok [OF v(1)], of c] 1 agreesD(3,4) [OF v(2)] by (simp add: buffers)
qed

section \<open>Properties of the servers\<close>

text \<open>
C12: The coroutine server never goes wrong, whatever completions, errors and signals the library delivers, and on every connection what was sent back is a prefix of what was received with at most one buffer missing.
\<close>

theorem coro_serves:
  assumes "asio_laws A" and "coroing A m k w"
  shows "(\<exists>b w'. coro_round A w = Inr (b, w')) \<and> relays CORO_BUFLEN (io_in w c) (io_out w c)"
  using coro_round_ok [OF assms(1) coroing_ok [OF assms(2,1)]] coro_echo.relay [of A m k w c] assms by blast

fun coro_rounds :: "'k asio \<Rightarrow> nat \<Rightarrow> 'k coro \<Rightarrow> 'k coro option" where
  "coro_rounds A 0 w = Some w"
| "coro_rounds A (Suc n) w = (case coro_round A w of Inr (None, w') \<Rightarrow> coro_rounds A n w' | _ \<Rightarrow> None)"

lemma coro_rounds_reach: "coroing A m k w \<Longrightarrow> coro_rounds A n w = Some w' \<Longrightarrow> coroing A m k w'"
proof (induction n arbitrary: w)
  case (Suc n)
  then obtain w1 where "coro_round A w = Inr (None, w1)" "coro_rounds A n w1 = Some w'"
    by (auto split: sum.splits prod.splits option.splits)
  then show ?case using Suc.IH coroing.round [OF Suc.prems(1)] by blast
qed simp

definition coro_begin :: "asio_event list \<Rightarrow> asio_event list coro" where
  "coro_begin k = yield_accept (coro_new (\<lambda>_ _. 0) k)"

lemma coro_begin: "coroing scriptA (\<lambda>_ _. 0) k (coro_begin k)"
  unfolding coro_begin_def by (rule coroing.start) (simp add: boost_start_agrees)

text \<open>A connection, three bytes, of which two are sent back before the connection breaks.\<close>

definition script1 :: "asio_event list" where
  "script1 = [Completed 0 (finished 0), Completed 0 (got_bytes [1, 2, 3]), Completed 1 \<lparr>c_err = 32, c_data = [], c_count = 2\<rparr>]"

lemma coro_script1: "map_option (\<lambda>w. (io_in w 0, io_out w 0)) (coro_rounds scriptA 3 (coro_begin script1)) = Some ([1, 2, 3], [1, 2])"
  by code_simp

theorem coro_serves_witness:
  "\<exists>w. io_in w 0 = [1, 2, 3] \<and> io_out w 0 = [1, 2] \<and> (\<exists>b w'. coro_round scriptA w = Inr (b, w')) \<and>
     relays CORO_BUFLEN (io_in w 0) (io_out w 0)"
proof -
  obtain w where w: "coro_rounds scriptA 3 (coro_begin script1) = Some w" "io_in w 0 = [1, 2, 3]" "io_out w 0 = [1, 2]"
    using coro_script1 by auto
  from coro_serves [OF script_laws coro_rounds_reach [OF coro_begin w(1)]] w(2,3) show ?thesis by blast
qed

text \<open>
The coroutine server as a whole: when it ends it ends without a fault, whether the service ran out of work or was stopped by a signal, and the destructor of the server finds the client that it deletes.
\<close>

theorem coro_main_ends:
  assumes L: "asio_laws A" and r: "coro_main A m k = Some r"
  shows "\<exists>e. r = Inr (e, 0)"
proof -
  obtain ok k1 where l: "a_listen A 9000 k = (ok, k1)" by fastforce
  show ?thesis
  proof (cases ok)
    case True
    let ?w = "yield_accept (coro_new m k1)"
    have "coro_ok ?w" using coro_start_ok [of m k1] boost_start_agrees(1) [of m k1] by simp
    moreover obtain r1 where r1: "io_run A coro_call coro_signal ?w = Some r1"
      using r l True boost_start_agrees(1) [of m k1]
      by (cases "io_run A coro_call coro_signal ?w") (auto simp: coro_main_def)
    ultimately obtain e w' where w': "r1 = Inr (e, w')" "coro_ok w'"
      using io_run_keeps [where P = coro_ok, OF _ r1] coro_round_ok [OF L] unfolding coro_round_def by blast
    obtain n where "co_newClient w' = Some n" "co_clients w' n = Some At_start" using coro_partD(8) [OF w'(2)] by blast
    then have "\<exists>w2. Coro_Server_dtor w' = Inr w2" by (simp add: Coro_Server_dtor_def)
    then show ?thesis
      using r l True boost_start_agrees(1) [of m k1] r1 w'(1) by (cases e) (auto simp: coro_main_def)
  qed (use r l in \<open>auto simp: coro_main_def\<close>)
qed

lemma coro_main_script: "coro_main scriptA (\<lambda>_ _. 0) script1 = Some (Inr (Returned, 0))"
  by code_simp

theorem coro_main_ends_witness:
  "\<exists>r. coro_main scriptA (\<lambda>_ _. 0) script1 = Some r \<and> (\<exists>e. r = Inr (e, 0))"
  using coro_main_ends [OF script_laws coro_main_script] coro_main_script by blast

lemma coro_run_ends: "delivers_finitely A P \<Longrightarrow> io_run A coro_call coro_signal w \<noteq> None"
proof (erule io_run_ends, goal_cases)
  case (1 h r w w')
  then show ?case
    by (auto simp: coro_call_def Coro_Server_run_def Coro_Client_run_def yield_accept_def yield_read_def yield_write_def Let_def
        bindS_eq_Inr split: coro_handler.splits if_splits option.splits client_place.splits server_place.splits)
next
  case (2 n w w')
  then show ?case by (auto simp: coro_signal_def Coro_SigHandler_def split: if_splits)
qed



section \<open>A failing accept\<close>

definition accepting :: "'k coro \<Rightarrow> bool" where
  "accepting w \<longleftrightarrow> (\<exists>c h. Async_accept c h \<in> set (io_ops w))"

text \<open>A turn without an outstanding accept starts none and makes no client.\<close>

lemma deaf_round:
  assumes L: "asio_laws A" and p: "coro_ok w" and d: "\<not> accepting w" and r: "coro_round A w = Inr (None, w')"
  shows "\<not> accepting w' \<and> dom (co_clients w') \<subseteq> dom (co_clients w)"
proof (rule io_round_cases [OF r [unfolded coro_round_def]], goal_cases)
  case (3 n k)
  then show ?case using d by (auto simp: coro_signal_def Coro_SigHandler_def accepting_def split: if_splits)
next
  case (4 i c k)
  let ?a = "io_ops w ! i"
  have i: "?a \<in> set (io_ops w)" using io_completed_fits(1) [OF L 4(2)] by simp
  have o: "coro_op w ?a" using coro_partD(1) [OF p i] .
  obtain j where h: "op_handler ?a = Client_run j" using o d i by (cases ?a) (auto simp: accepting_def)
  define w1 where "w1 = transfer ?a c (w\<lparr>io_ops := remove_nth i (io_ops w), io_os := k\<rparr>)"
  have w1: "\<not> accepting w1" "co_clients w1 = co_clients w"
    using d remove_nth_subset [of i "io_ops w"] by (auto simp: w1_def accepting_def)
  have "Coro_Client_run j (c_err c) (c_count c) w1 = Inr w'" using 4(3) [symmetric] h by (auto simp: coro_call_def w1_def bindS_eq_Inr)
  then show ?case using w1
    by (auto simp: Coro_Client_run_def yield_read_def yield_write_def accepting_def split: option.splits client_place.splits if_splits)
qed simp_all

lemma deaf_rounds:
  assumes L: "asio_laws A"
  shows "coro_ok w \<Longrightarrow> \<not> accepting w \<Longrightarrow> coro_rounds A n w = Some w' \<Longrightarrow>
    \<not> accepting w' \<and> dom (co_clients w') \<subseteq> dom (co_clients w)"
proof (induction n arbitrary: w)
  case (Suc n)
  then obtain w1 where w1: "coro_round A w = Inr (None, w1)" "coro_rounds A n w1 = Some w'"
    by (auto split: sum.splits prod.splits option.splits)
  have "coro_ok w1" using coro_round_ok [OF L Suc.prems(1) w1(1)] by simp
  moreover note d = deaf_round [OF L Suc.prems(1,2) w1(1)]
  ultimately show ?case using Suc.IH [OF _ _ w1(2)] d by blast
qed simp


definition script2 :: "asio_event list" where
  "script2 = [Completed 0 (finished 0), Completed 1 (failed 24), Completed 0 (got_bytes [7])]"

lemma coro_script2: "map_option (\<lambda>w. (io_stopped w, io_ops w, io_os w)) (coro_rounds scriptA 1 (coro_begin script2)) =
    Some (False, [Async_read_some 0 (0, 0) 1024 (Client_run 0), Async_accept 1 Server_run], [Completed 1 (failed 24), Completed 0 (got_bytes [7])])"
  "coro_rounds scriptA 3 (coro_begin script2) \<noteq> None"
  by code_simp+


section \<open>The callback server\<close>

lemma boost_round_completed:
  assumes L: "asio_laws A" and w: "boosting A m k w" and e: "a_next A (map shape (io_ops w)) (io_os w) = (Completed i r, k')"
  shows "boost_round A w = (case spoils (io_ops w ! i) r of Some f \<Rightarrow> Inl f | None \<Rightarrow> boost_round A w)"
    and "spoils (io_ops w ! i) r = None \<Longrightarrow> \<exists>w'. boost_round A w = Inr (None, w')"
proof -
  obtain v where v: "coroing A m k v" "agrees w v" using boosting_agrees [OF L w] by blast
  note c = completed_agrees [OF v(2) coroing_ok [OF v(1) L] io_completed_fits [OF L e], of k']
  have r: "boost_round A w = bindS (boost_call (op_handler (io_ops w ! i)) r
      (transfer (io_ops w ! i) r (w\<lparr>io_ops := remove_nth i (io_ops w), io_os := k'\<rparr>))) (\<lambda>w. Inr (None, w))"
    using e agreesD(6) [OF v(2)] by (simp add: boost_round_def io_round_def)
  show "boost_round A w = (case spoils (io_ops w ! i) r of Some f \<Rightarrow> Inl f | None \<Rightarrow> boost_round A w)"
    using c r by (cases "spoils (io_ops w ! i) r") simp_all
  show "\<exists>w'. boost_round A w = Inr (None, w')" if "spoils (io_ops w ! i) r = None"
    using c r that by auto
qed

text \<open>
C13: The callback server goes wrong in exactly two situations: a read that fills the buffer, after which the terminator is stored one byte past its end, and a failing accept, after which the server deletes itself although it is a local variable of main.
\<close>

theorem boost_goes_wrong:
  assumes L: "asio_laws A" and w: "boosting A m k w"
  shows "boost_round A w = Inl f \<longleftrightarrow>
    (\<exists>i r k'. a_next A (map shape (io_ops w)) (io_os w) = (Completed i r, k') \<and>
       ((\<exists>c. io_ops w ! i = Async_read_some c (buf c) BUFLEN (On_read c) \<and> c_err r = 0 \<and> c_count r = BUFLEN \<and> f = Overrun) \<or>
        (\<exists>c. io_ops w ! i = Async_accept c (On_accept c) \<and> c_err r \<noteq> 0 \<and> f = Delete_automatic)))"
proof -
  obtain v where v: "agrees w v" using boosting_agrees [OF L w] by blast
  have sp: "spoils (io_ops w ! i) r = Some f \<longleftrightarrow>
      (\<exists>c. io_ops w ! i = Async_read_some c (buf c) BUFLEN (On_read c) \<and> c_err r = 0 \<and> c_count r = BUFLEN \<and> f = Overrun) \<or>
      (\<exists>c. io_ops w ! i = Async_accept c (On_accept c) \<and> c_err r \<noteq> 0 \<and> f = Delete_automatic)"
    if "i < List.length (io_ops w)" for i r
    using agreesD(2) [OF v, of "io_ops w ! i"] nth_mem [OF that] by (cases "io_ops w ! i") auto
  show ?thesis
  proof
    assume f: "boost_round A w = Inl f"
    show "\<exists>i r k'. a_next A (map shape (io_ops w)) (io_os w) = (Completed i r, k') \<and>
       ((\<exists>c. io_ops w ! i = Async_read_some c (buf c) BUFLEN (On_read c) \<and> c_err r = 0 \<and> c_count r = BUFLEN \<and> f = Overrun) \<or>
        (\<exists>c. io_ops w ! i = Async_accept c (On_accept c) \<and> c_err r \<noteq> 0 \<and> f = Delete_automatic))"
    proof (rule io_round_cases [OF f [unfolded boost_round_def]], goal_cases)
      case (4 i r k')
      have "spoils (io_ops w ! i) r = Some f"
        using boost_round_completed [OF L w 4(2)] f by (cases "spoils (io_ops w ! i) r") auto
      then show ?case using sp [OF io_completed_fits(1) [OF L 4(2)]] 4(2) by blast
    qed (simp_all add: boost_signal_def)
  next
    assume "\<exists>i r k'. a_next A (map shape (io_ops w)) (io_os w) = (Completed i r, k') \<and>
       ((\<exists>c. io_ops w ! i = Async_read_some c (buf c) BUFLEN (On_read c) \<and> c_err r = 0 \<and> c_count r = BUFLEN \<and> f = Overrun) \<or>
        (\<exists>c. io_ops w ! i = Async_accept c (On_accept c) \<and> c_err r \<noteq> 0 \<and> f = Delete_automatic))"
    then obtain i r k' where e: "a_next A (map shape (io_ops w)) (io_os w) = (Completed i r, k')"
      "spoils (io_ops w ! i) r = Some f" using sp io_completed_fits(1) [OF L] by metis
    show "boost_round A w = Inl f" using boost_round_completed(1) [OF L w e(1)] e(2) by simp
  qed
qed

fun boost_rounds :: "'k asio \<Rightarrow> nat \<Rightarrow> 'k boost \<Rightarrow> 'k boost option" where
  "boost_rounds A 0 w = Some w"
| "boost_rounds A (Suc n) w = (case boost_round A w of Inr (None, w') \<Rightarrow> boost_rounds A n w' | _ \<Rightarrow> None)"

lemma boost_rounds_reach: "boosting A m k w \<Longrightarrow> boost_rounds A n w = Some w' \<Longrightarrow> boosting A m k w'"
proof (induction n arbitrary: w)
  case (Suc n)
  then obtain w1 where "boost_round A w = Inr (None, w1)" "boost_rounds A n w1 = Some w'"
    by (auto split: sum.splits prod.splits option.splits)
  then show ?case using Suc.IH boosting.round [OF Suc.prems(1)] by blast
qed simp

definition boost_begin :: "asio_event list \<Rightarrow> asio_event list boost" where
  "boost_begin k = newHandler (boost_new (\<lambda>_ _. 0) k)"

lemma boost_begin: "boosting scriptA (\<lambda>_ _. 0) k (boost_begin k)"
  unfolding boost_begin_def by (rule boosting.start)

text \<open>A connection, and then a read of 1024 bytes.\<close>

definition full_read :: completion where
  "full_read = got_bytes (replicate 1024 65)"

definition script3 :: "asio_event list" where
  "script3 = [Completed 0 (finished 0), Completed 0 full_read]"

lemma boost_script3: "map_option (\<lambda>w. (io_ops w, io_os w)) (boost_rounds scriptA 1 (boost_begin script3)) =
    Some ([Async_read_some 0 (0, 0) 1024 (On_read 0), Async_accept 1 (On_accept 1)], [Completed 0 full_read])"
  by code_simp

lemma full_read: "c_err full_read = 0" "c_count full_read = 1024" "fits (Async_read_some c p 1024 h) full_read"
  by (simp_all add: full_read_def got_bytes_def)

theorem boost_goes_wrong_witness:
  "\<exists>w. boosting scriptA (\<lambda>_ _. 0) script3 w \<and> boost_round scriptA w = Inl Overrun"
proof -
  obtain w where w: "boost_rounds scriptA 1 (boost_begin script3) = Some w"
      "io_ops w = [Async_read_some 0 (0, 0) 1024 (On_read 0), Async_accept 1 (On_accept 1)]" "io_os w = [Completed 0 full_read]"
    using boost_script3 by auto
  have s: "boosting scriptA (\<lambda>_ _. 0) script3 w" using boost_rounds_reach [OF boost_begin w(1)] .
  have "a_next scriptA (map shape (io_ops w)) (io_os w) = (Completed 0 full_read, [])"
    using w(2,3) full_read(3) by (simp add: scriptA_def del: fits.simps)
  then have "boost_round scriptA w = Inl Overrun"
    unfolding boost_goes_wrong [OF script_laws s]
    using w(2) full_read by (intro exI [of _ 0] exI [of _ full_read]) (simp add: buf_def BUFLEN_def)
  with s show ?thesis by blast
qed

text \<open>
C11: The two servers on Boost.Asio are equivalent: whatever the callback server does, the coroutine server does in the same environment, with the same clients and the same bytes; and each further step of the coroutine server is one of the callback server, unless that one goes wrong in one of its two ways or is killed by a signal, which it does not handle.
\<close>

theorem boost_servers_equivalent:
  assumes L: "asio_laws A" and w: "boosting A m k w"
  shows "\<exists>v. coroing A m k v \<and> io_in v = io_in w \<and> io_out v = io_out w \<and> dom (co_clients v) = b_clients w \<and>
    (\<forall>v'. coro_round A v = Inr (None, v') \<longrightarrow>
       (\<exists>w'. boost_round A w = Inr (None, w') \<and> io_in v' = io_in w' \<and> io_out v' = io_out w' \<and> dom (co_clients v') = b_clients w') \<or>
       boost_round A w \<in> {Inl Overrun, Inl Delete_automatic} \<or> (\<exists>n w'. boost_round A w = Inr (Some (Killed n), w')))"
proof -
  obtain v where v: "coroing A m k v" "agrees w v" using boosting_agrees [OF L w] by blast
  note p = coroing_ok [OF v(1) L]
  have "(\<exists>w'. boost_round A w = Inr (None, w') \<and> io_in v' = io_in w' \<and> io_out v' = io_out w' \<and> dom (co_clients v') = b_clients w') \<or>
       boost_round A w \<in> {Inl Overrun, Inl Delete_automatic} \<or> (\<exists>n w'. boost_round A w = Inr (Some (Killed n), w'))"
    if r: "coro_round A v = Inr (None, v')" for v'
  proof (rule io_round_cases [OF refl, where A = A and call = boost_call and sig = boost_signal and w = w], goal_cases)
    case 1
    then show ?case using agreesD(6) [OF v(2)] by simp
  next
    case (2 k)
    have "map shape (io_ops v) = map shape (io_ops w)" using agreesD(1) [OF v(2)] by simp
    then show ?case using 2(2) r agreesD(5,7) [OF v(2)] by (simp add: coro_round_def io_round_def)
  next
    case (3 n k)
    then show ?case by (simp add: boost_round_def boost_signal_def)
  next
    case (4 i c k')
    note b = boost_round_completed [OF L w 4(2)]
    show ?case
    proof (cases "spoils (io_ops w ! i) c")
      case None
      then obtain w' where w': "boost_round A w = Inr (None, w')" using b(2) by blast
      obtain v2 where "coro_round A v = Inr (None, v2)" "agrees w' v2"
        using boost_round_agrees [OF L v(2) p w'] by blast
      then show ?thesis using r w' agreesD(3,4,8) [of w' v'] by auto
    next
      case (Some f)
      then have "f \<in> {Overrun, Delete_automatic}" by (cases "io_ops w ! i") (auto split: if_splits)
      then show ?thesis using b(1) Some by auto
    qed
  qed
  then show ?thesis using v(1) agreesD(3,4,8) [OF v(2)] by (intro exI [of _ v]) auto
qed

theorem boost_servers_equivalent_witness:
  "\<exists>w v. boosting scriptA (\<lambda>_ _. 0) script3 w \<and> coroing scriptA (\<lambda>_ _. 0) script3 v \<and> io_ops w \<noteq> [] \<and> io_in v = io_in w \<and>
     dom (co_clients v) = b_clients w"
proof -
  obtain w where w: "boost_rounds scriptA 1 (boost_begin script3) = Some w" "io_ops w \<noteq> []"
    using boost_script3 by auto
  have s: "boosting scriptA (\<lambda>_ _. 0) script3 w" using boost_rounds_reach [OF boost_begin w(1)] .
  from boost_servers_equivalent [OF script_laws s] s w(2) show ?thesis by blast
qed

section \<open>The load generator\<close>


fun tester_rounds :: "'k asio \<Rightarrow> nat \<Rightarrow> 'k tester \<Rightarrow> 'k tester option" where
  "tester_rounds A 0 w = Some w"
| "tester_rounds A (Suc n) w = (case tester_round A w of Inr (None, w') \<Rightarrow> tester_rounds A n w' | _ \<Rightarrow> None)"

lemma tester_rounds_reach: "testing A opts m k w \<Longrightarrow> tester_rounds A n w = Some w' \<Longrightarrow> testing A opts m k w'"
proof (induction n arbitrary: w)
  case (Suc n)
  then obtain w1 where "tester_round A w = Inr (None, w1)" "tester_rounds A n w1 = Some w'"
    by (auto split: sum.splits prod.splits option.splits)
  then show ?case using Suc.IH testing.round [OF Suc.prems(1)] by blast
qed simp

text \<open>Two clients and messages of two bytes: one makes a round trip, the other cannot connect.\<close>

definition opts1 :: "(char \<times> string) list" where
  "opts1 = [(CHR ''s'', ''2''), (CHR ''c'', ''2''), (CHR ''d'', ''5''), (CHR ''h'', ''::1''), (CHR ''p'', ''9000'')]"

definition script4 :: "asio_event list" where
  "script4 = [Completed 0 (finished 0), Completed 0 (failed 111), Completed 1 (finished 2), Completed 1 (got_bytes [49, 49])]"

definition tester_begin :: "asio_event list \<Rightarrow> asio_event list tester option" where
  "tester_begin k = (case tester_setup scriptA opts1 (\<lambda>_ _. 0) k of Inr (None, w) \<Rightarrow> Some w | _ \<Rightarrow> None)"

lemma tester_begin: "tester_begin k = Some w \<Longrightarrow> testing scriptA opts1 (\<lambda>_ _. 0) k w"
  by (rule testing.start) (simp add: tester_begin_def split: sum.splits prod.splits option.splits)

lemma tester_script4: "map_option (\<lambda>w. (g_success w, g_fail w, io_in w 0)) (Option.bind (tester_begin script4) (tester_rounds scriptA 4)) =
    Some (1, 1, [49, 49])"
  by code_simp

lemma tester_state4:
  obtains w where "testing scriptA opts1 (\<lambda>_ _. 0) script4 w" "g_success w = 1" "g_fail w = 1" "io_in w 0 = [49, 49]"
proof -
  obtain v where v: "tester_begin script4 = Some v" using tester_script4 by (cases "tester_begin script4") auto
  obtain w where w: "tester_rounds scriptA 4 v = Some w" "g_success w = 1" "g_fail w = 1" "io_in w 0 = [49, 49]"
    using tester_script4 v by auto
  show ?thesis using that [OF tester_rounds_reach [OF tester_begin [OF v] w(1)] w(2-4)] .
qed


lemma tester_run_ok:
  assumes L: "asio_laws A" and r: "io_run A tester_call tester_signal w = Some r" and p: "tester_ok w"
  shows "\<exists>e w'. r = Inr (e, w') \<and> tester_ok w'"
  using io_run_keeps [where P = tester_ok, OF _ r p] tester_round_ok [OF L] unfolding tester_round_def by blast

text \<open>
How the load generator ends: with an exception when the message size is negative; with a second deletion of a client that already deleted itself, as soon as one client failed; otherwise normally, and so the number of failures it prints is 0 whenever it comes to print it.
\<close>

theorem tester_main_outcome:
  assumes L: "asio_laws A" and r: "tester_main A opts m k = Some r"
  shows "r = Inl Terminate \<or> r = Inl Double_delete \<or> (\<exists>e c rep. r = Inr (e, c, rep) \<and> (\<forall>s f. rep = Some (s, f) \<longrightarrow> f = 0))"
proof (cases "tester_setup A opts m k")
  case (Inl f)
  then have "f = Terminate"
    by (auto simp: tester_setup_def CreateBuffer_def Let_def split: prod.splits if_splits)
  then show ?thesis using r Inl by (simp add: tester_main_def)
next
  case (Inr cw)
  obtain code w where cw: "cw = (code, w)" by fastforce
  show ?thesis
  proof (cases code)
    case (Some c)
    have "c = 0 \<Longrightarrow> g_fail w = 0"
    proof -
      assume c: "c = 0"
      obtain s d e h p where "fold set_option opts (Global_new m k) =
          (Global_new m k)\<lparr>g_size := s, g_count := d, g_duration := e, g_host := h, g_port := p\<rparr>" using options_frame by blast
      then show "g_fail w = 0" using Inr cw Some c
        by (auto simp: tester_setup_def LoadCmdLineArgs_def CreateBuffer_def Let_def Global_new_def split: if_splits prod.splits)
    qed
    then show ?thesis using r Inr cw Some by (auto simp: tester_main_def)
  next
    case None
    have p: "tester_ok w" using tester_setup_ok [of A opts m k w] Inr cw None by simp
    obtain r1 where r1: "io_run A tester_call tester_signal w = Some r1"
      using r Inr cw None by (cases "io_run A tester_call tester_signal w") (auto simp: tester_main_def)
    obtain e w' where w': "r1 = Inr (e, w')" "tester_ok w'" using tester_run_ok [OF L r1 p] by blast
    show ?thesis
      using r Inr cw None r1 w'(1) cleanup [OF tester_partD(5) [OF w'(2)]]
      by (cases e; cases "g_fail w' = 0") (auto simp: tester_main_def Let_def setElapsedTime_def split: prod.splits)
  qed
qed

text \<open>After one round trip of the first client a signal ends the run.\<close>

definition script5 :: "asio_event list" where
  "script5 = [Completed 0 (finished 0), Completed 2 (finished 2), Completed 2 (got_bytes [49, 49])]"

lemma tester_main_scripts:
  "tester_main scriptA opts1 (\<lambda>_ _. 0) script5 = Some (Inr (Returned, 0, Some (1, 0)))"
  "tester_main scriptA opts1 (\<lambda>_ _. 0) script4 = Some (Inl Double_delete)"
  "tester_main scriptA [(CHR ''s'', ''-2''), (CHR ''c'', ''2''), (CHR ''d'', ''5''), (CHR ''h'', ''::1''), (CHR ''p'', ''9000'')]
     (\<lambda>_ _. 0) script5 = Some (Inl Terminate)"
  by code_simp+

theorem tester_main_outcome_witness:
  "\<exists>r. tester_main scriptA opts1 (\<lambda>_ _. 0) script4 = Some r \<and>
     (r = Inl Terminate \<or> r = Inl Double_delete \<or> (\<exists>e c rep. r = Inr (e, c, rep) \<and> (\<forall>s f. rep = Some (s, f) \<longrightarrow> f = 0)))"
  using tester_main_outcome [OF script_laws tester_main_scripts(2)] tester_main_scripts(2) by blast

lemma tester_run_ends: "delivers_finitely A P \<Longrightarrow> io_run A tester_call tester_signal w \<noteq> None"
proof (erule io_run_ends, goal_cases)
  case (1 h r w w')
  then show ?case
    by (auto simp: tester_call_def TestClient_onConnect_def TestClient_onWrite_def TestClient_onRead_def OnTimer_def
        TestClient_dtor_def start_write_def split: tester_handler.splits if_splits)
next
  case (2 n w w')
  then show ?case by (auto simp: tester_signal_def Tester_SigHandler_def split: if_splits)
qed



end
