(* ===== verification/EchoLink.thy ===== *)
theory EchoLink
  imports EchoProperties KqueueServing BoostProperties
begin

text \<open>
  The load generator against the echo servers. The contract \<open>echo_service\<close> is given by the aio
  server on both pollers (the Boost servers give it in CoroInvariant and BoostProperties); the load
  generator is its client. Between them is a network that keeps the order of the bytes of a
  connection: what the one end received is a prefix of what the other sent.
\<close>

interpretation aio_echo: echo_service
  "\<lambda>w. linux K ob \<and> o_reg ob k = Map.empty \<and> serving K m k w" "\<lambda>w fd. fd \<noteq> -1 \<and> (\<exists>s. socks w s = Some fd)"
  "\<lambda>w fd. o_in ob (os w) fd" "\<lambda>w fd. o_out ob (os w) fd" BUFSIZE for K ob m k
proof (unfold_locales, goal_cases)
  case (1 w fd)
  then obtain s where s: "socks w s = Some fd" by blast
  have "quiescent K ob w" using serving_quiescent [of K ob k m w] 1 by blast
  then show ?case using calm_relays [OF quiescentD] s 1 by blast
qed

interpretation kq_echo: echo_service
  "\<lambda>w. bsd K ob \<and> o_reg ob k = Map.empty \<and> kq_serving K m k w" "\<lambda>w fd. fd \<noteq> -1 \<and> (\<exists>s. socks w s = Some fd)"
  "\<lambda>w fd. o_in ob (os w) fd" "\<lambda>w fd. o_out ob (os w) fd" BUFSIZE for K ob m k
proof (unfold_locales, goal_cases)
  case (1 w fd)
  then obtain s where s: "socks w s = Some fd" by blast
  have "kq_quiescent K ob w" using kq_serving_quiescent [of K ob k m w] 1 by blast
  then show ?case using calm_relays s 1 unfolding kq_quiescent_def by blast
qed

section \<open>The load generator as a client\<close>

text \<open>The client \<open>i\<close> read nothing yet, or is connected to the server as \<open>c i\<close>.\<close>

definition peered :: "'k tester \<Rightarrow> ('c \<Rightarrow> bool) \<Rightarrow> ('c \<Rightarrow> byte list) \<Rightarrow> ('c \<Rightarrow> byte list) \<Rightarrow> (nat \<Rightarrow> 'c) \<Rightarrow> bool" where
  "peered t conn got sent c \<longleftrightarrow>
     (\<forall>i<clients t. io_in t i \<noteq> [] \<longrightarrow> conn (c i) \<and> prefix (got (c i)) (io_out t i) \<and> prefix (io_in t i) (sent (c i)))"

lemma prefix_ones:
  assumes "prefix xs (ones n)"
  shows "xs = ones (List.length xs)"
proof -
  have "set xs \<subseteq> set (ones n)" using set_mono_prefix [OF assms] .
  then have "\<forall>y\<in>set xs. y = 49" by (auto simp: ones_def split: if_splits)
  then show ?thesis using replicate_length_same [of xs 49] by (simp add: ones_def)
qed

context echo_service
begin

lemma peered_reads_own:
  assumes s: "reach s" and t: "tester_ok t" and l: "peered t (conn s) (got s) (sent s) c" and i: "i < clients t"
  shows "io_in t i = ones (List.length (io_in t i)) \<and> trips t i * msg t \<le> List.length (if io_in t i = [] then [] else sent s (c i))"
proof (cases "io_in t i = []")
  case True
  then show ?thesis by (simp add: ones_def trips_def)
next
  case False
  then have c: "conn s (c i)" "prefix (got s (c i)) (io_out t i)" "prefix (io_in t i) (sent s (c i))"
    using l i by (simp_all add: peered_def)
  have "prefix (io_in t i) (io_out t i)" using peer_reads_own [OF s c] .
  moreover have "io_out t i = ones (List.length (io_out t i))" using tester_partD(4) [OF t] by (simp add: sound_def)
  ultimately have "io_in t i = ones (List.length (io_in t i))" using prefix_ones by metis
  moreover have "trips t i * msg t \<le> List.length (io_in t i)" by (simp add: trips_def)
  ultimately show ?thesis using False prefix_length_le [OF c(3)] by simp
qed

lemma peered_counts:
  assumes s: "reach s" and t: "tester_ok t" and l: "peered t (conn s) (got s) (sent s) c"
  shows "g_success t * g_size t \<le> int (\<Sum>i<clients t. List.length (if io_in t i = [] then [] else sent s (c i)))"
proof -
  have "(\<Sum>i<clients t. trips t i) * msg t \<le> (\<Sum>i<clients t. List.length (if io_in t i = [] then [] else sent s (c i)))"
    unfolding sum_distrib_right by (rule sum_mono) (use peered_reads_own [OF s t l] in blast)
  moreover have "g_success t = int (\<Sum>i<clients t. trips t i)" "g_size t = int (msg t)"
    using tester_partD(5,6) [OF t] by (simp_all add: counted_def msg_def)
  ultimately show ?thesis by (simp only: of_nat_mult [symmetric] of_nat_le_iff)
qed

end


definition link_sim :: sim where
  "link_sim = sim0 1 [(5, [49, 49])] 8 [[(1, HAcc 0)]]"

definition link_opts :: "(char \<times> string) list" where
  "link_opts = [(CHR ''s'', ''2''), (CHR ''c'', ''1''), (CHR ''d'', ''5''), (CHR ''h'', ''::1''), (CHR ''p'', ''9000'')]"

definition link_script :: "asio_event list" where
  "link_script = [Completed 0 (finished 0), Completed 1 (finished 2), Completed 1 (got_bytes [49, 49])]"

definition link_tester :: "asio_event list tester option" where
  "link_tester = (case tester_setup scriptA link_opts (\<lambda>_ _. 0) link_script of Inr (None, w) \<Rightarrow> tester_rounds scriptA 3 w | _ \<Rightarrow> None)"

lemma link_run:
  "map_option (\<lambda>w. (socks w 0, s_in (os w) 5, s_out (os w) 5)) (sim_rounds 1 (sim_start link_sim)) = Some (Some 5, [49, 49], [49, 49])"
  "map_option (\<lambda>t. (g_success t, g_size t, g_count t, io_in t 0, io_out t 0)) link_tester = Some (1, 2, 1, [49, 49], [49, 49])"
  by code_simp+


text \<open>
The load generator against the coroutine server, which gives the same contract: all that a client has read is test data it sent itself, and its successes are round trips.
\<close>

theorem tester_over_coro:
  assumes "asio_laws S" and "coroing S n q w" and "asio_laws A" and "testing A opts m k t"
    and l: "peered t (\<lambda>_. True) (io_in w) (io_out w) c"
  shows "(\<forall>i<clients t. io_in t i = ones (List.length (io_in t i))) \<and>
    g_success t * g_size t \<le> int (\<Sum>i<clients t. List.length (if io_in t i = [] then [] else io_out w (c i)))"
proof -
  have t: "tester_ok t" using testing_ok [OF assms(4,3)] .
  show ?thesis
    using coro_echo.peered_reads_own [OF _ t l] coro_echo.peered_counts [OF _ t l] assms(1,2) by blast
qed

end
