(* ===== verification/TransportProperties.thy ===== *)
theory TransportProperties
  imports Client Simulation
begin

unbundle bit_operations_syntax

text \<open>
  What the library itself guarantees, for any program that uses it: the requests and events of a
  socket as functions of the system call they make, the timer list, the loops, registration and the
  lifetime of a socket; and where the code falls short of it.
\<close>

text \<open>A proactor with one open, idle socket, for the examples.\<close>

definition one_socket :: "sim \<Rightarrow> (nat, nat, sim) world" where
  "one_socket k = Socket_new simK 0 5 (Proactor_new simK (\<lambda>_ _. 0) k)"

definition idle_token :: "nat token" where
  "idle_token = Token_new (Timeval 0 0)"

lemma one_socket_wf: "wf (one_socket k) []"
  unfolding one_socket_def by (rule wf_Socket_new [OF wf_new]) (simp add: Proactor_new_def)

lemma one_socket_simps [simp]:
  "toks (one_socket k) (Rt 0) = Some idle_token" "toks (one_socket k) (Wt 0) = Some idle_token"
  "socks (one_socket k) 0 = Some 5" "os (one_socket k) = k" "t_mode idle_token = M_NONE" "mem (one_socket k) = (\<lambda>_ _. 0)"
  "p_timerList (one_socket k) = []" "st_tv (toks (one_socket k)) (Rt 0) = Timeval 0 0"
  "st_tv (toks (one_socket k)) (Wt 0) = Timeval 0 0" "p_deleted (one_socket k) = []"
  by (simp_all add: one_socket_def Socket_new_def idle_token_def simK_def Token_new_def Proactor_new_def st_tv_def)

lemma load_2: "mem_load (mem_store p [a, b] m) p 2 = [a, b]"
  and load_3: "mem_load (mem_store p [a, b, c] m) p 3 = [a, b, c]"
  using mem_load_store_same [of p "[a, b]" m] mem_load_store_same [of p "[a, b, c]" m]
  by (simp_all add: numeral_2_eq_2 numeral_3_eq_3)

section \<open>Requests\<close>



text \<open>
C24: readAll completes at once only when the buffer is full, at the end of the stream or on an error; a partial read stays pending with its count.
\<close>

theorem readAll_outcome:
  assumes "wf w qs" and "toks w (Rt s) = Some x" and "t_mode x = M_NONE" and "socks w s = Some fd"
    and "0 \<le> n" and "k_read K fd n (os w) = (ret, en, bs, k)"
  shows "\<exists>w' qs' y. Socket_readAll K s b n c ms w = Inr (True, w') \<and> settled w qs (Rt s) w' qs' y \<and>
    outcome y = readAll_result n ret en \<and> request y = (b, n, Some c) \<and>
    mem w' = mem_store b bs (mem w) \<and> os w' \<in> {k, snd (k_gettimeofday K k)}"
  by (rule readAll_ok [OF assms])

theorem readAll_outcome_witness:
  "\<exists>w' qs' y. Socket_readAll simK 0 (7, 0) 4 9 100 (one_socket (sim0 0 [(5, [1, 2])] 0 [])) = Inr (True, w') \<and>
    outcome (y :: nat token) = (M_ALL, 2, 0) \<and> qs' = ([] :: tokref list)"
proof -
  let ?k = "sim0 0 [(5, [1, 2])] 0 []"
  obtain k where r: "k_read simK 5 4 (os (one_socket ?k)) = (2, 0, [1, 2], k)"
    by (simp add: simK_sel sim_read_def sim0_def Let_def)
  show ?thesis
    using readAll_outcome [OF one_socket_wf one_socket_simps(1) one_socket_simps(5) one_socket_simps(3) _ r, of "(7, 0)" 9 100]
    by (auto simp: readAll_result_def)
qed

text \<open>
C25: writeAll completes at once only when all of the buffer was taken or on an error (a write of zero bytes counts as one); otherwise the rest stays pending with its count, and the buffer is not changed.
\<close>

theorem writeAll_outcome:
  assumes "wf w qs" and "toks w (Wt s) = Some x" and "t_mode x = M_NONE" and "socks w s = Some fd"
    and "0 \<le> n" and "k_write K fd (mem_load (mem w) b (nat n)) (os w) = (ret, en, k)"
  shows "\<exists>w' qs' y. Socket_writeAll K s b n c ms w = Inr (True, w') \<and> settled w qs (Wt s) w' qs' y \<and>
    outcome y = writeAll_result n ret en \<and> request y = (b, n, Some c) \<and>
    mem w' = mem w \<and> os w' \<in> {k, snd (k_gettimeofday K k)}"
  by (rule writeAll_ok [OF assms])

theorem writeAll_outcome_witness:
  "\<exists>w' qs' y. Socket_writeAll simK 0 (7, 0) 4 9 100 (one_socket (sim0 0 [] 3 [])) = Inr (True, w') \<and>
    outcome (y :: nat token) = (M_ALL, 3, 0) \<and> s_out (os w') 5 = [0, 0, 0] \<and> qs' = ([] :: tokref list)"
proof -
  let ?k = "sim0 0 [] 3 []"
  obtain k where r: "k_write simK 5 (mem_load (mem (one_socket ?k)) (7, 0) (nat 4)) (os (one_socket ?k)) = (3, 0, k)"
    and o: "s_out k 5 = [0, 0, 0]" and c: "snd (k_gettimeofday simK k) = k"
    by (simp add: simK_sel sim_write_def sim0_def mem_load_def upt_rec)
  show ?thesis
    using writeAll_outcome [OF one_socket_wf one_socket_simps(2) one_socket_simps(5) one_socket_simps(3) _ r, of 9 100] o c
    by (auto simp: writeAll_result_def)
qed

section \<open>Events\<close>

text \<open>
C21: A readiness event reads exactly into the free rest of the buffer; the request completes, fails or goes on with its count as the one read says, and the timer list is left alone.
\<close>

theorem onRead_outcome:
  assumes "wf w qs" and "toks w (Rt s) = Some x" and "pending_mode (t_mode x)" and "socks w s = Some fd"
    and "posix_read K" and "k_read K fd (t_bufSize x - t_ioSize x) (os w) = (ret, en, bs, k)"
  shows "\<exists>w' qs' y. Socket_onRead K s w = Inr w' \<and> settled w qs (Rt s) w' qs' y \<and>
    outcome y = onRead_result (t_mode x) (t_ioSize x) (t_bufSize x) ret en \<and> request y = request x \<and>
    mem w' = mem_store (ptr_add (t_buf x) (t_ioSize x)) bs (mem w) \<and> os w' = k \<and> p_timerList w' = p_timerList w"
  by (rule onRead_ok [OF assms])

text \<open>A pending read of four bytes of which one has come.\<close>

definition reading_token :: "nat token" where
  "reading_token = idle_token\<lparr>t_mode := M_ALL, t_buf := (7, 0), t_bufSize := 4, t_ioSize := 1, t_cb := Some 9\<rparr>"

lemma reading_wf: "wf ((one_socket k)\<lparr>toks := (toks (one_socket k))(Rt 0 \<mapsto> reading_token)\<rparr>) []"
  by (rule wf_upd [OF one_socket_wf one_socket_simps(1)])
    (simp_all add: reading_token_def idle_token_def tok_ok_def Token_new_def)

lemma writing_wf: "wf ((one_socket k)\<lparr>toks := (toks (one_socket k))(Wt 0 \<mapsto> reading_token)\<rparr>) []"
  by (rule wf_upd [OF one_socket_wf one_socket_simps(2)])
    (simp_all add: reading_token_def idle_token_def tok_ok_def Token_new_def)

theorem onRead_outcome_witness:
  "\<exists>w' y. Socket_onRead simK 0 ((one_socket (sim0 0 [(5, [1, 2, 3, 4])] 0 []))
      \<lparr>toks := (toks (one_socket (sim0 0 [(5, [1, 2, 3, 4])] 0 [])))(Rt 0 \<mapsto> reading_token)\<rparr>) = Inr w' \<and>
    outcome (y :: nat token) = (M_DONE, 4, 0) \<and> mem_load (mem w') (7, 1) 3 = [1, 2, 3]"
proof -
  let ?w = "(one_socket (sim0 0 [(5, [1, 2, 3, 4])] 0 []))
      \<lparr>toks := (toks (one_socket (sim0 0 [(5, [1, 2, 3, 4])] 0 [])))(Rt 0 \<mapsto> reading_token)\<rparr>"
  obtain k where r: "k_read simK 5 (t_bufSize reading_token - t_ioSize reading_token) (os ?w) = (3, 0, [1, 2, 3], k)"
    by (simp add: simK_sel sim_read_def sim0_def reading_token_def Let_def)
  show ?thesis
    using onRead_outcome [OF reading_wf _ _ _ sim_posix(1) r, of 0]
    by (auto simp: onRead_result_def reading_token_def ptr_add_def load_3)
qed

text \<open>
C22: A writability event sends exactly the unsent rest of the buffer and advances the count by what was taken, or completes or fails the request.
\<close>

theorem onWrite_outcome:
  assumes "wf w qs" and "toks w (Wt s) = Some x" and "t_mode x = M_ALL" and "socks w s = Some fd" and "posix_write K"
    and "k_write K fd (mem_load (mem w) (ptr_add (t_buf x) (t_ioSize x)) (nat (t_bufSize x - t_ioSize x))) (os w) = (ret, en, k)"
  shows "\<exists>w' qs' y. Socket_onWrite K s w = Inr w' \<and> settled w qs (Wt s) w' qs' y \<and>
    outcome y = onWrite_result (t_ioSize x) (t_bufSize x) ret en \<and> request y = request x \<and>
    mem w' = mem w \<and> os w' = k \<and> p_timerList w' = p_timerList w"
  by (rule onWrite_ok [OF assms])

theorem onWrite_outcome_witness:
  "\<exists>w' y. Socket_onWrite simK 0 ((one_socket (sim0 0 [] 2 []))
      \<lparr>toks := (toks (one_socket (sim0 0 [] 2 [])))(Wt 0 \<mapsto> reading_token)\<rparr>) = Inr w' \<and>
    outcome (y :: nat token) = (M_ALL, 3, 0) \<and> s_out (os w') 5 = [0, 0]"
proof -
  let ?w = "(one_socket (sim0 0 [] 2 []))\<lparr>toks := (toks (one_socket (sim0 0 [] 2 [])))(Wt 0 \<mapsto> reading_token)\<rparr>"
  obtain k where r: "k_write simK 5 (mem_load (mem ?w) (ptr_add (t_buf reading_token) (t_ioSize reading_token))
      (nat (t_bufSize reading_token - t_ioSize reading_token))) (os ?w) = (2, 0, k)" and o: "s_out k 5 = [0, 0]"
    by (simp add: simK_sel sim_write_def sim0_def reading_token_def mem_load_def upt_rec)
  show ?thesis
    using onWrite_outcome [OF writing_wf _ _ _ sim_posix(2) r, of 0] o
    by (auto simp: onWrite_result_def reading_token_def)
qed

end
