(* ===== verification/LoopProperties.thy ===== *)
theory LoopProperties
  imports TransportProperties
begin

unbundle bit_operations_syntax

text \<open>
  The completion queue, the timer list, the loops of the proactor, registration, and the lifetime of
  sockets and listening sockets, for any program that uses the library.
\<close>

section \<open>The completion queue\<close>

text \<open>
C19: Completions are delivered in the order in which they were enqueued: taking the front out of the linked list as often as there are tokens gives the tokens that were queued, then the new ones, in order, and leaves the list empty.
\<close>

theorem completions_fifo:
  assumes "queue_ok h qs" and "distinct es" and "set es \<inter> set qs = {}" and "\<forall>t\<in>set es. t \<noteq> Head \<and> h t \<noteq> None"
  shows "\<exists>h'. bindS (enq_all Proactor_enqueue es h) (pop_all queue_front Proactor_remove (List.length qs + List.length es)) =
      Inr (qs @ es, h') \<and> queue_ok h' []"
  by (rule tq.fifo [OF assms])

definition three_tokens :: "nat store" where
  "three_tokens = (queue_init (Timeval 0 0))(Rt 0 \<mapsto> Token_new (Timeval 0 0), Wt 0 \<mapsto> Token_new (Timeval 0 0), Rt 1 \<mapsto> Token_new (Timeval 0 0))"

lemma three_tokens_ok: "queue_ok three_tokens []"
  unfolding three_tokens_def
  by (rule queue_ok_cong [OF queue_ok_init [of "Timeval 0 0"]]) (auto simp: nx_def pv_def queue_init_def)

theorem completions_fifo_witness:
  "\<exists>h'. bindS (enq_all Proactor_enqueue [Rt 1, Rt 0, Wt 0] three_tokens) (pop_all queue_front Proactor_remove 3) =
      Inr ([Rt 1, Rt 0, Wt 0], h') \<and> queue_ok h' []"
  using completions_fifo [OF three_tokens_ok, of "[Rt 1, Rt 0, Wt 0]"] by (simp add: three_tokens_def numeral_3_eq_3)

text \<open>
C20: A queued token can be taken out wherever it stands, as the destructor of a socket does, without disturbing the order of the others.
\<close>

theorem completion_withdrawn:
  assumes "queue_ok h qs" and "t \<in> set qs"
  shows "\<exists>h'. bindS (Proactor_remove t h) (pop_all queue_front Proactor_remove (List.length qs - 1)) = Inr (remove1 t qs, h') \<and> queue_ok h' []"
  by (rule tq.fifo_without [OF assms])

theorem completion_withdrawn_witness:
  "\<exists>(h :: nat store) h'. queue_ok h [Rt 1, Rt 0, Wt 0] \<and>
     bindS (Proactor_remove (Rt 0) h) (pop_all queue_front Proactor_remove 2) = Inr ([Rt 1, Wt 0], h') \<and> queue_ok h' []"
proof -
  obtain h :: "nat store" where h: "queue_ok h [Rt 1, Rt 0, Wt 0]"
    using tq.enq_all_ok [OF three_tokens_ok, of "[Rt 1, Rt 0, Wt 0]"] by (auto simp: three_tokens_def)
  from completion_withdrawn [OF h, of "Rt 0"] h show ?thesis
    by (rule_tac exI [of _ h]) (auto simp: numeral_2_eq_2)
qed

text \<open>
When the delivery of completions returns, nothing is left in the queue, whatever the callbacks did.
\<close>

theorem processCompletion_drains:
  assumes "Proactor_processCompletion E w = Some (Inr w')"
  shows "queue_front (toks w') = Inr Head"
proof -
  have "\<forall>w'. r = Inr w' \<longrightarrow> queue_front (toks w') = Inr Head" if "Proactor_processCompletion E w = Some r" for E w r
  proof (rule Proactor_processCompletion.raw_induct [OF _ that], goal_cases)
    case (1 rec E w r)
    then show ?case by (auto split: sum.splits if_splits)
  qed
  then show ?thesis using assms by blast
qed

theorem processCompletion_drains_witness:
  "queue_front (toks (Proactor_new simK (\<lambda>_ _. 0) (sim0 0 [] 0 []) :: (nat, nat, sim) world)) = Inr Head"
  by (rule processCompletion_drains [where E = "\<lparr>e_kern = simK, e_call = \<lambda>_ _ _. Inr, e_acall = \<lambda>_ _ _. Inr, e_signal = \<lambda>_ w. w\<rparr>" and
        w = "Proactor_new simK (\<lambda>_ _. 0) (sim0 0 [] 0 [])"])
    (subst Proactor_processCompletion.simps, simp add: Proactor_new_def queue_init_def queue_front_def)

section \<open>Timers\<close>

text \<open>
The order of timer keys is the order of time, and the sum that sets a deadline is exact to the microsecond and normalised.
\<close>

theorem deadline_exact:
  assumes "tv_norm a" and "tv_norm b" and "0 \<le> ms"
  shows "(a < b \<longleftrightarrow> tv_micros a < tv_micros b) \<and> tv_norm (timeradd a (timeout_interval ms)) \<and>
    tv_micros (timeradd a (timeout_interval ms)) = tv_micros a + ms * 1000"
  using assms by (simp add: tv_less_micros timeradd_norm timeout_interval_norm timeradd_micros timeout_interval_micros)

theorem deadline_exact_witness:
  "Timeval 7 999999 < Timeval 8 1 \<and> tv_micros (timeradd (Timeval 7 999999) (timeout_interval 1500)) = 9499999"
  using deadline_exact [of "Timeval 7 999999" "Timeval 8 1" 1500] by (simp add: tv_norm_def tv_micros_def)

text \<open>
Arming a timer sets the token's deadline to now plus the timeout; the token enters the list unless a token with the very same deadline is there, in which case its timeout is silently dropped.
\<close>

theorem pushTimer_deadline:
  assumes w: "wf w qs" and x: "toks w t = Some x" and t: "t \<noteq> Head" "t \<notin> set (p_timerList w)" and ms: "ms \<noteq> 0"
    and k: "k_gettimeofday K (os w) = (cur, k)"
  defines "d \<equiv> timeradd cur (timeout_interval ms)"
  shows "\<exists>w'. Proactor_pushTimer K t ms w = Inr w' \<and> toks w' = (toks w)(t \<mapsto> x\<lparr>t_tv := d\<rparr>) \<and>
    (t \<in> set (p_timerList w') \<longleftrightarrow> (\<forall>u\<in>set (p_timerList w). st_tv (toks w) u \<noteq> d)) \<and>
    (\<forall>u\<in>set (p_timerList w). u \<in> set (p_timerList w'))"
proof -
  define h where "h = (toks w)(t \<mapsto> x\<lparr>t_tv := d\<rparr>)"
  have tm: "timers_ok h (p_timerList w)" unfolding h_def
    using timers_ok_upd [OF wfD(4) [OF w], of t] t(2) by simp
  have key: "st_tv h u = st_tv (toks w) u" if "u \<in> set (p_timerList w)" for u
    using that t(2) by (auto simp: h_def st_tv_def)
  have kt: "st_tv h t = d" by (simp add: h_def st_tv_def)
  have "Proactor_pushTimer K t ms w = Inr (w\<lparr>toks := h, p_timerList := fst (set_insert (st_tv h) t (p_timerList w)), os := k\<rparr>)"
    using ms k x timers_deref_ok [of "w\<lparr>os := k, toks := h\<rparr>"] tm by (simp add: Proactor_pushTimer_def h_def d_def)
  moreover have "t \<in> set (fst (set_insert (st_tv h) t (p_timerList w))) \<longleftrightarrow> (\<forall>u\<in>set (p_timerList w). st_tv (toks w) u \<noteq> d)"
  proof (cases "\<exists>u\<in>set (p_timerList w). st_tv h u = st_tv h t")
    case True
    then show ?thesis using tset.ins_dup [OF timers_okD(1) [OF tm] True] t(2) key kt by auto
  next
    case False
    then show ?thesis using tset.ins_new [OF timers_okD(1) [OF tm], of t] key kt by auto
  qed
  moreover have "u \<in> set (fst (set_insert (st_tv h) t (p_timerList w)))" if "u \<in> set (p_timerList w)" for u
  proof (cases "\<exists>u\<in>set (p_timerList w). st_tv h u = st_tv h t")
    case True
    then show ?thesis using tset.ins_dup [OF timers_okD(1) [OF tm] True] that by simp
  next
    case False
    then show ?thesis using tset.ins_new [OF timers_okD(1) [OF tm], of t] that by auto
  qed
  ultimately show ?thesis unfolding h_def by (intro exI conjI) (assumption, simp_all)
qed

theorem pushTimer_deadline_witness:
  "\<exists>w'. Proactor_pushTimer simK (Rt 0) 1500 (one_socket (sim0 0 [] 0 [])) = Inr w' \<and> Rt 0 \<in> set (p_timerList w')"
  using pushTimer_deadline [OF one_socket_wf one_socket_simps(1), of "sim0 0 [] 0 []" 1500 simK "Timeval 100 0" "sim0 0 [] 0 []"]
  by (auto simp: simK_sel sim0_def)

text \<open>
C28: Removing a token's timer goes by its deadline, not by its identity: when the token itself has no timer but its stale deadline equals that of another one, the other one's timer is removed, and its request will never time out.
\<close>

theorem popTimer_steals:
  assumes w: "wf w qs" and x: "toks w t = Some x" and u: "u \<in> set (p_timerList w)" "st_tv (toks w) u = st_tv (toks w) t"
  shows "\<exists>w'. Proactor_popTimer t w = Inr w' \<and> set (p_timerList w') = set (p_timerList w) - {u}"
  using Proactor_popTimer_eq [OF wfD(4) [OF w] x] tset.del_steals [OF timers_okD(1) [OF wfD(4) [OF w]] u] by simp

text \<open>Two sockets; the read of socket 1 is armed for second 0, which is also what the fresh token of socket 0 holds.\<close>

definition two_sockets :: "(nat, nat, sim) world" where
  "two_sockets = (Socket_new simK 1 6 (one_socket (sim0 0 [] 0 [])))
     \<lparr>toks := (toks (Socket_new simK 1 6 (one_socket (sim0 0 [] 0 []))))(Rt 1 \<mapsto> idle_token\<lparr>t_mode := M_SOME, t_cb := Some 9\<rparr>),
      p_timerList := [Rt 1]\<rparr>"

lemma two_sockets_wf: "wf two_sockets []"
proof -
  let ?w = "Socket_new simK 1 6 (one_socket (sim0 0 [] 0 []))"
  let ?y = "idle_token\<lparr>t_mode := M_SOME, t_cb := Some 9\<rparr>"
  have w: "wf ?w []" by (rule wf_Socket_new [OF one_socket_wf]) (simp add: one_socket_def Socket_new_def Proactor_new_def)
  have x: "toks ?w (Rt 1) = Some idle_token" by (simp add: Socket_new_def idle_token_def simK_def)
  have l: "p_timerList ?w = []" by (simp add: Socket_new_def)
  have "wf (?w\<lparr>toks := (toks ?w)(Rt 1 \<mapsto> ?y)\<rparr>) []"
    by (rule wf_upd [OF w x]) (simp_all add: l idle_token_def tok_ok_def Token_new_def)
  then show ?thesis by (simp add: two_sockets_def wf_def timers_ok_def)
qed

theorem popTimer_steals_witness:
  "\<exists>w'. Proactor_popTimer (Rt 0) two_sockets = Inr w' \<and> set (p_timerList w') = {}"
  using popTimer_steals [OF two_sockets_wf, of "Rt 0" idle_token "Rt 1"]
  by (simp add: two_sockets_def st_tv_def one_socket_def Socket_new_def idle_token_def simK_def Token_new_def)

text \<open>
The timer loop stops at the first token that has not expired: when it returns, the list is empty or its earliest deadline has not passed.
\<close>

theorem timerLoop_done:
  assumes "Proactor_timerLoop E now w = Some (Inr w')"
  shows "p_timerList w' = [] \<or> (\<exists>t ts x. p_timerList w' = t # ts \<and> toks w' t = Some x \<and> now \<le> t_tv x)"
proof -
  have "\<forall>w'. r = Inr w' \<longrightarrow> p_timerList w' = [] \<or> (\<exists>t ts x. p_timerList w' = t # ts \<and> toks w' t = Some x \<and> now \<le> t_tv x)"
    if "Proactor_timerLoop E now w = Some r" for E now w r
  proof (rule Proactor_timerLoop.raw_induct [OF _ that], goal_cases)
    case (1 rec E now w r)
    then show ?case
      by (auto split: list.splits sum.splits if_splits simp: tok_get_def st_get_def not_less split: option.splits)
  qed
  then show ?thesis using assms by blast
qed

theorem timerLoop_done_witness:
  "p_timerList two_sockets = [] \<or> (\<exists>t ts x. p_timerList two_sockets = t # ts \<and> toks two_sockets t = Some x \<and> Timeval 0 0 \<le> t_tv x)"
  by (rule timerLoop_done [where E = "\<lparr>e_kern = simK, e_call = \<lambda>_ _ _. Inr, e_acall = \<lambda>_ _ _. Inr, e_signal = \<lambda>_ w. w\<rparr>" and w = two_sockets])
    (subst Proactor_timerLoop.simps, simp add: two_sockets_def tok_get_def st_get_def idle_token_def Token_new_def)

section \<open>Lifetime\<close>



text \<open>
A close event on a socket that never had a request calls an empty callback: the code does not look whether a read is pending before it calls the read callback.
\<close>

theorem onClose_empty_callback:
  assumes "toks w (Rt s) = Some x" and "toks w (Wt s) = Some y" and "t_mode x = M_NONE" and "t_cb x = None"
  shows "Socket_onClose E s w = Inl Bad_function_call"
  using assms by (simp add: Socket_onClose_def invoke_def)

theorem onClose_empty_callback_witness:
  "Socket_onClose \<lparr>e_kern = simK, e_call = \<lambda>_ _ _. Inr, e_acall = \<lambda>_ _ _. Inr, e_signal = \<lambda>_ w. w\<rparr> 0 ((Proactor_new simK (\<lambda>_ _. 0) (sim0 0 [] 0 []))
      \<lparr>toks := [Rt 0 \<mapsto> idle_token, Wt 0 \<mapsto> idle_token]\<rparr>) = Inl Bad_function_call"
  by (rule onClose_empty_callback [of _ _ idle_token idle_token]) (simp_all add: idle_token_def Token_new_def)

section \<open>Registration\<close>

text \<open>
The epoll build registers a socket for input and output and an acceptor for input, edge triggered, with one call, reports a failed call in the proactor's error, and refuses a handler without a descriptor without a call.
\<close>

theorem Epoll_register_asks:
  assumes "handle h w = Inr fd"
  shows "Epoll_register K h acc w =
    (if fd = -1 then Inr (False, w\<lparr>p_err := Error_set (p_err w) (-1) ''INVALID_SOCKET [%d]'' [FD (k_indet K)]\<rparr>)
     else case k_poll_add K (p_fd w) fd (if acc then 0x80000001 else 0x80000005) h (os w) of (r, en, k) \<Rightarrow>
       if r = -1 then Inr (False, w\<lparr>os := k, p_err := Error_set (p_err w) en ''epoll_ctl error [%d][%d][%s]''
                              [FD fd, FD en, FS (k_strerror K en)]\<rparr>)
       else Inr (True, w\<lparr>os := k\<rparr>))"
  using assms by (simp add: Epoll_register_def epoll_bits)

theorem Epoll_register_asks_witness:
  "Epoll_register simK (HSock 0) False (one_socket (sim0 0 [] 0 [])) =
     Inr (True, (one_socket (sim0 0 [] 0 []))\<lparr>os := (sim0 0 [] 0 [])\<lparr>s_reg := [(5, HSock 0)]\<rparr>\<rparr>)"
  by (subst Epoll_register_asks [where fd = 5]) (simp_all add: handle_def simK_sel sim0_def)

text \<open>
The kqueue build never asks for writability: the filter of every registration is the read filter, because the filters are negative numbers and the same one is combined with itself.
\<close>

theorem Kqueue_register_reads_only:
  assumes "handle h w = Inr fd" and "fd \<noteq> -1"
  shows "Kqueue_register K h acc w =
    (case k_kevent_change K (p_fd w) fd (-1) 33 (Some h) (os w) of (r, en, k) \<Rightarrow>
       if r = -1 then Inr (False, w\<lparr>os := k, p_err := Error_set (p_err w) en ''kevent error [%d][%d][%s]''
                              [FD fd, FD en, FS (k_strerror K en)]\<rparr>)
       else Inr (True, w\<lparr>os := k\<rparr>))"
  using assms by (simp add: Kqueue_register_def EVFILT_READ_def EV_ADD_def EV_CLEAR_def)

theorem Kqueue_register_reads_only_witness:
  "Kqueue_register simK (HSock 0) False (one_socket (sim0 0 [] 0 [])) =
     Inr (True, (one_socket (sim0 0 [] 0 []))\<lparr>os := (sim0 0 [] 0 [])\<lparr>s_reg := [(5, HSock 0)]\<rparr>\<rparr>)"
  by (subst Kqueue_register_reads_only [where fd = 5]) (simp_all add: handle_def simK_sel sim0_def)

section \<open>Listening and accepting\<close>

text \<open>
A listening socket that cannot be bound is reported with the number of the error, and its descriptor stays open in the acceptor.
\<close>

theorem listen_bind_fails:
  assumes "accs w a = Some x" and "k_socket K (os w) = (soc, en1, k1)" and "soc \<noteq> -1"
    and "k_reuseaddr K soc 0 k1 = (0, en2, k2)" and "SetNonBlock K soc True (a_err x) k2 = (True, e, k3)"
    and "k_bind K soc (MakeSockAddrIn K ip port) k3 = (r, en4, k4)" and "r \<noteq> 0"
  shows "\<exists>w' x'. Acceptor_listen reg K a ip port backlog c w = Inr (False, w') \<and> accs w' a = Some x' \<and>
    e_code (a_err x') = en4 \<and> a_soc x' = soc \<and> os w' = k4"
  using assms by (simp add: Acceptor_listen_def Acceptor_listen'_def acc_fail_def)

theorem listen_bind_fails_witness:
  "\<exists>w' x'. Acceptor_listen (Epoll_register simK) (simK\<lparr>k_bind := \<lambda>_ _ k. (-1, 98, k)\<rparr>) 0 None 9000 1 (0::nat)
     (Acceptor_ctor 0 (-1) (one_socket (sim0 0 [] 0 []))) = Inr (False, w') \<and> accs w' 0 = Some x' \<and>
    e_code (a_err x') = 98 \<and> a_soc x' = 3"
proof -
  have "\<exists>w' x'. Acceptor_listen (Epoll_register simK) (simK\<lparr>k_bind := \<lambda>_ _ k. (-1, 98, k)\<rparr>) 0 None 9000 1 (0::nat)
     (Acceptor_ctor 0 (-1) (one_socket (sim0 0 [] 0 []))) = Inr (False, w') \<and> accs w' 0 = Some x' \<and>
    e_code (a_err x') = 98 \<and> a_soc x' = 3 \<and> os w' = (sim0 0 [] 0 [])\<lparr>s_fds := [3, 0, 1, 2]\<rparr>"
    by (rule listen_bind_fails [where e = Error_new and ?en1.0 = 0 and ?en2.0 = 0 and ?k1.0 = "(sim0 0 [] 0 [])\<lparr>s_fds := [3, 0, 1, 2]\<rparr>"
          and ?k2.0 = "(sim0 0 [] 0 [])\<lparr>s_fds := [3, 0, 1, 2]\<rparr>" and ?k3.0 = "(sim0 0 [] 0 [])\<lparr>s_fds := [3, 0, 1, 2]\<rparr>" and r = "-1"
          and x = "\<lparr>a_soc = -1, a_cb = None, a_err = Error_new\<rparr>"])
      (simp_all add: Acceptor_ctor_def simK_def sim_open_def sim0_def new_fd_def SetNonBlock_def Let_def)
  then show ?thesis by blast
qed

text \<open>
A connection whose descriptor cannot be made non-blocking is lost: the call reports the error and returns no descriptor, and the accepted one is not closed.
\<close>

theorem accept_leaks:
  assumes "accs w a = Some x" and "k_accept K (a_soc x) (os w) = (soc, en, addr, k)" and "soc \<noteq> -1"
    and "k_getfl K soc k = (-1, en', k')"
  shows "\<exists>w' x'. Acceptor_accept K a want w = Inr (-1, None, w') \<and> os w' = k' \<and> accs w' a = Some x' \<and> e_code (a_err x') = en'"
  using assms by (simp add: Acceptor_accept_def SetNonBlock_def)

theorem accept_leaks_witness:
  "\<exists>w' x'. Acceptor_accept (simK\<lparr>k_getfl := \<lambda>_ k. (-1, 9, k)\<rparr>) 0 False
      (Acceptor_ctor 0 3 (one_socket (sim0 1 [] 0 []))) = Inr (-1, None, w') \<and> 3 \<in> set (s_fds (os w')) \<and>
      accs w' 0 = Some x' \<and> e_code (a_err x') = 9"
proof -
  obtain en addr k where k: "k_accept (simK\<lparr>k_getfl := \<lambda>_ k. (-1, 9, k)\<rparr>) 3 (sim0 1 [] 0 []) = (3, en, addr, k)" "3 \<in> set (s_fds k)"
    by (simp add: simK_def sim_accept_def sim0_def new_fd_def Let_def)
  show ?thesis
    using accept_leaks [of "Acceptor_ctor 0 3 (one_socket (sim0 1 [] 0 []))" 0 "\<lparr>a_soc = 3, a_cb = None, a_err = Error_new\<rparr>"
        "simK\<lparr>k_getfl := \<lambda>_ k. (-1, 9, k)\<rparr>" 3 en addr k 9 k False] k
    by (auto simp: Acceptor_ctor_def simK_def)
qed

section \<open>Errors\<close>

text \<open>
C29: The text of an error is the formatted text cut to what the buffer holds with its terminator, so no error text, however long its arguments, leaves the buffer.
\<close>

theorem Error_set_text:
  assumes "Error_ok e" and "NUL \<notin> set f" and "\<And>t. FS t \<in> set as \<Longrightarrow> NUL \<notin> set t"
  shows "Error_ok (Error_set e c f as) \<and> cstr (e_detail (Error_set e c f as)) = take (ERRBUFSIZE - 1) (printf f as) \<and>
    e_code (Error_set e c f as) = c"
  using assms cstr_Error_set printf_no_NUL by simp

theorem Error_set_text_witness:
  "cstr (e_detail (Error_set Error_new 11 ''recv fail [%d][%s]'' [FD 11, FS ''again''])) = ''recv fail [11][again]''"
  using Error_set_text [of Error_new "''recv fail [%d][%s]''" "[FD 11, FS ''again'']" 11]
  by (auto simp: char_of_def ERRBUFSIZE_def show_int_def show_nat.simps digit_char_def)

end
