(* ===== verification/MemoryPool.thy ===== *)
theory MemoryPool
  imports Prelude
begin

text \<open>
  The object pool of aio/unix/memorypool.h: \<open>pool_base\<close> keeps every block it got from \<open>malloc\<close>
  in \<open>_chunks\<close> and the objects that are not in use in \<open>_free\<close>; \<open>memory_pool<T>\<close> gives a class an
  \<open>operator new\<close> and \<open>operator delete\<close> over it. \<open>ENABLE_CHUNK\<close> with its \<open>CHUNK_SIZE\<close> is the
  first argument of the operations: \<open>None\<close> is the build without it. \<open>malloc\<close> and \<open>free\<close> are
  parameters, and a size is a \<open>size_t\<close> of 64 bits.
\<close>

section \<open>The code\<close>

record pool_base =
  p_chunks :: "ptr list"
  p_free :: "ptr list"

text \<open>What the allocator offers; \<open>h_block\<close> observes the size of a live block.\<close>

record 'k allocator =
  h_malloc :: "64 word \<Rightarrow> 'k \<Rightarrow> ptr \<times> 'k"
  h_free :: "ptr \<Rightarrow> 'k \<Rightarrow> 'k"
  h_block :: "'k \<Rightarrow> nat \<rightharpoonup> nat"

definition pool_new :: pool_base where
  "pool_new = \<lparr>p_chunks = [], p_free = []\<rparr>"

definition pool_acquire ::
  "nat option \<Rightarrow> 'k allocator \<Rightarrow> 64 word \<Rightarrow> pool_base \<times> 'k \<Rightarrow> ptr \<times> pool_base \<times> 'k" where
  "pool_acquire chunk H sz = (\<lambda>(p, k).
     if p_free p \<noteq> [] then (last (p_free p), p\<lparr>p_free := butlast (p_free p)\<rparr>, k)
     else case chunk of
         Some n \<Rightarrow> (case h_malloc H (sz * of_nat n) k of (ret, k) \<Rightarrow>
           (ret, p\<lparr>p_chunks := p_chunks p @ [ret],
                   p_free := p_free p @ map (\<lambda>i. ptr_add ret (uint (of_nat i * sz))) [1..<n]\<rparr>, k))
       | None \<Rightarrow> (case h_malloc H sz k of (ret, k) \<Rightarrow>
           (ret, p\<lparr>p_chunks := p_chunks p @ [ret]\<rparr>, k)))"

definition pool_release :: "ptr \<Rightarrow> pool_base \<times> 'k \<Rightarrow> pool_base \<times> 'k" where
  "pool_release x = (\<lambda>(p, k). (p\<lparr>p_free := p_free p @ [x]\<rparr>, k))"

definition pool_size :: "pool_base \<Rightarrow> nat" where
  "pool_size p = List.length (p_chunks p)"

definition free_size :: "pool_base \<Rightarrow> nat" where
  "free_size p = List.length (p_free p)"

definition pool_dtor :: "'k allocator \<Rightarrow> pool_base \<times> 'k \<Rightarrow> 'k" where
  "pool_dtor H = (\<lambda>(p, k). fold (h_free H) (p_chunks p) k)"

text \<open>\<open>operator new\<close> of \<open>memory_pool<T>\<close>: the failing assertion ends the program (\<open>None\<close>).\<close>

definition pool_new_object ::
  "64 word \<Rightarrow> nat option \<Rightarrow> 'k allocator \<Rightarrow> 64 word \<Rightarrow> pool_base \<times> 'k \<Rightarrow> (ptr \<times> pool_base \<times> 'k) option" where
  "pool_new_object sizeof_T chunk H sz s = (if sizeof_T = sz then Some (pool_acquire chunk H sz s) else None)"

definition pool_delete_object :: "ptr \<Rightarrow> pool_base \<times> 'k \<Rightarrow> pool_base \<times> 'k" where
  "pool_delete_object x s = pool_release x s"

section \<open>The contract of a pool of objects\<close>

datatype pool_op = New | Delete nat

text \<open>
  A client's run: \<open>Delete i\<close> gives back the \<open>i\<close>-th object it holds. The result is what it holds
  at the end and the state.
\<close>

fun pool_run :: "('s \<Rightarrow> ptr \<times> 's) \<Rightarrow> (ptr \<Rightarrow> 's \<Rightarrow> 's) \<Rightarrow> pool_op list \<Rightarrow> ptr list \<times> 's \<Rightarrow> ptr list \<times> 's" where
  "pool_run acq rel [] (L, s) = (L, s)"
| "pool_run acq rel (New # ops) (L, s) = (case acq s of (x, s) \<Rightarrow> pool_run acq rel ops (L @ [x], s))"
| "pool_run acq rel (Delete i # ops) (L, s) =
     (if i < List.length L then pool_run acq rel ops (take i L @ drop (Suc i) L, rel (L ! i) s)
      else pool_run acq rel ops (L, s))"

locale object_pool =
  fixes acq :: "'s \<Rightarrow> ptr \<times> 's" and rel :: "ptr \<Rightarrow> 's \<Rightarrow> 's" and good :: "ptr list \<Rightarrow> 's \<Rightarrow> bool"
  assumes acquired: "good L s \<Longrightarrow> acq s = (x, s') \<Longrightarrow> good (L @ [x]) s'"
    and released: "good (A @ x # B) s \<Longrightarrow> good (A @ B) (rel x s)"
begin

lemma run_good: "good L s \<Longrightarrow> pool_run acq rel ops (L, s) = (L', s') \<Longrightarrow> good L' s'"
proof (induction ops arbitrary: L s)
  case (Cons op ops)
  show ?case
  proof (cases op)
    case New
    obtain x s1 where "acq s = (x, s1)" by fastforce
    then show ?thesis using Cons.IH [OF acquired [OF Cons.prems(1)]] Cons.prems(2) New by simp
  next
    case (Delete i)
    then show ?thesis
      using Cons released [of "take i L" "L ! i" "drop (Suc i) L" s] id_take_nth_drop [of i L] by (auto split: if_splits)
  qed
qed simp

end

section \<open>The pool keeps the contract\<close>

text \<open>How many objects a block holds.\<close>

definition per_chunk :: "nat option \<Rightarrow> nat" where
  "per_chunk chunk = (case chunk of None \<Rightarrow> 1 | Some n \<Rightarrow> n)"

definition slots :: "nat \<Rightarrow> nat \<Rightarrow> ptr \<Rightarrow> ptr set" where
  "slots n sz c = (\<lambda>i. ptr_add c (int (i * sz))) ` {..<n}"

text \<open>A \<open>malloc\<close> that does not fail returns a fresh block of the size asked for.\<close>

definition malloc_law :: "'k allocator \<Rightarrow> bool" where
  "malloc_law H \<longleftrightarrow> (\<forall>n k c k'. h_malloc H n k = (c, k') \<longrightarrow>
     snd c = 0 \<and> h_block H k (fst c) = None \<and> h_block H k' = (h_block H k)(fst c \<mapsto> unat n))"

text \<open>
  The invariant: the objects in use and the free ones are the slots of the blocks, each exactly
  once, and the blocks are live and large enough.
\<close>

definition pool_ok :: "nat \<Rightarrow> nat \<Rightarrow> 'k allocator \<Rightarrow> ptr list \<Rightarrow> pool_base \<times> 'k \<Rightarrow> bool" where
  "pool_ok n sz H L = (\<lambda>(p, k).
     distinct (L @ p_free p) \<and> distinct (map fst (p_chunks p)) \<and>
     (\<forall>c\<in>set (p_chunks p). snd c = 0 \<and> h_block H k (fst c) = Some (n * sz)) \<and>
     set (L @ p_free p) = (\<Union>c\<in>set (p_chunks p). slots n sz c) \<and>
     List.length (L @ p_free p) = n * List.length (p_chunks p))"

text \<open>The sizes the pool is made for: an object is not empty and a block's size is a \<open>size_t\<close>.\<close>

definition pool_sizes :: "nat option \<Rightarrow> 64 word \<Rightarrow> bool" where
  "pool_sizes chunk sz \<longleftrightarrow> 0 < unat sz \<and> 0 < per_chunk chunk \<and> per_chunk chunk * unat sz < 2 ^ 64"

lemma slot_word:
  assumes "i < n" and "n * unat sz < 2 ^ 64" and "0 < unat (sz :: 64 word)"
  shows "uint (of_nat i * sz) = int (i * unat sz)"
proof -
  have "i * unat sz \<le> n * unat sz" using assms(1) by simp
  then have le: "i * unat sz < 2 ^ 64" using assms(2) by linarith
  have "i * 1 \<le> i * unat sz" using assms(3) by (intro mult_le_mono2) simp
  then have "i < 2 ^ 64" using le by linarith
  then have "unat (of_nat i * sz) = i * unat sz"
    using le by (simp add: unat_word_ariths unat_of_nat take_bit_nat_eq_self)
  then show ?thesis by (metis uint_nat)
qed

lemma acquire_new:
  assumes "p_free p = []" and "pool_sizes chunk sz" and "h_malloc H (sz * of_nat (per_chunk chunk)) k = (c, k')"
  shows "pool_acquire chunk H sz (p, k) = (c, p\<lparr>p_chunks := p_chunks p @ [c],
     p_free := map (\<lambda>i. ptr_add c (int (i * unat sz))) [1..<per_chunk chunk]\<rparr>, k')"
proof (cases chunk)
  case None
  then show ?thesis using assms by (simp add: pool_acquire_def per_chunk_def)
next
  case (Some n)
  have "map (\<lambda>i. ptr_add c (uint (of_nat i * sz))) [1..<n] = map (\<lambda>i. ptr_add c (int (i * unat sz))) [1..<n]"
    using slot_word [of _ n sz] assms(2) Some by (auto simp: pool_sizes_def per_chunk_def)
  then show ?thesis using assms Some by (simp add: pool_acquire_def per_chunk_def)
qed

lemma block_size:
  assumes "pool_sizes chunk sz"
  shows "unat (sz * of_nat (per_chunk chunk)) = per_chunk chunk * unat sz"
proof -
  have p: "0 < unat sz" "per_chunk chunk * unat sz < 2 ^ 64" using assms by (auto simp: pool_sizes_def)
  then have "per_chunk chunk \<le> per_chunk chunk * unat sz" by simp
  then have "per_chunk chunk < 2 ^ 64" using p(2) by (rule le_less_trans)
  then show ?thesis using p(2) by (simp add: unat_word_ariths unat_of_nat take_bit_nat_eq_self mult.commute)
qed

lemma slots_split: "0 < n \<Longrightarrow> slots n sz c = insert c ((\<lambda>i. ptr_add c (int (i * sz))) ` {1..<n})"
proof -
  assume "0 < n"
  then have "{..<n} = insert 0 {1..<n}" by auto
  then show ?thesis by (simp add: slots_def)
qed

lemma slots_block: "x \<in> slots n sz c \<Longrightarrow> fst x = fst c"
  by (auto simp: slots_def)

lemma slots_distinct: "0 < sz \<Longrightarrow> distinct (map (\<lambda>i. ptr_add c (int (i * sz))) is) = distinct is"
  by (auto simp: distinct_map inj_on_def ptr_add_def)

lemma pool_okD:
  assumes "pool_ok n sz H L (p, k)"
  shows "distinct (L @ p_free p)" and "distinct (map fst (p_chunks p))"
    and "c \<in> set (p_chunks p) \<Longrightarrow> snd c = 0 \<and> h_block H k (fst c) = Some (n * sz)"
    and "x \<in> set L \<Longrightarrow> \<exists>c\<in>set (p_chunks p). x \<in> slots n sz c"
    and "List.length (L @ p_free p) = n * List.length (p_chunks p)"
  using assms by (auto simp: pool_ok_def)

lemma slots_inside:
  assumes "x \<in> slots n sz c"
  shows "snd c \<le> snd x \<and> snd x + int sz \<le> snd c + int (n * sz)"
proof -
  obtain i where i: "i < n" "x = ptr_add c (int (i * sz))" using assms by (auto simp: slots_def)
  have "Suc i * sz \<le> n * sz" using i(1) by (intro mult_le_mono1) simp
  then have "int (i * sz) + int sz \<le> int (n * sz)" by (simp flip: of_nat_add of_nat_mult add: add.commute)
  then show ?thesis using i(2) by (simp add: ptr_add_def)
qed

lemma pool_ok_new: "pool_ok n sz H [] (pool_new, k)"
  by (simp add: pool_ok_def pool_new_def)

lemma release_ok: "pool_ok n sz H (A @ x # B) s \<Longrightarrow> pool_ok n sz H (A @ B) (pool_release x s)"
  by (auto simp: pool_ok_def pool_release_def split: prod.splits)

lemma acquire_reuse_ok:
  assumes "pool_ok n (unat sz) H L (p, k)" and "p_free p \<noteq> []" and "pool_acquire chunk H sz (p, k) = (x, s')"
  shows "pool_ok n (unat sz) H (L @ [x]) s'"
proof -
  obtain F y where F: "p_free p = F @ [y]" using assms(2) by (metis append_butlast_last_id)
  then have "x = y" "s' = (p\<lparr>p_free := F\<rparr>, k)" using assms(3) by (auto simp: pool_acquire_def)
  then show ?thesis using assms(1) F by (auto simp: pool_ok_def)
qed

lemma acquire_fresh_ok:
  assumes ok: "pool_ok (per_chunk chunk) (unat sz) H L (p, k)" and e: "p_free p = []"
    and H: "malloc_law H" and z: "pool_sizes chunk sz" and a: "pool_acquire chunk H sz (p, k) = (x, s')"
  shows "pool_ok (per_chunk chunk) (unat sz) H (L @ [x]) s'"
proof -
  let ?n = "per_chunk chunk" and ?slot = "\<lambda>i. ptr_add x (int (i * unat sz))"
  obtain c k' where m: "h_malloc H (sz * of_nat ?n) k = (c, k')" by fastforce
  have s': "x = c" "s' = (p\<lparr>p_chunks := p_chunks p @ [c], p_free := map ?slot [1..<?n]\<rparr>, k')"
    using a acquire_new [OF e z m] by auto
  have c: "snd c = 0" "h_block H k (fst c) = None" "h_block H k' = (h_block H k)(fst c \<mapsto> ?n * unat sz)"
    using H m block_size [OF z] unfolding malloc_law_def by (metis, metis, metis)
  have n: "0 < ?n" "0 < unat sz" using z by (simp_all add: pool_sizes_def)
  have old: "distinct L" "distinct (map fst (p_chunks p))" "set L = (\<Union>c\<in>set (p_chunks p). slots ?n (unat sz) c)"
    "List.length L = ?n * List.length (p_chunks p)"
    and chunks: "\<And>d. d \<in> set (p_chunks p) \<Longrightarrow> snd d = 0 \<and> h_block H k (fst d) = Some (?n * unat sz)"
    using ok e by (auto simp: pool_ok_def)
  have new: "fst d \<noteq> fst c" if "d \<in> set (p_chunks p)" for d using chunks [OF that] c(2) by auto
  have "[0..<?n] = 0 # [1..<?n]" using n(1) by (simp add: upt_conv_Cons)
  then have xs: "map ?slot [0..<?n] = x # map ?slot [1..<?n]" by simp
  have set': "set (x # map ?slot [1..<?n]) = slots ?n (unat sz) c"
    unfolding xs [symmetric] by (auto simp: slots_def s'(1))
  have "distinct (x # map ?slot [1..<?n])" unfolding xs [symmetric] using n(2) by (simp only: slots_distinct distinct_upt)
  moreover have "y \<notin> set (x # map ?slot [1..<?n])" if "y \<in> set L" for y
  proof
    assume "y \<in> set (x # map ?slot [1..<?n])"
    then have y: "fst y = fst c" unfolding set' by (rule slots_block)
    obtain d where "d \<in> set (p_chunks p)" "y \<in> slots ?n (unat sz) d" using \<open>y \<in> set L\<close> unfolding old(3) by blast
    then show False using new slots_block y by metis
  qed
  ultimately have "distinct (L @ x # map ?slot [1..<?n])" using old(1) unfolding distinct_append by blast
  moreover have "set (L @ x # map ?slot [1..<?n]) = (\<Union>d\<in>set (p_chunks p @ [c]). slots ?n (unat sz) d)"
    using old(3) set' by (simp add: Un_commute)
  moreover have "\<forall>d\<in>set (p_chunks p @ [c]). snd d = 0 \<and> h_block H k' (fst d) = Some (?n * unat sz)"
    using chunks new c by auto
  moreover have "List.length (L @ x # map ?slot [1..<?n]) = ?n * List.length (p_chunks p @ [c])"
    using old(4) n(1) by simp
  moreover have "fst c \<notin> fst ` set (p_chunks p)" using new by (metis imageE)
  then have "distinct (map fst (p_chunks p @ [c]))" using old(2) by simp
  ultimately show ?thesis unfolding pool_ok_def s'(2) by simp
qed

text \<open>Every build of the pool keeps the contract.\<close>

definition pool_good ::
  "nat option \<Rightarrow> 64 word \<Rightarrow> 'k allocator \<Rightarrow> ptr list \<Rightarrow> pool_base \<times> 'k \<Rightarrow> bool" where
  "pool_good chunk sz H L s \<longleftrightarrow> malloc_law H \<and> pool_sizes chunk sz \<and> pool_ok (per_chunk chunk) (unat sz) H L s"

interpretation pool: object_pool "pool_acquire chunk H sz" pool_release "pool_good chunk sz H"
  for chunk :: "nat option" and H :: "'k allocator" and sz :: "64 word"
proof
  show "pool_good chunk sz H (L @ [x]) s'" if "pool_good chunk sz H L s" "pool_acquire chunk H sz s = (x, s')" for L s x s'
    using that acquire_reuse_ok [of _ sz H L] acquire_fresh_ok [of chunk sz H L]
    unfolding pool_good_def by (cases s) metis
  show "pool_good chunk sz H (A @ B) (pool_release x s)" if "pool_good chunk sz H (A @ x # B) s" for A x B s
    using that release_ok unfolding pool_good_def by blast
qed

text \<open>What the pool does to the heap: it only adds its own blocks.\<close>

definition pool_heap :: "'k allocator \<Rightarrow> 'k \<Rightarrow> pool_base \<times> 'k \<Rightarrow> bool" where
  "pool_heap H k0 = (\<lambda>(p, k).
     (\<forall>b. b \<notin> fst ` set (p_chunks p) \<longrightarrow> h_block H k b = h_block H k0 b) \<and>
     (\<forall>b\<in>fst ` set (p_chunks p). h_block H k0 b = None))"

lemma acquire_heap:
  assumes "pool_good chunk sz H L s" and "pool_heap H k0 s" and "pool_acquire chunk H sz s = (x, s')"
  shows "pool_heap H k0 s'"
proof -
  obtain p k where s: "s = (p, k)" by fastforce
  show ?thesis
  proof (cases "p_free p = []")
    case True
    obtain c k' where m: "h_malloc H (sz * of_nat (per_chunk chunk)) k = (c, k')" by fastforce
    have c: "h_block H k (fst c) = None" "h_block H k' = (h_block H k)(fst c \<mapsto> unat (sz * of_nat (per_chunk chunk)))"
      using assms(1) m unfolding pool_good_def malloc_law_def by (metis, metis)
    have "s' = (p\<lparr>p_chunks := p_chunks p @ [c],
        p_free := map (\<lambda>i. ptr_add c (int (i * unat sz))) [1..<per_chunk chunk]\<rparr>, k')"
      using assms(1,3) acquire_new [OF True _ m] unfolding s pool_good_def by (metis prod.inject)
    moreover have "h_block H k0 (fst c) = None"
      using assms(2) c(1) unfolding s pool_heap_def by (cases "fst c \<in> fst ` set (p_chunks p)") auto
    ultimately show ?thesis using assms(2) c unfolding s pool_heap_def by auto
  next
    case False
    then have "s' = (p\<lparr>p_free := butlast (p_free p)\<rparr>, k)" using assms(3) unfolding s by (simp add: pool_acquire_def)
    then show ?thesis using assms(2) unfolding s pool_heap_def by simp
  qed
qed

interpretation owner: object_pool "pool_acquire chunk H sz" pool_release "\<lambda>L s. pool_good chunk sz H L s \<and> pool_heap H k0 s"
  for chunk :: "nat option" and H :: "'k allocator" and sz :: "64 word" and k0 :: 'k
proof
  show "pool_good chunk sz H (L @ [x]) s' \<and> pool_heap H k0 s'"
    if "pool_good chunk sz H L s \<and> pool_heap H k0 s" "pool_acquire chunk H sz s = (x, s')" for L s x s'
    using that pool.acquired [of chunk sz H L s x s'] acquire_heap [of chunk sz H L s k0 x s'] by simp
  show "pool_good chunk sz H (A @ B) (pool_release x s) \<and> pool_heap H k0 (pool_release x s)"
    if "pool_good chunk sz H (A @ x # B) s \<and> pool_heap H k0 s" for A x B s
    using that pool.released [of chunk sz H A x B s] by (cases s) (simp add: pool_heap_def pool_release_def)
qed

lemma run_from_new:
  assumes "malloc_law H" and "pool_sizes chunk sz"
    and "pool_run (pool_acquire chunk H sz) pool_release ops ([], (pool_new, k)) = (L, s)"
  shows "pool_good chunk sz H L s \<and> pool_heap H k s"
  by (rule owner.run_good [OF _ assms(3)])
    (use assms(1,2) in \<open>simp add: pool_good_def pool_ok_new, simp add: pool_heap_def pool_new_def\<close>)

section \<open>Properties\<close>

text \<open>An allocator to run the pool on: the heap is the list of the blocks handed out, \<open>None\<close> once freed.\<close>

definition list_heap :: "nat option list allocator" where
  "list_heap = \<lparr>h_malloc = \<lambda>n k. ((List.length k, 0), k @ [Some (unat n)]),
     h_free = \<lambda>p k. k[fst p := None], h_block = \<lambda>k b. if b < List.length k then k ! b else None\<rparr>"

lemma list_heap_law: "malloc_law list_heap"
  by (auto simp: malloc_law_def list_heap_def fun_eq_iff nth_append)

lemma slots_apart:
  assumes "x \<in> slots n sz c" and "y \<in> slots n sz d" and "x \<noteq> y"
  shows "fst x \<noteq> fst y \<or> int sz \<le> \<bar>snd x - snd y\<bar> \<or> snd c \<noteq> snd d"
proof -
  obtain i j where ij: "x = ptr_add c (int (i * sz))" "y = ptr_add d (int (j * sz))" using assms(1,2) by (auto simp: slots_def)
  show ?thesis
  proof (cases "fst c = fst d \<and> snd c = snd d")
    case True
    then have "c = d" by (simp add: prod_eq_iff)
    then have "i \<noteq> j" using ij assms(3) by auto
    then have "1 \<le> \<bar>int i - int j\<bar>" by linarith
    then have "1 * int sz \<le> \<bar>int i - int j\<bar> * int sz" by (intro mult_right_mono) simp_all
    also have "... = \<bar>(int i - int j) * int sz\<bar>" by (simp add: abs_mult)
    also have "(int i - int j) * int sz = snd x - snd y" using ij True by (simp add: ptr_add_def algebra_simps)
    finally show ?thesis by simp
  next
    case False
    then show ?thesis using ij by auto
  qed
qed


lemma list_pool_sizes: "pool_sizes (Some 3) 24"
  by (simp add: pool_sizes_def per_chunk_def)




definition free_law :: "'k allocator \<Rightarrow> bool" where
  "free_law H \<longleftrightarrow> (\<forall>c k. snd c = 0 \<longrightarrow> h_block H (h_free H c k) = (h_block H k)(fst c := None))"

lemma free_all:
  "free_law H \<Longrightarrow> \<forall>c\<in>set cs. snd c = 0 \<Longrightarrow>
   h_block H (fold (h_free H) cs k) b = (if b \<in> fst ` set cs then None else h_block H k b)"
  by (induction cs arbitrary: k) (auto simp: free_law_def)

text \<open>
C32: The destructor gives back exactly the blocks the pool took: afterwards the heap has the blocks it had before the pool was made, whatever was allocated in between, and no block is freed twice.
\<close>

theorem pool_dtor_restores:
  assumes "malloc_law H" and "free_law H" and "pool_sizes chunk sz"
    and "pool_run (pool_acquire chunk H sz) pool_release ops ([], (pool_new, k)) = (L, (p, k'))"
  shows "h_block H (pool_dtor H (p, k')) = h_block H k \<and> distinct (map fst (p_chunks p))"
proof -
  have g: "pool_ok (per_chunk chunk) (unat sz) H L (p, k')" "pool_heap H k (p, k')"
    using run_from_new [OF assms(1,3,4)] by (simp_all add: pool_good_def)
  have "\<forall>c\<in>set (p_chunks p). snd c = 0" using pool_okD(3) [OF g(1)] by blast
  from free_all [OF assms(2) this] g(2) pool_okD(2) [OF g(1)] show ?thesis
    by (auto simp: pool_dtor_def pool_heap_def fun_eq_iff)
qed

theorem pool_dtor_restores_witness:
  "\<exists>L p k. pool_run (pool_acquire (Some 3) list_heap 24) pool_release [New] ([], (pool_new, [Some 8])) = (L, (p, k)) \<and>
     h_block list_heap k 1 = Some 72 \<and> h_block list_heap (pool_dtor list_heap (p, k)) = h_block list_heap [Some 8]"
proof -
  obtain L p k where r: "pool_run (pool_acquire (Some 3) list_heap 24) pool_release [New] ([], (pool_new, [Some 8])) = (L, (p, k))"
    and k: "k = [Some 8, Some 72]"
    by (simp add: pool_acquire_def pool_new_def list_heap_def)
  have "free_law list_heap" by (auto simp: free_law_def list_heap_def fun_eq_iff nth_list_update)
  from pool_dtor_restores [OF list_heap_law this list_pool_sizes r] r k show ?thesis by (auto simp: list_heap_def)
qed

text \<open>
When \<open>malloc\<close> fails, the build with chunks does not notice: it hands out null, and then as further objects addresses computed from null.
\<close>

theorem acquire_null_chunk:
  assumes "p_free p = []" and "1 < n" and "h_malloc H (sz * of_nat n) k = ((0, 0), k')"
  shows "\<exists>s. pool_acquire (Some n) H sz (p, k) = ((0, 0), s) \<and>
     fst (pool_acquire (Some n) H sz s) = (0, uint (of_nat (n - 1) * sz))"
proof -
  have "[1..<n] = [1..<n - 1] @ [n - 1]" using assms(2) upt_Suc_append [of 1 "n - 1"] by simp
  then show ?thesis using assms by (simp add: pool_acquire_def ptr_add_def)
qed

theorem acquire_null_chunk_witness:
  "fst (pool_acquire (Some 100) (list_heap\<lparr>h_malloc := \<lambda>_ k. ((0, 0), k)\<rparr>) 24
     (snd (pool_acquire (Some 100) (list_heap\<lparr>h_malloc := \<lambda>_ k. ((0, 0), k)\<rparr>) 24 (pool_new, [])))) = (0, 2376)"
  using acquire_null_chunk [of pool_new 100 "list_heap\<lparr>h_malloc := \<lambda>_ k. ((0, 0), k)\<rparr>" 24 "[]" "[]"]
  by (auto simp: pool_new_def)

end
