(* ===== verification/CText.thy ===== *)
theory CText
  imports Prelude
begin

text \<open>
  C text processing that both versions of the logger use: formatted writes into the middle of a
  character array, \<open>strcat\<close> with its bounds made visible, \<open>strrchr\<close> and padded decimals. A store
  past the end of an array is the fault \<open>Buffer_overflow\<close>, and the call of the invalid parameter
  handler by the bounds-checked functions of the Windows runtime is \<open>Invalid_parameter\<close>.
\<close>

datatype text_fault = Buffer_overflow | Invalid_parameter

section \<open>Decimals\<close>

text \<open>The conversion \<open>%0wd\<close>: the sign counts as a digit of the width.\<close>

definition pad0 :: "nat \<Rightarrow> int \<Rightarrow> string" where
  "pad0 w i =
     (let s = show_nat (nat \<bar>i\<bar>)
      in if i < 0 then CHR ''-'' # replicate (w - 1 - List.length s) (CHR ''0'') @ s
         else replicate (w - List.length s) (CHR ''0'') @ s)"

lemma pad0_no_NUL: "NUL \<notin> set (pad0 w i)"
proof -
  have "NUL \<noteq> CHR ''-''" "NUL \<noteq> CHR ''0''" by (simp_all add: char_of_def)
  then show ?thesis using show_nat_no_NUL by (auto simp: pad0_def Let_def)
qed

section \<open>Character arrays\<close>

text \<open>A new array holds unspecified characters; the model takes them from \<open>g\<close>.\<close>

definition fresh_buf :: "(nat \<Rightarrow> char) \<Rightarrow> nat \<Rightarrow> char list" where
  "fresh_buf g n = map g [0..<n]"

text \<open>\<open>snprintf(buf + off, n, ...)\<close> of the text \<open>s\<close>.\<close>

definition snprintf_at :: "char list \<Rightarrow> nat \<Rightarrow> nat \<Rightarrow> string \<Rightarrow> char list" where
  "snprintf_at b off n s = take off b @ vsnprintf (drop off b) n s"

text \<open>\<open>strlen(buf + off)\<close>.\<close>

definition strlen_at :: "char list \<Rightarrow> nat \<Rightarrow> nat" where
  "strlen_at b off = List.length (cstr (drop off b))"

text \<open>\<open>strcat(buf + off, s)\<close> stores \<open>s\<close> and a terminator where the text in the array ends.\<close>

definition strcat_at :: "char list \<Rightarrow> nat \<Rightarrow> string \<Rightarrow> text_fault + char list" where
  "strcat_at b off s =
     (let e = off + strlen_at b off
      in if e + List.length s < List.length b
         then Inr (take e b @ s @ [NUL] @ drop (e + List.length s + 1) b)
         else Inl Buffer_overflow)"

text \<open>\<open>strcat_s(buf + off, n, s)\<close> does not store past \<open>n\<close> but calls the handler.\<close>

definition strcat_s_at :: "char list \<Rightarrow> nat \<Rightarrow> nat \<Rightarrow> string \<Rightarrow> text_fault + char list" where
  "strcat_s_at b off n s =
     (if strlen_at b off + List.length s < n then strcat_at b off s else Inl Invalid_parameter)"

lemma length_fresh_buf [simp]: "List.length (fresh_buf g n) = n"
  by (simp add: fresh_buf_def)

lemma snprintf_at_0: "snprintf_at b 0 n s = vsnprintf b n s"
  by (simp add: snprintf_at_def)

lemma vsnprintf_prefix:
  "0 < n \<Longrightarrow> vsnprintf b n s = take (n - 1) s @ NUL # drop (List.length (take (n - 1) s) + 1) b"
  by (simp add: vsnprintf_def Let_def)

lemma strlen_prefix: "NUL \<notin> set s \<Longrightarrow> strlen_at (s @ NUL # r) 0 = List.length s"
  by (simp add: strlen_at_def)

text \<open>Appending at the end of a text of the array.\<close>

lemma snprintf_at_end:
  assumes "0 < n"
  shows "\<exists>r'. snprintf_at (s @ NUL # r) (List.length s) n t = s @ take (n - 1) t @ NUL # r' \<and>
     (List.length s + n \<le> List.length (s @ NUL # r) \<longrightarrow>
        List.length (s @ take (n - 1) t @ NUL # r') = List.length (s @ NUL # r))"
  using assms by (rule_tac exI [of _ "drop (List.length (take (n - 1) t) + 1) (NUL # r)"])
    (auto simp: snprintf_at_def vsnprintf_prefix)

lemma strcat_at_end:
  assumes "NUL \<notin> set s" and "NUL \<notin> set t"
  shows "strcat_at (s @ t @ NUL # r) (List.length s) u =
    (if List.length u \<le> List.length r then Inr (s @ t @ u @ NUL # drop (List.length u) r) else Inl Buffer_overflow)"
proof -
  have "strlen_at (s @ t @ NUL # r) (List.length s) = List.length t" using assms(2) by (simp add: strlen_at_def)
  then show ?thesis by (auto simp: strcat_at_def Let_def less_Suc_eq_le)
qed

section \<open>Searching\<close>

text \<open>\<open>strrchr\<close>: the index of the last occurrence.\<close>

definition strrchr :: "string \<Rightarrow> char \<Rightarrow> nat option" where
  "strrchr s c = (if c \<in> set s then Some (List.length s - 1 - List.length (takeWhile (\<lambda>d. d \<noteq> c) (rev s))) else None)"

lemma strrchr_split: "c \<notin> set t \<Longrightarrow> strrchr (s @ c # t) c = Some (List.length s)"
  by (simp add: strrchr_def takeWhile_append)

lemma strrchr_None: "strrchr s c = None \<longleftrightarrow> c \<notin> set s"
  by (simp add: strrchr_def)

lemma strrchr_SomeE:
  assumes "strrchr s c = Some i"
  obtains d f where "s = d @ c # f" and "c \<notin> set f" and "i = List.length d"
proof -
  have "c \<in> set s" using assms by (simp add: strrchr_def split: if_splits)
  then obtain d f where s: "s = d @ c # f" "c \<notin> set f" using split_list_last by metis
  then show thesis using strrchr_split [of c f d] assms that by simp
qed

section \<open>Building a line\<close>

text \<open>\<open>_snprintf_s\<close> and \<open>_vsnprintf_s\<close> with \<open>_TRUNCATE\<close>: an empty array is an invalid parameter.\<close>

definition snprintf_s_at :: "char list \<Rightarrow> nat \<Rightarrow> nat \<Rightarrow> string \<Rightarrow> text_fault + char list" where
  "snprintf_s_at b off n s = (if n = 0 then Inl Invalid_parameter else Inr (snprintf_at b off n s))"

text \<open>
  Both versions of the logger make a line in the same way: the header at the front of the array,
  the message into what is left but one byte, and a line feed. They differ in the functions they
  call, whose contract is this: they behave like \<open>snprintf\<close> and \<open>strcat\<close> when there is room, and
  the line feed cannot be had when the header fills the array.
\<close>

locale line_maker =
  fixes fmt :: "char list \<Rightarrow> nat \<Rightarrow> nat \<Rightarrow> string \<Rightarrow> text_fault + char list"
    and cat :: "char list \<Rightarrow> nat \<Rightarrow> text_fault + char list" and e :: text_fault
  assumes fmt_room: "0 < n \<Longrightarrow> fmt b off n s = Inr (snprintf_at b off n s)"
    and cat_room: "off + strlen_at b off + 1 < List.length b \<Longrightarrow> cat b off = strcat_at b off [CHR 0x0A]"
    and full: "off + 1 = List.length b \<Longrightarrow> strlen_at b off = 0 \<Longrightarrow>
      bindS (fmt b off 0 s) (\<lambda>b. cat b (off + strlen_at b off)) = Inl e"
begin

lemma header_end:
  assumes "NUL \<notin> set h" and "0 < N"
  shows "strlen_at (snprintf_at b 0 N h) 0 = List.length (take (N - 1) h)"
proof -
  have "NUL \<notin> set (take (N - 1) h)" using assms(1) by (meson in_set_takeD)
  then show ?thesis using assms(2) by (simp add: snprintf_at_0 vsnprintf_prefix strlen_prefix)
qed

lemma line:
  assumes h: "NUL \<notin> set h" and m: "NUL \<notin> set m" and b: "List.length b = N" and N: "0 < N"
  defines "b1 \<equiv> snprintf_at b 0 N h"
  shows "bindS (fmt b1 (strlen_at b1 0) (N - strlen_at b1 0 - 1) m)
      (\<lambda>b2. let n = strlen_at b1 0 + strlen_at b2 (strlen_at b1 0) in bindS (cat b2 n) (\<lambda>b3. k (take (n + 1) b3))) =
    (if List.length h + 1 < N then k (h @ take (N - List.length h - 2) m @ [CHR 0x0A]) else Inl e)"
proof -
  let ?h = "take (N - 1) h"
  define r where "r = drop (List.length ?h + 1) b"
  have b1: "b1 = ?h @ NUL # r" using N by (simp add: b1_def snprintf_at_0 vsnprintf_prefix r_def)
  have n1: "strlen_at b1 0 = List.length ?h" unfolding b1_def by (rule header_end [OF h N])
  have len: "List.length b1 = N" using b N by (simp add: b1 r_def)
  show ?thesis
  proof (cases "List.length h + 1 < N")
    case True
    then have hh: "?h = h" by simp
    let ?m = "take (N - List.length h - 2) m"
    have nm: "NUL \<notin> set ?m" using m by (meson in_set_takeD)
    have pos: "0 < N - List.length h - 1" using True by simp
    have le: "List.length h + (N - List.length h - 1) \<le> List.length b1" using len True by simp
    obtain r' where r': "snprintf_at b1 (List.length h) (N - List.length h - 1) m = h @ ?m @ NUL # r'"
      "List.length (h @ ?m @ NUL # r') = N"
      using snprintf_at_end [OF pos, of h r m] le len hh unfolding b1 by auto
    have n2: "List.length h + strlen_at (h @ ?m @ NUL # r') (List.length h) = List.length (h @ ?m)"
      using nm by (simp add: strlen_at_def)
    have "1 \<le> List.length r'" using r'(2) True by (simp add: min_def split: if_splits)
    then have nr: "1 \<le> List.length r'" "r' \<noteq> []" by auto
    have "strlen_at (h @ ?m @ NUL # r') (List.length (h @ ?m)) = 0" by (simp add: strlen_at_def cstr_def)
    then have "cat (h @ ?m @ NUL # r') (List.length (h @ ?m)) = Inr (h @ ?m @ [CHR 0x0A] @ NUL # drop 1 r')"
      using cat_room [of "List.length (h @ ?m)" "h @ ?m @ NUL # r'"] strcat_at_end [of "h @ ?m" "[]" r' "[CHR 0x0A]"] h nm nr
      by simp
    moreover have "take (List.length (h @ ?m) + 1) (h @ ?m @ [CHR 0x0A] @ x) = h @ ?m @ [CHR 0x0A]" for x
    proof -
      have "List.length (h @ ?m) + 1 = List.length (h @ ?m @ [CHR 0x0A])" by simp
      then show ?thesis by (metis append.assoc append_eq_conv_conj)
    qed
    ultimately show ?thesis using True n1 n2 hh fmt_room [OF pos] r'(1) by (simp add: Let_def del: length_append)
  next
    case False
    then have n: "List.length ?h + 1 = N" using N by simp
    then have "r = []" using len unfolding b1 by simp
    then have "strlen_at b1 (List.length ?h) = 0" unfolding b1 by (simp add: strlen_at_def cstr_def)
    then have f: "bindS (fmt b1 (List.length ?h) 0 m) (\<lambda>b. cat b (List.length ?h + strlen_at b (List.length ?h))) = Inl e"
      using full [of "List.length ?h" b1 m] n len by simp
    have "N - List.length ?h - 1 = 0" using n by simp
    moreover have "bindS (fmt b1 (List.length ?h) 0 m) (\<lambda>b2. bindS (cat b2 (List.length ?h + strlen_at b2 (List.length ?h))) (q b2)) = Inl e" for q
      using f by (cases "fmt b1 (List.length ?h) 0 m") (auto simp: bindS_def split: sum.splits)
    ultimately show ?thesis using False n1 by (simp add: Let_def)
  qed
qed

end

end
