(* ===== verification/Logger.thy ===== *)
theory Logger
  imports CText
begin

text \<open>
  The logger of aio/cpl/cpl_log.h, POSIX version: a level filter, a line built in a character
  array of \<open>_logBufSize\<close> bytes, one \<open>write\<close> per line, and rotation of the log file by size, day
  or hour. The calls of the C library and the system are the parameter \<open>logos\<close>; what is written
  to \<open>stderr\<close> goes through \<open>g_eprint\<close>. The object that a method works on and the state of the
  system are passed as a pair.
\<close>

section \<open>Data\<close>

definition LEVEL_TRACE :: int where "LEVEL_TRACE = 0"
definition LEVEL_DEBUG :: int where "LEVEL_DEBUG = 1"
definition LEVEL_INFO :: int where "LEVEL_INFO = 2"
definition LEVEL_ERROR :: int where "LEVEL_ERROR = 3"
definition BUFFER_SIZE :: "64 word" where "BUFFER_SIZE = 8192"
definition MAX_FILENAME :: nat where "MAX_FILENAME = 256"

record tm =
  tm_year :: int
  tm_mon :: int
  tm_mday :: int
  tm_hour :: int
  tm_min :: int
  tm_sec :: int

record logger =
  l_logFile :: string
  l_fd :: int
  l_level :: int
  l_rotateSize :: "64 word"
  l_logBufSize :: "64 word"
  l_enableLock :: bool
  l_enableTid :: bool
  l_daily :: bool
  l_hourly :: bool
  l_prev :: tm

text \<open>
  \<open>g_stat\<close> gives whether the path is a directory and its size, or nothing and the error number;
  \<open>g_open\<close> gives the descriptor and the error number.
\<close>

record 'k logos =
  g_now :: "'k \<Rightarrow> tm \<times> 'k"
  g_getpid :: int
  g_self :: nat
  g_open :: "string \<Rightarrow> 'k \<Rightarrow> int \<times> int \<times> 'k"
  g_close :: "int \<Rightarrow> 'k \<Rightarrow> 'k"
  g_write :: "int \<Rightarrow> string \<Rightarrow> 'k \<Rightarrow> 'k"
  g_stat :: "string \<Rightarrow> 'k \<Rightarrow> (bool \<times> int) option \<times> int"
  g_rename :: "string \<Rightarrow> string \<Rightarrow> 'k \<Rightarrow> 'k"
  g_realpath :: "string \<Rightarrow> 'k \<Rightarrow> string option"
  g_mutex_init :: "'k \<Rightarrow> int \<times> 'k"
  g_mutex_destroy :: "'k \<Rightarrow> int \<times> 'k"
  g_mutex_lock :: "'k \<Rightarrow> int \<times> 'k"
  g_mutex_unlock :: "'k \<Rightarrow> int \<times> 'k"
  g_strerror :: "int \<Rightarrow> string"
  g_eprint :: "string \<Rightarrow> 'k \<Rightarrow> 'k"
  g_junk :: "nat \<Rightarrow> char"

type_synonym 'k lstate = "logger \<times> 'k"

definition logger_new :: logger where
  "logger_new =
     \<lparr>l_logFile = [], l_fd = 1, l_level = LEVEL_DEBUG, l_rotateSize = 0, l_logBufSize = BUFFER_SIZE,
      l_enableLock = False, l_enableTid = False, l_daily = False, l_hourly = False,
      l_prev = \<lparr>tm_year = -1, tm_mon = -1, tm_mday = -1, tm_hour = -1, tm_min = -1, tm_sec = -1\<rparr>\<rparr>"

section \<open>Opening and closing\<close>

text \<open>The calls of the mutex functions print a message when they fail, and go on.\<close>

definition mutex_call :: "'k logos \<Rightarrow> string \<Rightarrow> ('k \<Rightarrow> int \<times> 'k) \<Rightarrow> 'k \<Rightarrow> 'k" where
  "mutex_call G text f k =
     (case f k of (ret, k) \<Rightarrow>
      if ret \<noteq> 0 then g_eprint G (printf text [FD ret, FS (g_strerror G ret)]) k else k)"

definition logger_init_fd ::
  "'k logos \<Rightarrow> int \<Rightarrow> int \<Rightarrow> 64 word \<Rightarrow> 64 word \<Rightarrow> bool \<Rightarrow> bool \<Rightarrow> bool \<Rightarrow> bool \<Rightarrow> 'k lstate \<Rightarrow> bool \<times> 'k lstate" where
  "logger_init_fd G fd level rotateSize logBufSize enableLock enableTid daily hourly = (\<lambda>(l, k).
     let l = l\<lparr>l_fd := fd, l_level := level, l_rotateSize := rotateSize, l_logBufSize := logBufSize,
               l_enableLock := enableLock, l_enableTid := enableTid, l_daily := daily, l_hourly := hourly\<rparr>
     in if l_enableLock l
        then (case g_mutex_init G k of (ret, k) \<Rightarrow>
          if ret \<noteq> 0
          then (False, l, g_eprint G (printf ''::pthread_mutex_init failed [%d][%s]'' [FD ret, FS (g_strerror G ret)] @ [CHR 0x0A]) k)
          else (True, l, k))
        else (True, l, k))"

text \<open>
  \<open>_getAbsFilePath\<close>: the directory part goes into an array of 256 bytes, and so does what
  \<open>realpath\<close> makes of it.
\<close>

definition logger_getAbsFilePath ::
  "'k logos \<Rightarrow> string \<Rightarrow> 'k lstate \<Rightarrow> text_fault + bool \<times> 'k lstate" where
  "logger_getAbsFilePath G logFile = (\<lambda>(l, k).
     let finish = (\<lambda>logDir filename.
       case g_realpath G logDir k of
         None \<Rightarrow> Inr (False, l, k)
       | Some realDir \<Rightarrow>
           if 256 \<le> List.length realDir then Inl Buffer_overflow
           else (case g_stat G logDir k of
               (None, _) \<Rightarrow> Inr (False, l, k)
             | (Some (isdir, _), _) \<Rightarrow>
                 if \<not> isdir then Inr (False, l, k)
                 else Inr (True, l\<lparr>l_logFile := realDir @ ''/'' @ filename\<rparr>, k)))
     in case strrchr logFile (CHR ''/'') of
         None \<Rightarrow>
           if logFile = ''.'' \<or> logFile = ''..'' then Inr (False, l, k) else finish ''.'' logFile
       | Some eod \<Rightarrow>
           if 256 \<le> eod then Inl Buffer_overflow
           else let filename = drop (eod + 1) logFile
             in if filename = [] \<or> filename = ''.'' \<or> filename = ''..'' then Inr (False, l, k)
                else finish (take eod logFile) filename)"

definition logger_init_file ::
  "'k logos \<Rightarrow> string \<Rightarrow> int \<Rightarrow> 64 word \<Rightarrow> 64 word \<Rightarrow> bool \<Rightarrow> bool \<Rightarrow> bool \<Rightarrow> bool \<Rightarrow> 'k lstate \<Rightarrow> text_fault + bool \<times> 'k lstate" where
  "logger_init_file G logFile level rotateSize logBufSize enableLock enableTid daily hourly s =
     bindS (logger_getAbsFilePath G logFile s) (\<lambda>(b, l, k).
     if \<not> b then Inr (False, l, g_eprint G (printf ''_checkDirectory(%s) failed'' [FS logFile] @ [CHR 0x0A]) k)
     else case g_open G logFile k of (fd, en, k) \<Rightarrow>
       let l = l\<lparr>l_fd := fd\<rparr>
       in if fd < 0
          then Inr (False, l, g_eprint G (printf ''::open failed [%s][%d][%s]'' [FS logFile, FD en, FS (g_strerror G en)] @ [CHR 0x0A]) k)
          else Inr (logger_init_fd G fd level rotateSize logBufSize enableLock daily hourly False (l, k)))"

definition logger_close :: "'k logos \<Rightarrow> 'k lstate \<Rightarrow> 'k lstate" where
  "logger_close G = (\<lambda>(l, k).
     let (l, k) = (if l_logFile l \<noteq> [] \<and> l_fd l \<noteq> -1
                   then (l\<lparr>l_fd := -1, l_logFile := []\<rparr>, g_close G (l_fd l) k) else (l, k))
     in (l, if l_enableLock l
            then mutex_call G (''::pthread_mutex_destroy failed [%d][%s]'' @ [CHR 0x0A]) (g_mutex_destroy G) k else k))"

definition logger_reload :: "bool \<Rightarrow> bool \<Rightarrow> logger \<Rightarrow> logger" where
  "logger_reload daily hourly l = l\<lparr>l_daily := daily, l_hourly := hourly\<rparr>"

section \<open>Rotation\<close>

definition logger_copyTm :: "tm \<Rightarrow> logger \<Rightarrow> logger" where
  "logger_copyTm now l =
     l\<lparr>l_prev := (l_prev l)\<lparr>tm_year := tm_year now, tm_mon := tm_mon now, tm_mday := tm_mday now,
                            tm_hour := tm_hour now, tm_min := tm_min now, tm_sec := tm_sec now\<rparr>\<rparr>"

definition rotated_name :: "string \<Rightarrow> tm \<Rightarrow> string" where
  "rotated_name logFile now =
     logFile @ ''.'' @ pad0 4 (tm_year now + 1900) @ pad0 2 (tm_mon now + 1) @ pad0 2 (tm_mday now) @
     ''.'' @ pad0 2 (tm_hour now) @ pad0 2 (tm_min now) @ pad0 2 (tm_sec now)"

definition logger_rotate :: "'k logos \<Rightarrow> tm \<Rightarrow> 'k lstate \<Rightarrow> text_fault + 'k lstate" where
  "logger_rotate G now = (\<lambda>(l, k).
     let k = g_close G (l_fd l) k;
         newLogFile = snprintf_at (fresh_buf (g_junk G) (MAX_FILENAME + 1)) 0 (MAX_FILENAME + 1)
                        (rotated_name (l_logFile l) now)
     in bindS (if fst (g_stat G (cstr newLogFile) k) \<noteq> None then strcat_at newLogFile 0 ''.1'' else Inr newLogFile)
          (\<lambda>newLogFile.
        let k = g_rename G (l_logFile l) (cstr newLogFile) k
        in case g_open G (l_logFile l) k of (fd, en, k) \<Rightarrow>
          Inr (l\<lparr>l_fd := fd\<rparr>,
               if fd < 0
               then g_eprint G (printf ''::open failed [%s][%d][%s]'' [FS (l_logFile l), FD en, FS (g_strerror G en)] @ [CHR 0x0A]) k
               else k)))"

definition logger_checkRotate :: "'k logos \<Rightarrow> tm \<Rightarrow> 'k lstate \<Rightarrow> text_fault + 'k lstate" where
  "logger_checkRotate G now = (\<lambda>(l, k).
     let prev = l_prev l;
         copied = (\<lambda>(l, k). Inr (logger_copyTm now l, k))
     in if l_logFile l = [] \<or> (l_rotateSize l = 0 \<and> \<not> l_daily l \<and> \<not> l_hourly l) then Inr (l, k)
        else if l_hourly l \<and> tm_hour prev \<noteq> -1 \<and>
          (tm_year prev \<noteq> tm_year now \<or> tm_mon prev \<noteq> tm_mon now \<or> tm_mday prev \<noteq> tm_mday now \<or> tm_hour prev \<noteq> tm_hour now)
        then bindS (logger_rotate G prev (l, k)) copied
        else if \<not> l_hourly l \<and> l_daily l \<and> tm_mday prev \<noteq> -1 \<and>
          (tm_year prev \<noteq> tm_year now \<or> tm_mon prev \<noteq> tm_mon now \<or> tm_mday prev \<noteq> tm_mday now)
        then bindS (logger_rotate G prev (l, k)) copied
        else case g_stat G (l_logFile l) k of
            (None, en) \<Rightarrow>
              Inr (l, g_eprint G (printf ''::stat failed [%s][%d][%s]'' [FS (l_logFile l), FD en, FS (g_strerror G en)] @ [CHR 0x0A]) k)
          | (Some (_, st_size), _) \<Rightarrow>
              bindS (if sint (l_rotateSize l) < st_size then logger_rotate G now (l, k) else Inr (l, k)) copied)"

section \<open>Writing\<close>

definition logger_write :: "'k logos \<Rightarrow> string \<Rightarrow> tm option \<Rightarrow> 'k lstate \<Rightarrow> text_fault + 'k lstate" where
  "logger_write G text now = (\<lambda>(l, k).
     let k = (if l_enableLock l
              then mutex_call G (''::pthread_mutex_lock failed [%d][%s]'' @ [CHR 0x0A]) (g_mutex_lock G) k else k);
         (t, k) = (case now of None \<Rightarrow> g_now G k | Some t \<Rightarrow> (t, k))
     in bindS (logger_checkRotate G t (l, k)) (\<lambda>(l, k).
        let k = g_write G (l_fd l) text k
        in Inr (l, if l_enableLock l
                   then mutex_call G (''::pthread_mutex_lock failed [%d][%s]'' @ [CHR 0x0A]) (g_mutex_unlock G) k else k)))"

definition level_str :: "int \<Rightarrow> string" where
  "level_str level =
     (if level = LEVEL_TRACE then ''TRC'' else if level = LEVEL_DEBUG then ''DBG''
      else if level = LEVEL_INFO then ''INF'' else if level = LEVEL_ERROR then ''ERR'' else ''UKN'')"

definition log_header :: "int \<Rightarrow> string \<Rightarrow> int \<Rightarrow> tm \<Rightarrow> string \<Rightarrow> int \<Rightarrow> string" where
  "log_header pid tid level now file line =
     show_int pid @ tid @ ''|'' @ level_str level @ ''|'' @
     pad0 4 (tm_year now + 1900) @ ''-'' @ pad0 2 (tm_mon now + 1) @ ''-'' @ pad0 2 (tm_mday now) @ '' '' @
     pad0 2 (tm_hour now) @ '':'' @ pad0 2 (tm_min now) @ '':'' @ pad0 2 (tm_sec now) @ ''| '' @
     file @ ''('' @ show_int line @ ''): ''"

definition tid_text :: "'k logos \<Rightarrow> logger \<Rightarrow> string" where
  "tid_text G l =
     cstr (if l_enableTid l then snprintf_at (replicate 20 NUL) 0 20 (''|'' @ show_nat (g_self G)) else replicate 20 NUL)"

text \<open>
  \<open>log\<close>: \<open>msg\<close> is the text that \<open>fmt\<close> and its arguments make. The array is of variable length;
  one of length 0 is undefined.
\<close>

definition logger_log :: "'k logos \<Rightarrow> int \<Rightarrow> string \<Rightarrow> int \<Rightarrow> string \<Rightarrow> 'k lstate \<Rightarrow> text_fault + 'k lstate" where
  "logger_log G level file line msg = (\<lambda>(l, k).
     if level < l_level l then Inr (l, k)
     else if l_fd l < 0 then Inr (l, g_eprint G (printf ''Logger not initialized [%d]'' [FD (l_fd l)] @ [CHR 0x0A]) k)
     else if l_logBufSize l = 0 then Inl Buffer_overflow
     else
       let sizeof_buf = l_logBufSize l;
           buf = fresh_buf (g_junk G) (unat sizeof_buf);
           (now, k) = g_now G k;
           buf = snprintf_at buf 0 (unat sizeof_buf) (log_header (g_getpid G) (tid_text G l) level now file line);
           bufLen = strlen_at buf 0;
           buf = snprintf_at buf bufLen (unat (sizeof_buf - of_nat bufLen - 1)) msg;
           bufLen = bufLen + strlen_at buf bufLen
       in bindS (strcat_at buf bufLen [CHR 0x0A]) (\<lambda>buf.
          logger_write G (take (bufLen + 1) buf) (Some now) (l, k)))"

end
