(* ===== verification/LoggerLines.thy ===== *)
theory LoggerLines
  imports Logger
begin

text \<open>
  What the logger does: the exact text of a line, the bounds of the array it is built in, and the
  effect of writing and rotating on the files, under the laws of a file system.
\<close>

section \<open>The line\<close>

lemma sub_word:
  "n + 1 \<le> unat S \<Longrightarrow> unat ((S :: 64 word) - of_nat n - 1) = unat S - n - 1"
proof -
  assume n: "n + 1 \<le> unat S"
  have "S - of_nat n - 1 = of_nat (unat S) - of_nat n - 1" by simp
  also have "... = of_nat (unat S - n - 1)" using n by (simp add: of_nat_diff)
  finally show ?thesis using unsigned_less [of S, where 'a = nat] by (simp add: unat_of_nat take_bit_nat_eq_self less_imp_diff_less)
qed

lemma level_str_no_NUL: "NUL \<notin> set (level_str level)"
  by (simp add: level_str_def char_of_def)

lemma tid_no_NUL: "NUL \<notin> set (tid_text G l)"
  by (auto simp: tid_text_def cstr_def dest: set_takeWhileD)

lemma header_no_NUL: "NUL \<notin> set file \<Longrightarrow> NUL \<notin> set (log_header pid (tid_text G l) level now file line)"
  using show_int_no_NUL pad0_no_NUL level_str_no_NUL tid_no_NUL
  by (simp add: log_header_def) (simp add: char_of_def)

interpretation posix_line: line_maker "\<lambda>b off n s. Inr (snprintf_at b off n s)" "\<lambda>b off. strcat_at b off [CHR 0x0A]" Buffer_overflow
  by unfold_locales (auto simp: snprintf_at_def vsnprintf_def strcat_at_def Let_def)

text \<open>\<open>log\<close> of a line that passes the filter.\<close>

definition log_text :: "'k logos \<Rightarrow> logger \<Rightarrow> int \<Rightarrow> tm \<Rightarrow> string \<Rightarrow> int \<Rightarrow> string \<Rightarrow> string" where
  "log_text G l level now file line msg =
     (let h = log_header (g_getpid G) (tid_text G l) level now file line
      in h @ take (unat (l_logBufSize l) - List.length h - 2) msg @ [CHR 0x0A])"

lemma logger_log_eq:
  assumes "l_level l \<le> level" and "0 \<le> l_fd l" and "NUL \<notin> set file" and "NUL \<notin> set msg" and "g_now G k = (now, k')"
  shows "logger_log G level file line msg (l, k) =
    (if List.length (log_header (g_getpid G) (tid_text G l) level now file line) + 1 < unat (l_logBufSize l)
     then logger_write G (log_text G l level now file line msg) (Some now) (l, k') else Inl Buffer_overflow)"
proof (cases "l_logBufSize l = 0")
  case True
  then show ?thesis using assms by (simp add: logger_log_def)
next
  case False
  let ?S = "l_logBufSize l" and ?h = "log_header (g_getpid G) (tid_text G l) level now file line"
  let ?b = "fresh_buf (g_junk G) (unat ?S)"
  have S: "0 < unat ?S" using False by (simp add: unat_gt_0)
  have h: "NUL \<notin> set ?h" using assms(3) by (rule header_no_NUL)
  have n1: "strlen_at (snprintf_at ?b 0 (unat ?S) ?h) 0 + 1 \<le> unat ?S"
    unfolding posix_line.header_end [OF h S] using S by simp
  show ?thesis
    using assms(1,2,5) False posix_line.line [OF h assms(4) length_fresh_buf S, of _ "\<lambda>t. logger_write G t (Some now) (l, k')"]
    by (simp add: logger_log_def Let_def sub_word [OF n1] log_text_def)
qed

section \<open>Files\<close>

text \<open>What can be observed of the file system: the contents of the files and the open descriptors.\<close>

record 'k logfs =
  f_files :: "'k \<Rightarrow> string \<rightharpoonup> string"
  f_open :: "'k \<Rightarrow> int \<rightharpoonup> string"

definition same_fs :: "'k logfs \<Rightarrow> 'k \<Rightarrow> 'k \<Rightarrow> bool" where
  "same_fs F k k' \<longleftrightarrow> f_files F k' = f_files F k \<and> f_open F k' = f_open F k"

text \<open>A file system on which the operations succeed; the descriptors are in append mode.\<close>

definition fs_laws :: "'k logos \<Rightarrow> 'k logfs \<Rightarrow> bool" where
  "fs_laws G F \<longleftrightarrow>
     (\<forall>fd k. f_files F (g_close G fd k) = f_files F k) \<and>
     (\<forall>a b k t. f_files F k a = Some t \<and> a \<noteq> b \<longrightarrow> f_files F (g_rename G a b k) = (f_files F k)(a := None, b \<mapsto> t)) \<and>
     (\<forall>p k fd en k'. g_open G p k = (fd, en, k') \<longrightarrow> 0 \<le> fd \<and> f_open F k' fd = Some p \<and>
        f_files F k' = (f_files F k)(p \<mapsto> (case f_files F k p of None \<Rightarrow> [] | Some t \<Rightarrow> t))) \<and>
     (\<forall>fd s k p t. f_open F k fd = Some p \<and> f_files F k p = Some t \<longrightarrow>
        f_files F (g_write G fd s k) = (f_files F k)(p \<mapsto> t @ s) \<and> f_open F (g_write G fd s k) = f_open F k) \<and>
     (\<forall>p k t. f_files F k p = Some t \<longrightarrow> fst (g_stat G p k) = Some (False, int (List.length t))) \<and>
     (\<forall>k. same_fs F k (snd (g_now G k)) \<and> same_fs F k (snd (g_mutex_lock G k)) \<and> same_fs F k (snd (g_mutex_unlock G k))) \<and>
     (\<forall>t k. same_fs F k (g_eprint G t k))"

lemma fs_lawsD:
  assumes "fs_laws G F"
  shows "f_files F (g_close G fd k) = f_files F k"
    and "f_files F k a = Some t \<Longrightarrow> a \<noteq> b \<Longrightarrow> f_files F (g_rename G a b k) = (f_files F k)(a := None, b \<mapsto> t)"
    and "g_open G p k = (fd, en, k') \<Longrightarrow> 0 \<le> fd \<and> f_open F k' fd = Some p \<and>
       f_files F k' = (f_files F k)(p \<mapsto> (case f_files F k p of None \<Rightarrow> [] | Some t \<Rightarrow> t))"
    and "f_open F k fd = Some p \<Longrightarrow> f_files F k p = Some t \<Longrightarrow>
       f_files F (g_write G fd s k) = (f_files F k)(p \<mapsto> t @ s) \<and> f_open F (g_write G fd s k) = f_open F k"
    and "f_files F k p = Some t \<Longrightarrow> fst (g_stat G p k) = Some (False, int (List.length t))"
    and "same_fs F k (snd (g_now G k))" and "same_fs F k (snd (g_mutex_lock G k))"
    and "same_fs F k (snd (g_mutex_unlock G k))" and "same_fs F k (g_eprint G x k)"
  by (use assms in \<open>unfold fs_laws_def, elim conjE, metis\<close>)+

lemma same_fs_trans [trans]: "same_fs F a b \<Longrightarrow> same_fs F b c \<Longrightarrow> same_fs F a c"
  by (simp add: same_fs_def)

lemma mutex_same:
  assumes "fs_laws G F" and "\<And>k. same_fs F k (snd (f k))"
  shows "same_fs F k (mutex_call G t f k)"
proof -
  obtain r k' where f: "f k = (r, k')" by fastforce
  then have "same_fs F k k'" using assms(2) [of k] by simp
  then show ?thesis using f same_fs_trans [OF _ fs_lawsD(9) [OF assms(1)]] by (simp add: mutex_call_def)
qed

text \<open>The logger has its file open.\<close>

definition log_ready :: "'k logfs \<Rightarrow> 'k lstate \<Rightarrow> string \<Rightarrow> bool" where
  "log_ready F = (\<lambda>(l, k) t. l_logFile l \<noteq> [] \<and> NUL \<notin> set (l_logFile l) \<and> 0 \<le> l_fd l \<and>
     f_open F k (l_fd l) = Some (l_logFile l) \<and> f_files F k (l_logFile l) = Some t)"

section \<open>Rotation\<close>

definition short_name :: "logger \<Rightarrow> tm \<Rightarrow> bool" where
  "short_name l t \<longleftrightarrow> List.length (rotated_name (l_logFile l) t) + 2 \<le> MAX_FILENAME"

text \<open>Where the old file goes.\<close>

definition rotate_target :: "'k logos \<Rightarrow> tm \<Rightarrow> 'k lstate \<Rightarrow> string" where
  "rotate_target G now = (\<lambda>(l, k). rotated_name (l_logFile l) now @
     (if fst (g_stat G (rotated_name (l_logFile l) now) (g_close G (l_fd l) k)) = None then [] else ''.1''))"

lemma rotated_name_no_NUL: "NUL \<notin> set f \<Longrightarrow> NUL \<notin> set (rotated_name f t)"
  using pad0_no_NUL by (simp add: rotated_name_def) (simp add: char_of_def)

lemma rotate_target_other: "rotate_target G now (l, k) \<noteq> l_logFile l"
  by (simp add: rotate_target_def rotated_name_def)

lemma logger_rotate_eq:
  assumes "NUL \<notin> set (l_logFile l)" and "short_name l now"
  shows "logger_rotate G now (l, k) =
    (case g_open G (l_logFile l) (g_rename G (l_logFile l) (rotate_target G now (l, k)) (g_close G (l_fd l) k)) of
       (fd, en, k) \<Rightarrow> Inr (l\<lparr>l_fd := fd\<rparr>,
         if fd < 0
         then g_eprint G (printf ''::open failed [%s][%d][%s]'' [FS (l_logFile l), FD en, FS (g_strerror G en)] @ [CHR 0x0A]) k
         else k))"
proof -
  let ?n = "rotated_name (l_logFile l) now"
  let ?b = "snprintf_at (fresh_buf (g_junk G) (MAX_FILENAME + 1)) 0 (MAX_FILENAME + 1) ?n"
  have n: "NUL \<notin> set ?n" using assms(1) by (rule rotated_name_no_NUL)
  have le: "List.length ?n + 2 \<le> MAX_FILENAME" using assms(2) by (simp add: short_name_def)
  define r where "r = drop (List.length ?n + 1) (fresh_buf (g_junk G) (MAX_FILENAME + 1))"
  have b: "?b = ?n @ NUL # r" "2 \<le> List.length r" using le by (simp_all add: snprintf_at_0 vsnprintf_prefix r_def)
  have c: "cstr ?b = ?n" unfolding b(1) using n by simp
  have "strcat_at ?b 0 ''.1'' = Inr ((?n @ ''.1'') @ NUL # drop 2 r)"
    using strcat_at_end [of "[]" ?n r "''.1''"] n b(2) unfolding b(1) by (simp add: numeral_2_eq_2)
  moreover have "NUL \<notin> set (?n @ ''.1'')" using n by (simp add: char_of_def)
  then have "cstr ((?n @ ''.1'') @ NUL # drop 2 r) = ?n @ ''.1''" by (rule cstr_append_NUL)
  ultimately show ?thesis
    by (cases "fst (g_stat G ?n (g_close G (l_fd l) k))") (simp_all add: logger_rotate_def Let_def c [simplified] rotate_target_def)
qed

text \<open>Rotation moves the file away as a whole and goes on with an empty one.\<close>

lemma logger_rotate_ok:
  assumes F: "fs_laws G F" and r: "log_ready F (l, k) t" and n: "short_name l now"
  shows "\<exists>fd k'. logger_rotate G now (l, k) = Inr (l\<lparr>l_fd := fd\<rparr>, k') \<and> log_ready F (l\<lparr>l_fd := fd\<rparr>, k') [] \<and>
    f_files F k' = (f_files F k)(l_logFile l \<mapsto> [], rotate_target G now (l, k) \<mapsto> t)"
proof -
  have l: "NUL \<notin> set (l_logFile l)" "l_logFile l \<noteq> []" "f_files F k (l_logFile l) = Some t" using r by (auto simp: log_ready_def)
  let ?f = "l_logFile l" and ?t = "rotate_target G now (l, k)" and ?k = "g_close G (l_fd l) k"
  have ne: "?t \<noteq> ?f" by (rule rotate_target_other)
  have mv: "f_files F (g_rename G ?f ?t ?k) = (f_files F k)(?f := None, ?t \<mapsto> t)"
    using fs_lawsD(2) [OF F, of ?k ?f t ?t] fs_lawsD(1) [OF F] l(3) ne by simp
  obtain fd en k' where o: "g_open G ?f (g_rename G ?f ?t ?k) = (fd, en, k')" using prod_cases3 by blast
  have fd: "0 \<le> fd" "f_open F k' fd = Some ?f" and fs: "f_files F k' = (f_files F k)(?f := None, ?t \<mapsto> t, ?f \<mapsto> [])"
    using fs_lawsD(3) [OF F o] mv ne by (simp_all split: if_splits)
  have "f_files F k' = (f_files F k)(?f \<mapsto> [], ?t \<mapsto> t)" using fs ne by (simp add: fun_upd_twist)
  moreover have "log_ready F (l\<lparr>l_fd := fd\<rparr>, k') []" using fd l fs by (simp add: log_ready_def)
  moreover have "logger_rotate G now (l, k) = Inr (l\<lparr>l_fd := fd\<rparr>, k')" using logger_rotate_eq [OF l(1) n, of G k] o fd(1) by simp
  ultimately show ?thesis by blast
qed

text \<open>Whether a rotation is due before the next line, and the time the old file is stamped with.\<close>

definition rotation_due :: "logger \<Rightarrow> tm \<Rightarrow> string \<Rightarrow> tm option" where
  "rotation_due l now t =
     (let prev = l_prev l;
          same_day = (tm_year prev = tm_year now \<and> tm_mon prev = tm_mon now \<and> tm_mday prev = tm_mday now)
      in if l_rotateSize l = 0 \<and> \<not> l_daily l \<and> \<not> l_hourly l then None
         else if l_hourly l \<and> tm_hour prev \<noteq> -1 \<and> \<not> (same_day \<and> tm_hour prev = tm_hour now) then Some prev
         else if \<not> l_hourly l \<and> l_daily l \<and> tm_mday prev \<noteq> -1 \<and> \<not> same_day then Some prev
         else if sint (l_rotateSize l) < int (List.length t) then Some now else None)"

lemma rotation_due_None:
  "rotation_due l now t = None \<Longrightarrow> l_rotateSize l \<noteq> 0 \<Longrightarrow> int (List.length t) \<le> sint (l_rotateSize l)"
  by (auto simp: rotation_due_def Let_def split: if_splits)

definition same_config :: "logger \<Rightarrow> logger \<Rightarrow> bool" where
  "same_config l l' \<longleftrightarrow> (\<exists>fd p. l' = l\<lparr>l_fd := fd, l_prev := p\<rparr>)"

lemma same_configD:
  assumes "same_config l l'"
  shows "l_logFile l' = l_logFile l" and "l_enableLock l' = l_enableLock l" and "l_rotateSize l' = l_rotateSize l"
    and "l_logBufSize l' = l_logBufSize l" and "l_level l' = l_level l"
  using assms by (auto simp: same_config_def)

lemma copyTm_config: "same_config l (logger_copyTm now (l\<lparr>l_fd := fd\<rparr>))" "same_config l (logger_copyTm now l)" "same_config l l"
proof -
  show *: "same_config l (logger_copyTm now (l\<lparr>l_fd := fd\<rparr>))" for fd
    unfolding same_config_def logger_copyTm_def by (rule exI, rule exI, rule refl)
  show "same_config l (logger_copyTm now l)" using * [of "l_fd l"] by simp
  show "same_config l l" unfolding same_config_def by (rule exI [of _ "l_fd l"], rule exI [of _ "l_prev l"]) simp
qed

lemma copyTm_ready: "log_ready F (logger_copyTm now l, k) t = log_ready F (l, k) t"
  by (simp add: log_ready_def logger_copyTm_def)

text \<open>The two ways a rotation check can end.\<close>

definition moved :: "'k logfs \<Rightarrow> 'k lstate \<Rightarrow> tm option \<Rightarrow> string \<Rightarrow> string \<Rightarrow> (string \<rightharpoonup> string) \<Rightarrow> bool" where
  "moved F = (\<lambda>(l, k) due t new fs.
     case due of
       None \<Rightarrow> fs = (f_files F k)(l_logFile l \<mapsto> t @ new)
     | Some x \<Rightarrow> \<exists>target \<in> {rotated_name (l_logFile l) x, rotated_name (l_logFile l) x @ ''.1''}.
         (f_files F k (rotated_name (l_logFile l) x) \<noteq> None \<longrightarrow> target = rotated_name (l_logFile l) x @ ''.1'') \<and>
         fs = (f_files F k)(l_logFile l \<mapsto> new, target \<mapsto> t))"

lemma moved_cong: "same_fs F k k' \<Longrightarrow> moved F (l, k') = moved F (l, k)"
  by (simp add: moved_def same_fs_def fun_eq_iff split: option.splits)

lemma rotate_moved:
  assumes F: "fs_laws G F" and r: "log_ready F (l, k) t" and n: "short_name l x"
  shows "\<exists>fd k'. logger_rotate G x (l, k) = Inr (l\<lparr>l_fd := fd\<rparr>, k') \<and> log_ready F (l\<lparr>l_fd := fd\<rparr>, k') [] \<and>
    moved F (l, k) (Some x) t [] (f_files F k')"
proof -
  let ?n = "rotated_name (l_logFile l) x" and ?t = "rotate_target G x (l, k)"
  obtain fd k' where k': "logger_rotate G x (l, k) = Inr (l\<lparr>l_fd := fd\<rparr>, k')" "log_ready F (l\<lparr>l_fd := fd\<rparr>, k') []"
    "f_files F k' = (f_files F k)(l_logFile l \<mapsto> [], ?t \<mapsto> t)"
    using logger_rotate_ok [OF assms] by blast
  have "?t \<in> {?n, ?n @ ''.1''}" by (simp add: rotate_target_def)
  moreover have "f_files F k ?n \<noteq> None \<longrightarrow> ?t = ?n @ ''.1''"
    using fs_lawsD(5) [OF F, of "g_close G (l_fd l) k" ?n] fs_lawsD(1) [OF F, of "l_fd l" k]
    by (cases "f_files F k ?n") (simp_all add: rotate_target_def)
  ultimately have "moved F (l, k) (Some x) t [] (f_files F k')" unfolding moved_def using k'(3) by auto
  then show ?thesis using k' by blast
qed

lemma checkRotate_ok:
  assumes F: "fs_laws G F" and r: "log_ready F (l, k) t" and n: "\<And>x. rotation_due l now t = Some x \<Longrightarrow> short_name l x"
  shows "\<exists>l' k'. logger_checkRotate G now (l, k) = Inr (l', k') \<and> same_config l l' \<and>
    log_ready F (l', k') (if rotation_due l now t = None then t else []) \<and> moved F (l, k) (rotation_due l now t) t [] (f_files F k')"
proof -
  have st: "fst (g_stat G (l_logFile l) k) = Some (False, int (List.length t))" and ne: "l_logFile l \<noteq> []"
    and fs: "(f_files F k)(l_logFile l \<mapsto> t) = f_files F k"
    using r fs_lawsD(5) [OF F] by (auto simp: log_ready_def)
  obtain en where stat: "g_stat G (l_logFile l) k = (Some (False, int (List.length t)), en)" using st by (metis prod.collapse)
  show ?thesis
  proof (cases "rotation_due l now t")
    case None
    have "logger_checkRotate G now (l, k) = Inr (l, k) \<or> logger_checkRotate G now (l, k) = Inr (logger_copyTm now l, k)"
      using None ne stat by (auto simp: logger_checkRotate_def rotation_due_def Let_def split: if_splits)
    moreover have "same_config l l" by (rule copyTm_config(3))
    moreover have "moved F (l, k) None t [] (f_files F k)" using fs by (simp add: moved_def)
    ultimately show ?thesis using None r copyTm_config(2) [of l now] copyTm_ready [of F now l k t] by (simp, metis)
  next
    case (Some x)
    obtain fd k' where k': "logger_rotate G x (l, k) = Inr (l\<lparr>l_fd := fd\<rparr>, k')" "log_ready F (l\<lparr>l_fd := fd\<rparr>, k') []"
      "moved F (l, k) (Some x) t [] (f_files F k')"
      using rotate_moved [OF F r n [OF Some]] by blast
    have "logger_checkRotate G now (l, k) = bindS (logger_rotate G x (l, k)) (\<lambda>(l, k). Inr (logger_copyTm now l, k))"
      using Some ne stat by (auto simp: logger_checkRotate_def rotation_due_def Let_def split: if_splits)
    then have "logger_checkRotate G now (l, k) = Inr (logger_copyTm now (l\<lparr>l_fd := fd\<rparr>), k')" using k'(1) by simp
    then show ?thesis using Some k' copyTm_config(1) [of l now fd] copyTm_ready [of F now "l\<lparr>l_fd := fd\<rparr>" k' "[]"] by auto
  qed
qed

section \<open>Writing a line\<close>

lemma moved_append:
  assumes "moved F (l, k) due t [] fs"
  shows "moved F (l, k) due t text (fs(l_logFile l \<mapsto> (if due = None then t else []) @ text))"
proof (cases due)
  case None
  then show ?thesis using assms by (simp add: moved_def)
next
  case (Some x)
  have "l_logFile l \<noteq> rotated_name (l_logFile l) x" "l_logFile l \<noteq> rotated_name (l_logFile l) x @ ''.1''"
    by (simp_all add: rotated_name_def)
  then show ?thesis using assms Some by (auto simp: moved_def fun_upd_twist)
qed

lemma log_ready_fs:
  assumes "log_ready F (l, k) t" and "same_fs F k k'"
  shows "log_ready F (l, k') t"
  using assms by (simp add: log_ready_def same_fs_def)

lemma logger_write_ok:
  assumes F: "fs_laws G F" and r: "log_ready F (l, k) t" and n: "\<And>x. rotation_due l now t = Some x \<Longrightarrow> short_name l x"
  shows "\<exists>l' k'. logger_write G text (Some now) (l, k) = Inr (l', k') \<and> same_config l l' \<and>
    log_ready F (l', k') ((if rotation_due l now t = None then t else []) @ text) \<and>
    moved F (l, k) (rotation_due l now t) t text (f_files F k')"
proof -
  let ?due = "rotation_due l now t"
  let ?c = "if ?due = None then t else []"
  define k1 where "k1 = (if l_enableLock l
    then mutex_call G (''::pthread_mutex_lock failed [%d][%s]'' @ [CHR 0x0A]) (g_mutex_lock G) k else k)"
  have "same_fs F k k1" unfolding k1_def using mutex_same [OF F fs_lawsD(7) [OF F]] by (simp add: same_fs_def)
  note s = this and ready = log_ready_fs [OF r this]
  obtain l2 k2 where c: "logger_checkRotate G now (l, k1) = Inr (l2, k2)" "same_config l l2"
    "log_ready F (l2, k2) ?c" "moved F (l, k) ?due t [] (f_files F k2)"
    using checkRotate_ok [OF F ready, of now] n unfolding moved_cong [OF s] by blast
  define k3 where "k3 = g_write G (l_fd l2) text k2"
  define k4 where "k4 = (if l_enableLock l2
    then mutex_call G (''::pthread_mutex_lock failed [%d][%s]'' @ [CHR 0x0A]) (g_mutex_unlock G) k3 else k3)"
  have L: "l_logFile l2 = l_logFile l" using c(2) by (rule same_configD)
  have w: "f_files F k3 = (f_files F k2)(l_logFile l \<mapsto> ?c @ text)" "f_open F k3 = f_open F k2"
    using fs_lawsD(4) [OF F, of k2 "l_fd l2" "l_logFile l" ?c "text"] c(3) unfolding L log_ready_def k3_def by (simp_all add: L)
  have "same_fs F k3 k4" unfolding k4_def using mutex_same [OF F fs_lawsD(8) [OF F]] by (simp add: same_fs_def)
  moreover have "log_ready F (l2, k3) (?c @ text)" using c(3) w L by (simp add: log_ready_def)
  moreover have "f_files F k4 = (f_files F k2)(l_logFile l \<mapsto> ?c @ text)" using calculation(1) w(1) by (simp add: same_fs_def)
  moreover have "logger_write G text (Some now) (l, k) = Inr (l2, k4)"
    using c(1) unfolding k1_def k3_def k4_def by (simp add: logger_write_def Let_def)
  moreover note log_ready_fs [OF calculation(2,1)]
  moreover have "moved F (l, k) ?due t text (f_files F k4)" using moved_append [OF c(4), of "text"] calculation(3) by simp
  ultimately show ?thesis using c(2) by blast
qed

lemma logger_log_ok:
  assumes F: "fs_laws G F" and r: "log_ready F (l, k) t" and lv: "l_level l \<le> level"
    and nul: "NUL \<notin> set file" "NUL \<notin> set msg" and now: "now = fst (g_now G k)"
    and fits: "List.length (log_header (g_getpid G) (tid_text G l) level now file line) + 1 < unat (l_logBufSize l)"
    and n: "\<And>x. rotation_due l now t = Some x \<Longrightarrow> short_name l x"
  shows "\<exists>l' k'. logger_log G level file line msg (l, k) = Inr (l', k') \<and> same_config l l' \<and>
    log_ready F (l', k') ((if rotation_due l now t = None then t else []) @ log_text G l level now file line msg) \<and>
    moved F (l, k) (rotation_due l now t) t (log_text G l level now file line msg) (f_files F k')"
proof -
  obtain k1 where g: "g_now G k = (now, k1)" using now by (metis prod.collapse)
  have s: "same_fs F k k1" using fs_lawsD(6) [OF F, of k] g by simp
  have "0 \<le> l_fd l" using r by (simp add: log_ready_def)
  then have "logger_log G level file line msg (l, k) = logger_write G (log_text G l level now file line msg) (Some now) (l, k1)"
    using logger_log_eq [OF lv _ nul g] fits by simp
  then show ?thesis
    using logger_write_ok [OF F log_ready_fs [OF r s] n, of now "log_text G l level now file line msg"] moved_cong [OF s, of l] by simp
qed

lemma log_text_length:
  assumes "List.length (log_header (g_getpid G) (tid_text G l) level now file line) + 1 < unat (l_logBufSize l)"
  shows "List.length (log_text G l level now file line msg) < unat (l_logBufSize l)"
  using assms by (simp add: log_text_def Let_def)

end
