(* ===== verification/LoggerProperties.thy ===== *)
theory LoggerProperties
  imports LoggerLines
begin

text \<open>
  The properties of the POSIX logger, and a file system in memory on which it runs: one
  descriptor, and a clock that stands still.
\<close>

section \<open>A file system in memory\<close>

record disk =
  d_files :: "string \<rightharpoonup> string"
  d_open :: "int \<rightharpoonup> string"

definition noon :: tm where
  "noon = \<lparr>tm_year = 124, tm_mon = 0, tm_mday = 2, tm_hour = 12, tm_min = 0, tm_sec = 0\<rparr>"

definition disk_write :: "int \<Rightarrow> string \<Rightarrow> disk \<Rightarrow> disk" where
  "disk_write fd s d =
     (case d_open d fd of None \<Rightarrow> d
      | Some p \<Rightarrow> d\<lparr>d_files := (d_files d)(p \<mapsto> (case d_files d p of None \<Rightarrow> s | Some t \<Rightarrow> t @ s))\<rparr>)"

definition disk_open :: "string \<Rightarrow> disk \<Rightarrow> int \<times> int \<times> disk" where
  "disk_open p d = (3, 0, d\<lparr>d_files := (d_files d)(p \<mapsto> (case d_files d p of None \<Rightarrow> [] | Some t \<Rightarrow> t)),
     d_open := (d_open d)(3 \<mapsto> p)\<rparr>)"

definition disk_rename :: "string \<Rightarrow> string \<Rightarrow> disk \<Rightarrow> disk" where
  "disk_rename a b d = (case d_files d a of None \<Rightarrow> d | Some t \<Rightarrow> d\<lparr>d_files := (d_files d)(a := None, b \<mapsto> t)\<rparr>)"

definition diskG :: "disk logos" where
  "diskG = \<lparr>g_now = \<lambda>d. (noon, d), g_getpid = 7, g_self = 1,
     g_open = disk_open, g_close = (\<lambda>fd d. d\<lparr>d_open := (d_open d)(fd := None)\<rparr>), g_write = disk_write,
     g_stat = (\<lambda>p d. (case d_files d p of None \<Rightarrow> None | Some t \<Rightarrow> Some (False, int (List.length t)), 2)),
     g_rename = disk_rename, g_realpath = (\<lambda>p d. if p = [] then None else Some ''/var''),
     g_mutex_init = (\<lambda>d. (0, d)), g_mutex_destroy = (\<lambda>d. (0, d)),
     g_mutex_lock = (\<lambda>d. (0, d)), g_mutex_unlock = (\<lambda>d. (0, d)),
     g_strerror = (\<lambda>_. ''error''), g_eprint = (\<lambda>_ d. d), g_junk = (\<lambda>_. CHR ''x'')\<rparr>"

definition diskF :: "disk logfs" where
  "diskF = \<lparr>f_files = d_files, f_open = d_open\<rparr>"

lemma disk_laws: "fs_laws diskG diskF"
  by (simp add: fs_laws_def same_fs_def diskG_def diskF_def disk_open_def disk_write_def disk_rename_def)

definition line_log :: logger where
  "line_log = logger_new\<lparr>l_logFile := ''/l'', l_fd := 3, l_rotateSize := 40, l_logBufSize := 64\<rparr>"

definition line_disk :: "string \<Rightarrow> disk" where
  "line_disk t = \<lparr>d_files = [''/l'' \<mapsto> t], d_open = [3 \<mapsto> ''/l'']\<rparr>"

lemma line_ready: "log_ready diskF (line_log, line_disk t) t"
  by (simp add: log_ready_def line_log_def line_disk_def logger_new_def diskF_def char_of_def)

lemma noon_name: "rotated_name f noon = f @ ''.20240102.120000''"
proof -
  have "rotated_name [] noon = ''.20240102.120000''" by code_simp
  then show ?thesis by (simp add: rotated_name_def)
qed

lemma noon_header: "log_header 7 [] 2 noon ''a.c'' 9 = ''7|INF|2024-01-02 12:00:00| a.c(9): ''"
  by code_simp

lemma no_tid: "\<not> l_enableTid l \<Longrightarrow> tid_text G l = []"
  by (simp add: tid_text_def cstr_def)

lemma disk_simps [simp]:
  "g_getpid diskG = 7" "g_now diskG d = (noon, d)" "f_files diskF = d_files" "f_open diskF = d_open"
  by (simp_all add: diskG_def diskF_def)

lemma small_size: "unat (64 :: 64 word) = 64" "sint (40 :: 64 word) = 40" "unat (40 :: 64 word) = 40"
  by simp_all

lemma line_names:
  assumes "l_logFile l = ''/l''"
  shows "short_name l noon"
  using assms by (simp add: short_name_def noon_name MAX_FILENAME_def)

lemma line_text:
  assumes "\<not> l_enableTid l" and "l_logBufSize l = 64"
  shows "log_text diskG l 2 noon ''a.c'' 9 ''hi'' = ''7|INF|2024-01-02 12:00:00| a.c(9): hi'' @ [CHR 0x0A]"
  using assms by (simp add: log_text_def no_tid noon_header Let_def)

section \<open>Lines\<close>

text \<open>
C34: A line that passes the level filter is the header, the message cut to what the array has room for and a line feed, and it is written as a whole; but when the header alone fills the array, the line feed's terminator is stored one byte past its end.
\<close>

theorem log_line_bounds:
  assumes "l_level l \<le> level" and "0 \<le> l_fd l" and "NUL \<notin> set file" and "NUL \<notin> set msg" and "g_now G k = (now, k')"
    and "h = log_header (g_getpid G) (tid_text G l) level now file line"
  shows "logger_log G level file line msg (l, k) =
    (if List.length h + 1 < unat (l_logBufSize l)
     then logger_write G (h @ take (unat (l_logBufSize l) - List.length h - 2) msg @ [CHR 0x0A]) (Some now) (l, k')
     else Inl Buffer_overflow)"
  using logger_log_eq [OF assms(1-5)] assms(6) by (simp add: log_text_def Let_def)

theorem log_line_bounds_witness:
  "logger_log diskG 2 ''a.c'' 9 ''hi'' (line_log\<lparr>l_logBufSize := 36\<rparr>, line_disk []) = Inl Buffer_overflow"
  using log_line_bounds [of "line_log\<lparr>l_logBufSize := 36\<rparr>" 2 "''a.c''" "''hi''" diskG "line_disk []" noon "line_disk []" _ 9]
  by (simp add: line_log_def logger_new_def LEVEL_DEBUG_def no_tid noon_header char_of_def)







text \<open>
C38: Three rotations within one second lose a file: the archive of the second one is overwritten by that of the third, because the only name tried besides the stamped one is that name with \<open>.1\<close>.
\<close>

theorem rotation_overwrites:
  assumes "fs_laws G F" and "log_ready F (l, k) t" and "l_level l \<le> level"
    and "NUL \<notin> set file" and "NUL \<notin> set msg" and "now = fst (g_now G k)"
    and "List.length (log_header (g_getpid G) (tid_text G l) level now file line) + 1 < unat (l_logBufSize l)"
    and "rotation_due l now t = Some x" and "short_name l x"
    and "f_files F k (rotated_name (l_logFile l) x) = Some a" and "f_files F k (rotated_name (l_logFile l) x @ ''.1'') = Some b"
  shows "\<exists>l' k'. logger_log G level file line msg (l, k) = Inr (l', k') \<and>
    f_files F k' (rotated_name (l_logFile l) x @ ''.1'') = Some t \<and> f_files F k' (rotated_name (l_logFile l) x) = Some a \<and>
    (\<forall>p. p \<noteq> l_logFile l \<and> p \<noteq> rotated_name (l_logFile l) x @ ''.1'' \<longrightarrow> f_files F k' p = f_files F k p)"
proof -
  have "rotated_name (l_logFile l) x \<noteq> l_logFile l" "rotated_name (l_logFile l) x @ ''.1'' \<noteq> l_logFile l"
    by (simp_all add: rotated_name_def)
  then show ?thesis using logger_log_ok [OF assms(1-7)] assms(8-10) by (fastforce simp: moved_def)
qed

definition full_disk :: disk where
  "full_disk = \<lparr>d_files = [''/l'' \<mapsto> ''third'', ''/l.20240102.120000'' \<mapsto> ''first'', ''/l.20240102.120000.1'' \<mapsto> ''second''],
     d_open = [3 \<mapsto> ''/l'']\<rparr>"

theorem rotation_overwrites_witness:
  "\<exists>l' k'. logger_log diskG 2 ''a.c'' 9 ''hi'' (line_log\<lparr>l_rotateSize := 4\<rparr>, full_disk) = Inr (l', k') \<and>
     d_files k' ''/l.20240102.120000.1'' = Some ''third'' \<and> d_files k' ''/l.20240102.120000'' = Some ''first''"
proof -
  let ?l = "line_log\<lparr>l_rotateSize := 4\<rparr>"
  have c: "l_level ?l \<le> 2" "\<not> l_enableTid ?l" "l_logBufSize ?l = 64" "l_logFile ?l = ''/l''"
    by (simp_all add: line_log_def logger_new_def LEVEL_DEBUG_def)
  have r: "log_ready diskF (?l, full_disk) ''third''"
    by (simp add: log_ready_def line_log_def full_disk_def logger_new_def char_of_def)
  have d: "rotation_due ?l noon ''third'' = Some noon" by (simp add: rotation_due_def line_log_def logger_new_def)
  show ?thesis
    using rotation_overwrites [OF disk_laws r c(1), of "''a.c''" "''hi''" noon 9 noon "''first''" "''second''"]
    by (simp add: char_of_def no_tid [OF c(2)] noon_header c(3) d line_names [OF c(4)] c(4) noon_name full_disk_def) blast
qed

section \<open>Opening\<close>

lemma init_fd_fields:
  assumes "logger_init_fd G fd level rs bs lock tid daily hourly (l, k) = (b, l', k')"
  shows "l' = l\<lparr>l_fd := fd, l_level := level, l_rotateSize := rs, l_logBufSize := bs,
    l_enableLock := lock, l_enableTid := tid, l_daily := daily, l_hourly := hourly\<rparr>"
  using assms by (auto simp: logger_init_fd_def Let_def split: prod.splits if_splits)

text \<open>
Opening the logger by file name shifts the last flags by one: what is asked for as daily rotation switches the thread ids on, what is asked for as hourly rotation is done daily, and hourly rotation cannot be had.
\<close>

theorem init_file_flags:
  assumes "logger_init_file G path level rotateSize logBufSize enableLock enableTid daily hourly s = Inr (True, l', k')"
  shows "l_enableTid l' = daily \<and> l_daily l' = hourly \<and> \<not> l_hourly l' \<and>
    l_level l' = level \<and> l_rotateSize l' = rotateSize \<and> l_logBufSize l' = logBufSize \<and> l_enableLock l' = enableLock \<and> 0 \<le> l_fd l'"
proof -
  obtain b l k where a: "logger_getAbsFilePath G path s = Inr (b, l, k)"
    using assms by (cases "logger_getAbsFilePath G path s") (auto simp: logger_init_file_def)
  obtain fd en k1 where o: "g_open G path k = (fd, en, k1)" using prod_cases3 by blast
  have "b" "\<not> fd < 0" using assms a o by (auto simp: logger_init_file_def Let_def split: if_splits)
  then have "logger_init_fd G fd level rotateSize logBufSize enableLock daily hourly False (l\<lparr>l_fd := fd\<rparr>, k1) = (True, l', k')"
    using assms a o by (simp add: logger_init_file_def Let_def)
  from init_fd_fields [OF this] \<open>\<not> fd < 0\<close> show ?thesis by simp
qed

definition open_disk :: "disk logos" where
  "open_disk = diskG\<lparr>g_stat := \<lambda>_ _. (Some (True, 0), 0)\<rparr>"

lemma slash_path: "strrchr ''/a/l'' (CHR ''/'') = Some 2"
  using strrchr_split [of "CHR ''/''" "''l''" "''/a''"] by simp

theorem init_file_flags_witness:
  "\<exists>l' k'. logger_init_file open_disk ''/a/l'' 2 0 64 False True False True (logger_new, line_disk []) = Inr (True, l', k') \<and>
     \<not> l_enableTid l' \<and> l_daily l' \<and> \<not> l_hourly l'"
proof -
  obtain l' k' where "logger_init_file open_disk ''/a/l'' 2 0 64 False True False True (logger_new, line_disk []) = Inr (True, l', k')"
    by (simp add: logger_init_file_def logger_getAbsFilePath_def slash_path open_disk_def diskG_def Let_def logger_init_fd_def disk_open_def)
  from init_file_flags [OF this] this show ?thesis by blast
qed

text \<open>
The path the logger keeps is the resolved directory and the last component of the path it was given, and a directory part that does not fit into its array is stored past the end of it.
\<close>

theorem log_path_resolved:
  assumes "path = d @ ''/'' @ n" and "CHR ''/'' \<notin> set n"
  shows "logger_getAbsFilePath G path (l, k) =
    (if 256 \<le> List.length d then Inl Buffer_overflow
     else if n \<in> {[], ''.'', ''..''} then Inr (False, l, k)
     else case g_realpath G d k of None \<Rightarrow> Inr (False, l, k)
       | Some r \<Rightarrow> if 256 \<le> List.length r then Inl Buffer_overflow
           else if \<exists>sz. fst (g_stat G d k) = Some (True, sz) then Inr (True, l\<lparr>l_logFile := r @ ''/'' @ n\<rparr>, k)
           else Inr (False, l, k))"
proof -
  have s: "strrchr path (CHR ''/'') = Some (List.length d)" "drop (List.length d + 1) path = n" "take (List.length d) path = d"
    using strrchr_split [OF assms(2), of d] assms(1) by simp_all
  show ?thesis
    by (simp add: logger_getAbsFilePath_def Let_def s [simplified] split: option.splits prod.splits)
qed

theorem log_path_resolved_witness:
  "logger_getAbsFilePath open_disk (replicate 300 (CHR ''d'') @ ''/'' @ ''l'') (logger_new, line_disk []) = Inl Buffer_overflow \<and>
   logger_getAbsFilePath open_disk (''/a'' @ ''/'' @ ''l'') (logger_new, line_disk []) =
     Inr (True, logger_new\<lparr>l_logFile := ''/var/l''\<rparr>, line_disk [])"
proof -
  have "logger_getAbsFilePath open_disk (replicate 300 (CHR ''d'') @ ''/'' @ ''l'') (logger_new, line_disk []) = Inl Buffer_overflow"
    by (subst log_path_resolved [OF refl]) simp_all
  moreover have "logger_getAbsFilePath open_disk (''/a'' @ ''/'' @ ''l'') (logger_new, line_disk []) =
     Inr (True, logger_new\<lparr>l_logFile := ''/var/l''\<rparr>, line_disk [])"
    by (subst log_path_resolved [OF refl]) (simp_all add: open_disk_def diskG_def)
  ultimately show ?thesis by blast
qed

end
