(* ===== verification/LoggerCopies.thy ===== *)
theory LoggerCopies
  imports LoggerProperties
begin

text \<open>
  The copies of the logger that the Boost programs use (boost/cpl_log.h, boost_coro/cpl_log.h and
  tester/cpl_log.h, identical to each other). They differ from aio/cpl/cpl_log.h in one place: the
  result of \<open>::write\<close> is looked at, and one that is not positive is reported on \<open>stderr\<close>. So the
  \<open>write\<close> of this model is a parameter \<open>wr\<close> that gives a result.
\<close>

definition copy_write ::
  "'k logos \<Rightarrow> (int \<Rightarrow> string \<Rightarrow> 'k \<Rightarrow> int \<times> 'k) \<Rightarrow> string \<Rightarrow> tm option \<Rightarrow> 'k lstate \<Rightarrow> text_fault + 'k lstate" where
  "copy_write G wr text now = (\<lambda>(l, k).
     let k = (if l_enableLock l
              then mutex_call G (''::pthread_mutex_lock failed [%d][%s]'' @ [CHR 0x0A]) (g_mutex_lock G) k else k);
         (t, k) = (case now of None \<Rightarrow> g_now G k | Some t \<Rightarrow> (t, k))
     in bindS (logger_checkRotate G t (l, k)) (\<lambda>(l, k).
        let (ret, k) = wr (l_fd l) text k;
            k = (if ret \<le> 0 then g_eprint G (''invalid ::write ret ['' @ show_int ret @ '']'' @ [CHR 0x0A]) k else k)
        in Inr (l, if l_enableLock l
                   then mutex_call G (''::pthread_mutex_lock failed [%d][%s]'' @ [CHR 0x0A]) (g_mutex_unlock G) k else k)))"

definition copy_log ::
  "'k logos \<Rightarrow> (int \<Rightarrow> string \<Rightarrow> 'k \<Rightarrow> int \<times> 'k) \<Rightarrow> int \<Rightarrow> string \<Rightarrow> int \<Rightarrow> string \<Rightarrow> 'k lstate \<Rightarrow> text_fault + 'k lstate" where
  "copy_log G wr level file line msg = (\<lambda>(l, k).
     if level < l_level l then Inr (l, k)
     else if l_fd l < 0 then Inr (l, g_eprint G (printf ''Logger not initialized [%d]'' [FD (l_fd l)] @ [CHR 0x0A]) k)
     else if l_logBufSize l = 0 then Inl Buffer_overflow
     else
       let sizeof_buf = l_logBufSize l;
           buf = fresh_buf (g_junk G) (unat sizeof_buf);
           (now, k) = g_now G k;
           buf = snprintf_at buf 0 (unat sizeof_buf) (log_header (g_getpid G) (tid_text G l) level now file line);
           bufLen = strlen_at buf 0;
           buf = snprintf_at buf bufLen (unat (sizeof_buf - of_nat bufLen - 1)) msg;
           bufLen = bufLen + strlen_at buf bufLen
       in bindS (strcat_at buf bufLen [CHR 0x0A]) (\<lambda>buf.
          copy_write G wr (take (bufLen + 1) buf) (Some now) (l, k)))"

section \<open>The original with another write\<close>

text \<open>The library of the original in which \<open>write\<close> reports a result that is not positive.\<close>

definition reporting :: "'k logos \<Rightarrow> (int \<Rightarrow> string \<Rightarrow> 'k \<Rightarrow> int \<times> 'k) \<Rightarrow> 'k logos" where
  "reporting G wr = G\<lparr>g_write := (\<lambda>fd text k. case wr fd text k of (ret, k) \<Rightarrow>
     if ret \<le> 0 then g_eprint G (''invalid ::write ret ['' @ show_int ret @ '']'' @ [CHR 0x0A]) k else k)\<rparr>"

lemma reporting_sel [simp]:
  "g_now (reporting G wr) = g_now G" "g_getpid (reporting G wr) = g_getpid G" "g_self (reporting G wr) = g_self G"
  "g_open (reporting G wr) = g_open G" "g_close (reporting G wr) = g_close G" "g_stat (reporting G wr) = g_stat G"
  "g_rename (reporting G wr) = g_rename G" "g_strerror (reporting G wr) = g_strerror G" "g_junk (reporting G wr) = g_junk G"
  "g_eprint (reporting G wr) = g_eprint G" "g_mutex_lock (reporting G wr) = g_mutex_lock G"
  "g_mutex_unlock (reporting G wr) = g_mutex_unlock G"
  by (simp_all add: reporting_def)

lemma reporting_ops [simp]:
  "mutex_call (reporting G wr) f g k = mutex_call G f g k"
  "tid_text (reporting G wr) l = tid_text G l"
  "logger_rotate (reporting G wr) t s = logger_rotate G t s"
  "logger_checkRotate (reporting G wr) t s = logger_checkRotate G t s"
proof -
  show m: "mutex_call (reporting G wr) f g k = mutex_call G f g k" for f g k unfolding mutex_call_def reporting_sel ..
  show "tid_text (reporting G wr) l = tid_text G l" unfolding tid_text_def reporting_sel ..
  show r: "logger_rotate (reporting G wr) t s = logger_rotate G t s" for t s unfolding logger_rotate_def reporting_sel ..
  show "logger_checkRotate (reporting G wr) t s = logger_checkRotate G t s" unfolding logger_checkRotate_def reporting_sel r ..
qed

lemma reporting_write:
  "g_write (reporting G wr) = (\<lambda>fd text k. let (ret, k) = wr fd text k
     in if ret \<le> 0 then g_eprint G (''invalid ::write ret ['' @ show_int ret @ '']'' @ [CHR 0x0A]) k else k)"
  by (simp add: reporting_def)

lemma copy_write_reporting: "copy_write G wr text now s = logger_write (reporting G wr) text now s"
  unfolding copy_write_def logger_write_def reporting_sel reporting_ops reporting_write by (simp add: split_def Let_def)

text \<open>
One line: the copies of the logger do what it does with a write that reports its failures, so all that is shown of the original holds of them; and where every write succeeds they do exactly what the original does.
\<close>

theorem logger_copies_equivalent:
  "copy_log G wr level file line msg s = logger_log (reporting G wr) level file line msg s \<and>
   ((\<forall>fd t k. 0 < fst (wr fd t k)) \<longrightarrow>
      copy_log G wr level file line msg s = logger_log (G\<lparr>g_write := (\<lambda>fd t k. snd (wr fd t k))\<rparr>) level file line msg s)"
proof -
  have e: "copy_log G wr level file line msg s = logger_log (reporting G wr) level file line msg s"
    unfolding copy_log_def logger_log_def copy_write_reporting reporting_sel reporting_ops ..
  have "reporting G wr = G\<lparr>g_write := (\<lambda>fd t k. snd (wr fd t k))\<rparr>" if "\<forall>fd t k. 0 < fst (wr fd t k)"
  proof -
    have "(case wr fd t k of (ret, k) \<Rightarrow>
        if ret \<le> 0 then g_eprint G (''invalid ::write ret ['' @ show_int ret @ '']'' @ [CHR 0x0A]) k else k) = snd (wr fd t k)" for fd t k
      using spec [OF spec [OF spec [OF that]], of fd t k] by (cases "wr fd t k") simp
    then show ?thesis by (simp add: reporting_def)
  qed
  then show ?thesis using e by simp
qed

section \<open>Whole sessions\<close>

text \<open>What a program calls on its logger, and a sequence of calls; \<open>log\<close> is that of the original or of the copy.\<close>

datatype logger_op =
    Op_init_file string int "64 word" "64 word" bool bool bool bool
  | Op_init_fd int int "64 word" "64 word" bool bool bool bool
  | Op_log int string int string
  | Op_reload bool bool
  | Op_close

fun logger_do ::
  "(int \<Rightarrow> string \<Rightarrow> int \<Rightarrow> string \<Rightarrow> 'k lstate \<Rightarrow> text_fault + 'k lstate) \<Rightarrow> 'k logos \<Rightarrow> logger_op \<Rightarrow> 'k lstate \<Rightarrow> text_fault + 'k lstate" where
  "logger_do log G (Op_init_file f lv rs bs lk tid d h) s = bindS (logger_init_file G f lv rs bs lk tid d h s) (\<lambda>(_, s). Inr s)"
| "logger_do log G (Op_init_fd fd lv rs bs lk tid d h) s = Inr (snd (logger_init_fd G fd lv rs bs lk tid d h s))"
| "logger_do log G (Op_log lv file line msg) s = log lv file line msg s"
| "logger_do log G (Op_reload d h) s = Inr (logger_reload d h (fst s), snd s)"
| "logger_do log G Op_close s = Inr (logger_close G s)"

fun session ::
  "(int \<Rightarrow> string \<Rightarrow> int \<Rightarrow> string \<Rightarrow> 'k lstate \<Rightarrow> text_fault + 'k lstate) \<Rightarrow> 'k logos \<Rightarrow> logger_op list \<Rightarrow> 'k lstate \<Rightarrow> text_fault + 'k lstate" where
  "session log G [] s = Inr s"
| "session log G (c # cs) s = bindS (logger_do log G c s) (session log G cs)"

lemma reporting_sel' [simp]:
  "g_realpath (reporting G wr) = g_realpath G" "g_mutex_init (reporting G wr) = g_mutex_init G"
  "g_mutex_destroy (reporting G wr) = g_mutex_destroy G"
  by (simp_all add: reporting_def)

lemma reporting_do: "logger_do log (reporting G wr) c s = logger_do log G c s"
proof -
  note sel = reporting_sel reporting_sel'
  have p: "logger_getAbsFilePath (reporting G wr) f s = logger_getAbsFilePath G f s" for f s
    unfolding logger_getAbsFilePath_def sel ..
  have i: "logger_init_fd (reporting G wr) fd lv rs bs lk tid d h s = logger_init_fd G fd lv rs bs lk tid d h s"
    for fd lv rs bs lk tid d h s
    unfolding logger_init_fd_def sel ..
  have "logger_init_file (reporting G wr) f lv rs bs lk tid d h s = logger_init_file G f lv rs bs lk tid d h s"
    for f lv rs bs lk tid d h s
    unfolding logger_init_file_def sel p i ..
  moreover have "logger_close (reporting G wr) s = logger_close G s" unfolding logger_close_def sel reporting_ops ..
  ultimately show ?thesis using i by (cases c) simp_all
qed

lemma reporting_session: "session log (reporting G wr) cs s = session log G cs s"
  by (induction cs arbitrary: s) (simp_all add: reporting_do cong: bindS_cong)

text \<open>
C36: The copies of the logger in the Boost programs are equivalent to the original: whatever sequence of calls a program makes, openings, lines with their rotations, reloads and closings, on the copy, it has the effect it has on the original with a write that reports its failures; and where every write succeeds, the effect it has on the original.
\<close>

theorem logger_copies_sessions:
  "session (copy_log G wr) G cs s = session (logger_log (reporting G wr)) (reporting G wr) cs s \<and>
   ((\<forall>fd t k. 0 < fst (wr fd t k)) \<longrightarrow>
      session (copy_log G wr) G cs s = session (logger_log (G\<lparr>g_write := (\<lambda>fd t k. snd (wr fd t k))\<rparr>)) G cs s)"
proof -
  have "copy_log G wr = logger_log (reporting G wr)" by (intro ext) (rule logger_copies_equivalent [THEN conjunct1])
  moreover have "copy_log G wr = logger_log (G\<lparr>g_write := (\<lambda>fd t k. snd (wr fd t k))\<rparr>)" if "\<forall>fd t k. 0 < fst (wr fd t k)"
    by (intro ext) (rule mp [OF logger_copies_equivalent [THEN conjunct2] that])
  ultimately show ?thesis using reporting_session by metis
qed

definition disk_write_ret :: "int \<Rightarrow> string \<Rightarrow> disk \<Rightarrow> int \<times> disk" where
  "disk_write_ret fd t d = (int (List.length t) + 1, disk_write fd t d)"

lemma disk_plain: "diskG\<lparr>g_write := (\<lambda>fd t k. snd (disk_write_ret fd t k))\<rparr> = diskG"
  by (simp add: diskG_def disk_write_ret_def)

theorem logger_copies_equivalent_witness:
  "copy_log diskG disk_write_ret LEVEL_INFO ''a.cpp'' 7 ''hello'' (line_log, line_disk []) =
     logger_log diskG LEVEL_INFO ''a.cpp'' 7 ''hello'' (line_log, line_disk [])"
proof -
  have "\<forall>fd t k. 0 < fst (disk_write_ret fd t k)" by (simp add: disk_write_ret_def)
  then show ?thesis
    using logger_copies_equivalent [of diskG disk_write_ret LEVEL_INFO "''a.cpp''" 7 "''hello''" "(line_log, line_disk [])"]
    unfolding disk_plain by metis
qed

theorem logger_copies_sessions_witness:
  "session (copy_log diskG disk_write_ret) diskG [Op_log LEVEL_INFO ''a.cpp'' 7 ''hello'', Op_reload True False, Op_close] (line_log, line_disk []) =
     session (logger_log diskG) diskG [Op_log LEVEL_INFO ''a.cpp'' 7 ''hello'', Op_reload True False, Op_close] (line_log, line_disk [])"
proof -
  have "\<forall>fd t k. 0 < fst (disk_write_ret fd t k)" by (simp add: disk_write_ret_def)
  then show ?thesis using logger_copies_sessions [of diskG disk_write_ret] unfolding disk_plain by metis
qed

end
