(* ===== verification/WinLogger.thy ===== *)
theory WinLogger
  imports CText
begin

text \<open>
  The Windows version of the logger (aio/cpl/cpl_log.h under \<open>WIN32\<close>): the same interface over
  handles, critical sections and the bounds-checked C functions, whose failed checks end the
  program in the invalid parameter handler. The Windows API is the parameter \<open>winos\<close>; a
  \<open>HANDLE\<close> is an integer, null is 0 and \<open>INVALID_HANDLE_VALUE\<close> is -1. The build is the 64-bit
  one, as to the size of \<open>size_t\<close>.
\<close>

section \<open>Data\<close>

definition WIN_BUFFER_SIZE :: nat where "WIN_BUFFER_SIZE = 8192"
definition WIN_MAX_FILENAME :: nat where "WIN_MAX_FILENAME = 256"
definition MAX_PATH :: nat where "MAX_PATH = 260"
definition INVALID_HANDLE_VALUE :: int where "INVALID_HANDLE_VALUE = -1"
definition INVALID_FILE_SIZE :: "32 word" where "INVALID_FILE_SIZE = 0xFFFFFFFF"
definition INVALID_FILE_ATTRIBUTES :: "32 word" where "INVALID_FILE_ATTRIBUTES = 0xFFFFFFFF"
definition FILE_ATTRIBUTE_DIRECTORY :: "32 word" where "FILE_ATTRIBUTE_DIRECTORY = 16"

record systemtime =
  wYear :: "16 word"
  wMonth :: "16 word"
  wDay :: "16 word"
  wHour :: "16 word"
  wMinute :: "16 word"
  wSecond :: "16 word"

record win_logger =
  w_logFile :: string
  w_hFile :: int
  w_level :: int
  w_rotateSize :: "64 word"
  w_enableLock :: bool
  w_enableTid :: bool
  w_daily :: bool
  w_hourly :: bool
  w_prev :: systemtime

text \<open>
  \<open>a_full_path\<close> is \<open>GetFullPathName\<close> with the size of the array: its result and the text it
  leaves there. \<open>a_file_size\<close> is the low part of the size.
\<close>

record 'k winos =
  a_now :: "'k \<Rightarrow> systemtime \<times> 'k"
  a_pid :: nat
  a_tid :: nat
  a_create :: "string \<Rightarrow> 'k \<Rightarrow> int \<times> 'k"
  a_close :: "int \<Rightarrow> 'k \<Rightarrow> 'k"
  a_write :: "int \<Rightarrow> string \<Rightarrow> 'k \<Rightarrow> 'k"
  a_file_size :: "int \<Rightarrow> 'k \<Rightarrow> 32 word"
  a_attributes :: "string \<Rightarrow> 'k \<Rightarrow> 32 word"
  a_full_path :: "string \<Rightarrow> nat \<Rightarrow> 'k \<Rightarrow> 32 word \<times> string"
  a_move :: "string \<Rightarrow> string \<Rightarrow> 'k \<Rightarrow> 'k"
  a_cs_init :: "'k \<Rightarrow> 'k"
  a_cs_delete :: "'k \<Rightarrow> 'k"
  a_cs_enter :: "'k \<Rightarrow> 'k"
  a_cs_leave :: "'k \<Rightarrow> 'k"
  a_last_error :: "'k \<Rightarrow> 32 word"
  a_format_message :: "32 word \<Rightarrow> 'k \<Rightarrow> string \<times> 'k"
  a_local_free :: "'k \<Rightarrow> 'k"
  a_eprint :: "string \<Rightarrow> 'k \<Rightarrow> 'k"
  a_junk :: "nat \<Rightarrow> char"

type_synonym 'k wstate = "win_logger \<times> 'k"

definition win_new :: win_logger where
  "win_new =
     \<lparr>w_logFile = [], w_hFile = 0, w_level = 1, w_rotateSize = 0, w_enableLock = False, w_enableTid = False,
      w_daily = False, w_hourly = False,
      w_prev = \<lparr>wYear = -1, wMonth = -1, wDay = -1, wHour = -1, wMinute = -1, wSecond = -1\<rparr>\<rparr>"

section \<open>Opening and closing\<close>

text \<open>\<open>_getLastErrorAsString\<close>: the message buffer is allocated by the system and given back.\<close>

definition win_getLastErrorAsString :: "'k winos \<Rightarrow> 'k \<Rightarrow> string \<times> 'k" where
  "win_getLastErrorAsString A k =
     (if a_last_error A k = 0 then ([], k)
      else case a_format_message A (a_last_error A k) k of (message, k) \<Rightarrow> (message, a_local_free A k))"

definition win_getAbsFilePath :: "'k winos \<Rightarrow> string \<Rightarrow> 'k wstate \<Rightarrow> text_fault + bool \<times> 'k wstate" where
  "win_getAbsFilePath A path = (\<lambda>(l, k).
     let finish = (\<lambda>logDir filename.
       case a_full_path A logDir MAX_PATH k of (ret, realDir) \<Rightarrow>
         if ret = 0 then Inr (False, l, k)
         else if a_attributes A realDir k \<noteq> FILE_ATTRIBUTE_DIRECTORY
         then Inr (False, l, snd (win_getLastErrorAsString A k))
         else Inr (True, l\<lparr>w_logFile := realDir @ [CHR 0x5C] @ filename\<rparr>, k))
     in if MAX_PATH \<le> List.length path then Inl Invalid_parameter
        else let logFile = map (\<lambda>c. if c = CHR ''/'' then CHR 0x5C else c) path
          in case strrchr logFile (CHR 0x5C) of
               None \<Rightarrow>
                 if logFile = ''.'' \<or> logFile = ''..'' then Inr (False, l, k) else finish ''.'' logFile
             | Some eod \<Rightarrow>
                 let filename = drop (eod + 1) logFile
                 in if filename = [] \<or> filename = ''.'' \<or> filename = ''..'' then Inr (False, l, k)
                    else finish (take eod logFile) filename)"

definition win_init ::
  "'k winos \<Rightarrow> string \<Rightarrow> int \<Rightarrow> 64 word \<Rightarrow> bool \<Rightarrow> bool \<Rightarrow> bool \<Rightarrow> bool \<Rightarrow> 'k wstate \<Rightarrow> text_fault + bool \<times> 'k wstate" where
  "win_init A logFile level rotateSize enableLock enableTid daily hourly s =
     bindS (win_getAbsFilePath A logFile s) (\<lambda>(b, l, k).
     if \<not> b then Inr (False, l, a_eprint A (printf ''_checkDirectory(%s) failed'' [FS logFile] @ [CHR 0x0D, CHR 0x0A]) k)
     else case a_create A logFile k of (h, k) \<Rightarrow>
       let l = l\<lparr>w_hFile := h\<rparr>
       in if h = INVALID_HANDLE_VALUE then Inr (False, l, k)
          else let l = l\<lparr>w_level := level, w_rotateSize := rotateSize, w_enableLock := enableLock,
                         w_enableTid := enableTid, w_daily := daily, w_hourly := hourly\<rparr>
            in Inr (True, l, if enableLock then a_cs_init A k else k))"

definition win_close :: "'k winos \<Rightarrow> 'k wstate \<Rightarrow> 'k wstate" where
  "win_close A = (\<lambda>(l, k).
     let (l, k) = (if w_logFile l \<noteq> [] \<and> w_hFile l \<noteq> 0
                   then (l\<lparr>w_hFile := 0, w_logFile := []\<rparr>, a_close A (w_hFile l) k) else (l, k))
     in (l, if w_enableLock l then a_cs_delete A k else k))"

definition win_reload :: "bool \<Rightarrow> bool \<Rightarrow> win_logger \<Rightarrow> win_logger" where
  "win_reload daily hourly l = l\<lparr>w_daily := daily, w_hourly := hourly\<rparr>"

section \<open>Rotation\<close>

definition win_copyTm :: "systemtime \<Rightarrow> win_logger \<Rightarrow> win_logger" where
  "win_copyTm now l =
     l\<lparr>w_prev := (w_prev l)\<lparr>wYear := wYear now, wMonth := wMonth now, wDay := wDay now,
                            wHour := wHour now, wMinute := wMinute now, wSecond := wSecond now\<rparr>\<rparr>"

definition win_rotated_name :: "string \<Rightarrow> systemtime \<Rightarrow> string" where
  "win_rotated_name logFile now =
     logFile @ ''.'' @ pad0 4 (uint (wYear now)) @ pad0 2 (uint (wMonth now)) @ pad0 2 (uint (wDay now)) @
     ''.'' @ pad0 2 (uint (wHour now)) @ pad0 2 (uint (wMinute now)) @ pad0 2 (uint (wSecond now))"

definition win_rotate :: "'k winos \<Rightarrow> systemtime \<Rightarrow> 'k wstate \<Rightarrow> text_fault + 'k wstate" where
  "win_rotate A now = (\<lambda>(l, k).
     let k = a_close A (w_hFile l) k
     in bindS (snprintf_s_at (fresh_buf (a_junk A) (WIN_MAX_FILENAME + 1)) 0 (WIN_MAX_FILENAME + 1) (win_rotated_name (w_logFile l) now))
          (\<lambda>newLogFile.
        bindS (if a_attributes A (cstr newLogFile) k \<noteq> INVALID_FILE_ATTRIBUTES
               then strcat_s_at newLogFile 0 (WIN_MAX_FILENAME + 1) ''.1'' else Inr newLogFile)
          (\<lambda>newLogFile.
        let k = a_move A (w_logFile l) (cstr newLogFile) k
        in case a_create A (w_logFile l) k of (h, k) \<Rightarrow>
          Inr (l\<lparr>w_hFile := h\<rparr>,
               if h = INVALID_HANDLE_VALUE
               then (case win_getLastErrorAsString A k of (err, k) \<Rightarrow>
                 a_eprint A (printf ''::open failed [%s][%s]'' [FS (w_logFile l), FS err] @ [CHR 0x0A]) k)
               else k))))"

definition win_checkRotate :: "'k winos \<Rightarrow> systemtime \<Rightarrow> 'k wstate \<Rightarrow> text_fault + 'k wstate" where
  "win_checkRotate A now = (\<lambda>(l, k).
     let prev = w_prev l;
         copied = (\<lambda>(l, k). Inr (win_copyTm now l, k))
     in if w_logFile l = [] \<or> (w_rotateSize l = 0 \<and> \<not> w_daily l \<and> \<not> w_hourly l) then Inr (l, k)
        else if w_hourly l \<and> wHour prev \<noteq> -1 \<and>
          (wYear prev \<noteq> wYear now \<or> wMonth prev \<noteq> wMonth now \<or> wDay prev \<noteq> wDay now \<or> wHour prev \<noteq> wHour now)
        then bindS (win_rotate A prev (l, k)) copied
        else if \<not> w_hourly l \<and> w_daily l \<and> wDay prev \<noteq> -1 \<and>
          (wYear prev \<noteq> wYear now \<or> wMonth prev \<noteq> wMonth now \<or> wDay prev \<noteq> wDay now)
        then bindS (win_rotate A prev (l, k)) copied
        else let fileSize = a_file_size A (w_hFile l) k
          in if fileSize = INVALID_FILE_SIZE
             then (case win_getLastErrorAsString A k of (err, k) \<Rightarrow>
               Inr (l, a_eprint A (printf ''::stat failed [%s][%s]'' [FS (w_logFile l), FS err] @ [CHR 0x0A]) k))
             else bindS (if uint (w_rotateSize l) < uint fileSize then win_rotate A now (l, k) else Inr (l, k)) copied)"

section \<open>Writing\<close>

definition win_write :: "'k winos \<Rightarrow> string \<Rightarrow> systemtime option \<Rightarrow> 'k wstate \<Rightarrow> text_fault + 'k wstate" where
  "win_write A text now = (\<lambda>(l, k).
     let k = (if w_enableLock l then a_cs_enter A k else k);
         (t, k) = (case now of None \<Rightarrow> a_now A k | Some t \<Rightarrow> (t, k))
     in bindS (win_checkRotate A t (l, k)) (\<lambda>(l, k).
        let k = a_write A (w_hFile l) text k
        in Inr (l, if w_enableLock l then a_cs_leave A k else k)))"

definition win_level_str :: "int \<Rightarrow> string" where
  "win_level_str level =
     (if level = 0 then ''TRC'' else if level = 1 then ''DBG''
      else if level = 2 then ''INF'' else if level = 3 then ''ERR'' else ''UKN'')"

definition win_header :: "nat \<Rightarrow> string \<Rightarrow> int \<Rightarrow> systemtime \<Rightarrow> string \<Rightarrow> int \<Rightarrow> string" where
  "win_header pid tid level now file line =
     show_nat pid @ tid @ ''|'' @ win_level_str level @ ''|'' @
     pad0 4 (uint (wYear now)) @ ''-'' @ pad0 2 (uint (wMonth now)) @ ''-'' @ pad0 2 (uint (wDay now)) @ '' '' @
     pad0 2 (uint (wHour now)) @ '':'' @ pad0 2 (uint (wMinute now)) @ '':'' @ pad0 2 (uint (wSecond now)) @ ''| '' @
     file @ ''('' @ show_int line @ ''): ''"

definition win_tid_text :: "'k winos \<Rightarrow> win_logger \<Rightarrow> string" where
  "win_tid_text A l =
     cstr (if w_enableTid l then snprintf_at (replicate 20 NUL) 0 20 (''|'' @ show_nat (a_tid A)) else replicate 20 NUL)"

definition win_log :: "'k winos \<Rightarrow> int \<Rightarrow> string \<Rightarrow> int \<Rightarrow> string \<Rightarrow> 'k wstate \<Rightarrow> text_fault + 'k wstate" where
  "win_log A level file line msg = (\<lambda>(l, k).
     if level < w_level l then Inr (l, k)
     else if w_hFile l = 0 then Inr (l, a_eprint A (''Logger not initialized'' @ [CHR 0x0D, CHR 0x0A]) k)
     else
       let (now, k) = a_now A k
       in bindS (snprintf_s_at (fresh_buf (a_junk A) WIN_BUFFER_SIZE) 0 WIN_BUFFER_SIZE
                   (win_header (a_pid A) (win_tid_text A l) level now file line)) (\<lambda>buf.
          let bufLen = strlen_at buf 0
          in bindS (snprintf_s_at buf bufLen (WIN_BUFFER_SIZE - bufLen - 1) msg) (\<lambda>buf.
          let bufLen = bufLen + strlen_at buf bufLen
          in bindS (strcat_s_at buf bufLen (List.length buf - bufLen) [CHR 0x0A]) (\<lambda>buf.
             win_write A (take (bufLen + 1) buf) (Some now) (l, k)))))"

section \<open>The line\<close>

interpretation win_line: line_maker snprintf_s_at "\<lambda>b off. strcat_s_at b off (List.length b - off) [CHR 0x0A]" Invalid_parameter
  by unfold_locales (auto simp: snprintf_s_at_def strcat_s_at_def)

lemma win_header_no_NUL: "NUL \<notin> set file \<Longrightarrow> NUL \<notin> set (win_header pid (win_tid_text A l) level now file line)"
proof -
  have "NUL \<notin> set (win_level_str level)" by (simp add: win_level_str_def char_of_def)
  moreover have "NUL \<notin> set (win_tid_text A l)" by (auto simp: win_tid_text_def cstr_def dest: set_takeWhileD)
  moreover assume "NUL \<notin> set file"
  ultimately show ?thesis using show_int_no_NUL show_nat_no_NUL pad0_no_NUL
    by (simp add: win_header_def) (simp add: char_of_def)
qed

text \<open>
C39: The Windows logger writes the same line, cut to its array; a header that fills the array ends the program in the invalid parameter handler, and nothing is stored past the end.
\<close>

theorem win_log_line:
  assumes "w_level l \<le> level" and "w_hFile l \<noteq> 0" and "NUL \<notin> set file" and "NUL \<notin> set msg" and "a_now A k = (now, k')"
    and "h = win_header (a_pid A) (win_tid_text A l) level now file line"
  shows "win_log A level file line msg (l, k) =
    (if List.length h + 1 < WIN_BUFFER_SIZE
     then win_write A (h @ take (WIN_BUFFER_SIZE - List.length h - 2) msg @ [CHR 0x0A]) (Some now) (l, k')
     else Inl Invalid_parameter)"
proof -
  have h: "NUL \<notin> set h" unfolding assms(6) by (rule win_header_no_NUL [OF assms(3)])
  have N: "0 < WIN_BUFFER_SIZE" by (simp add: WIN_BUFFER_SIZE_def)
  show ?thesis
    using assms(1,2,5) win_line.line [OF h assms(4) length_fresh_buf N, of _ "\<lambda>t. win_write A t (Some now) (l, k')"]
    by (simp add: win_log_def Let_def win_line.fmt_room [OF N] assms(6) [symmetric])
qed

definition new_year :: systemtime where
  "new_year = \<lparr>wYear = 2024, wMonth = 1, wDay = 2, wHour = 12, wMinute = 0, wSecond = 0\<rparr>"

text \<open>A Windows file system in memory, with one handle.\<close>

record win_disk =
  wd_files :: "string \<rightharpoonup> string"
  wd_handles :: "int \<rightharpoonup> string \<times> nat"

definition wd_create :: "string \<Rightarrow> win_disk \<Rightarrow> int \<times> win_disk" where
  "wd_create p d = (4, d\<lparr>wd_files := (wd_files d)(p \<mapsto> (case wd_files d p of None \<Rightarrow> [] | Some t \<Rightarrow> t)),
     wd_handles := (wd_handles d)(4 \<mapsto> (p, 0))\<rparr>)"

definition wd_write :: "int \<Rightarrow> string \<Rightarrow> win_disk \<Rightarrow> win_disk" where
  "wd_write h s d =
     (case wd_handles d h of None \<Rightarrow> d
      | Some (p, n) \<Rightarrow> let t = (case wd_files d p of None \<Rightarrow> [] | Some t \<Rightarrow> t)
          in d\<lparr>wd_files := (wd_files d)(p \<mapsto> take n t @ s @ drop (n + List.length s) t),
               wd_handles := (wd_handles d)(h \<mapsto> (p, n + List.length s))\<rparr>)"

definition diskA :: "win_disk winos" where
  "diskA = \<lparr>a_now = (\<lambda>d. (new_year, d)), a_pid = 7, a_tid = 1, a_create = wd_create,
     a_close = (\<lambda>h d. d\<lparr>wd_handles := (wd_handles d)(h := None)\<rparr>), a_write = wd_write,
     a_file_size = (\<lambda>h d. case wd_handles d h of None \<Rightarrow> INVALID_FILE_SIZE
       | Some (p, _) \<Rightarrow> (case wd_files d p of None \<Rightarrow> INVALID_FILE_SIZE | Some t \<Rightarrow> of_nat (List.length t))),
     a_attributes = (\<lambda>p d. if p = ''D'' then FILE_ATTRIBUTE_DIRECTORY else INVALID_FILE_ATTRIBUTES),
     a_full_path = (\<lambda>_ _ _. (1, ''D'')), a_move = (\<lambda>_ _ d. d), a_cs_init = id, a_cs_delete = id, a_cs_enter = id,
     a_cs_leave = id, a_last_error = (\<lambda>_. 0), a_format_message = (\<lambda>_ d. ([], d)), a_local_free = id,
     a_eprint = (\<lambda>_ d. d), a_junk = (\<lambda>_. CHR ''x'')\<rparr>"

theorem win_log_line_witness:
  "win_log diskA 2 (replicate 9000 (CHR ''f'')) 9 ''hi'' (win_new\<lparr>w_hFile := 4\<rparr>, \<lparr>wd_files = Map.empty, wd_handles = Map.empty\<rparr>) =
     Inl Invalid_parameter"
proof -
  let ?d = "\<lparr>wd_files = Map.empty, wd_handles = Map.empty\<rparr>" and ?f = "replicate 9000 (CHR ''f'')"
  have "\<not> List.length (win_header 7 (win_tid_text diskA (win_new\<lparr>w_hFile := 4\<rparr>)) 2 new_year ?f 9) + 1 < WIN_BUFFER_SIZE"
    by (simp add: win_header_def WIN_BUFFER_SIZE_def)
  then show ?thesis
    using win_log_line [of "win_new\<lparr>w_hFile := 4\<rparr>" 2 ?f "''hi''" diskA ?d new_year ?d _ 9]
    by (simp add: diskA_def win_new_def char_of_def)
qed

section \<open>Files\<close>

text \<open>The contents of the files, and for each open handle its file and its position.\<close>

record 'k winfs =
  wf_files :: "'k \<Rightarrow> string \<rightharpoonup> string"
  wf_handles :: "'k \<Rightarrow> int \<rightharpoonup> string \<times> nat"

text \<open>
  \<open>CreateFile\<close> with \<open>OPEN_ALWAYS\<close> keeps the contents and starts at position 0; \<open>WriteFile\<close>
  replaces what is at the position.
\<close>

definition winfs_laws :: "'k winos \<Rightarrow> 'k winfs \<Rightarrow> bool" where
  "winfs_laws A F \<longleftrightarrow>
     (\<forall>p k h k'. a_create A p k = (h, k') \<and> h \<noteq> INVALID_HANDLE_VALUE \<longrightarrow> wf_handles F k' h = Some (p, 0) \<and>
        wf_files F k' = (wf_files F k)(p \<mapsto> (case wf_files F k p of None \<Rightarrow> [] | Some t \<Rightarrow> t))) \<and>
     (\<forall>h s k p n t. wf_handles F k h = Some (p, n) \<and> wf_files F k p = Some t \<longrightarrow>
        wf_files F (a_write A h s k) = (wf_files F k)(p \<mapsto> take n t @ s @ drop (n + List.length s) t) \<and>
        wf_handles F (a_write A h s k) = (wf_handles F k)(h \<mapsto> (p, n + List.length s)))"

lemma win_path_state:
  assumes "win_getAbsFilePath A path (l, k) = Inr (True, l', k')"
  shows "k' = k \<and> l' = l\<lparr>w_logFile := w_logFile l'\<rparr>"
  using assms by (auto simp: win_getAbsFilePath_def Let_def split: if_splits option.splits prod.splits)

lemma win_init_state:
  assumes "win_init A path level rotateSize lock tid daily hourly (l, k) = Inr (True, l', k')"
  shows "\<exists>h k1. a_create A path k = (h, k1) \<and> h \<noteq> INVALID_HANDLE_VALUE \<and> w_hFile l' = h \<and>
    k' = (if lock then a_cs_init A k1 else k1) \<and> w_enableLock l' = lock \<and>
    w_rotateSize l' = rotateSize \<and> w_daily l' = daily \<and> w_hourly l' = hourly \<and> w_enableTid l' = tid \<and> w_level l' = level"
proof -
  obtain b l1 k1 where a: "win_getAbsFilePath A path (l, k) = Inr (b, l1, k1)"
    using assms by (cases "win_getAbsFilePath A path (l, k)") (auto simp: win_init_def)
  have b: "b" using assms a by (auto simp: win_init_def split: if_splits)
  then have k1: "k1 = k" using win_path_state [of A path l k l1 k1] a by simp
  obtain h k2 where c: "a_create A path k = (h, k2)" by fastforce
  show ?thesis using assms a b k1 c by (auto simp: win_init_def Let_def split: if_splits)
qed

text \<open>
C40: Opening an existing log file does not append to it: the first line written replaces the beginning of what the file held.
\<close>

theorem win_reopen_overwrites:
  assumes "winfs_laws A F" and "win_init A path level 0 False tid False False (l, k) = Inr (True, l1, k1)"
    and "wf_files F k path = Some t"
  shows "\<exists>k2. win_write A line (Some now) (l1, k1) = Inr (l1, k2) \<and>
    wf_files F k2 path = Some (line @ drop (List.length line) t)"
proof -
  obtain h where c: "a_create A path k = (h, k1)" "h \<noteq> INVALID_HANDLE_VALUE" "w_hFile l1 = h"
    and cfg: "\<not> w_enableLock l1" "w_rotateSize l1 = 0" "\<not> w_daily l1" "\<not> w_hourly l1"
    using win_init_state [OF assms(2)] by auto
  have f: "wf_handles F k1 h = Some (path, 0)" "wf_files F k1 path = Some t"
    using assms(1,3) c(1,2) unfolding winfs_laws_def by auto
  have "wf_files F (a_write A h line k1) = (wf_files F k1)(path \<mapsto> take 0 t @ line @ drop (0 + List.length line) t)"
    using assms(1) f unfolding winfs_laws_def by blast
  moreover have "win_write A line (Some now) (l1, k1) = Inr (l1, a_write A h line k1)"
    using cfg c(3) by (simp add: win_write_def win_checkRotate_def)
  ultimately show ?thesis by simp
qed

theorem win_reopen_overwrites_witness:
  "\<exists>l1 k1 k2. win_init diskA ''a.log'' 2 0 False False False False
       (win_new, \<lparr>wd_files = [''a.log'' \<mapsto> ''yesterday''], wd_handles = Map.empty\<rparr>) = Inr (True, l1, k1) \<and>
     win_write diskA ''now '' (Some new_year) (l1, k1) = Inr (l1, k2) \<and> wd_files k2 ''a.log'' = Some ''now erday''"
proof -
  let ?d = "\<lparr>wd_files = [''a.log'' \<mapsto> ''yesterday''], wd_handles = Map.empty\<rparr>"
  let ?F = "\<lparr>wf_files = wd_files, wf_handles = wd_handles\<rparr>"
  have L: "winfs_laws diskA ?F"
    by (auto simp: winfs_laws_def diskA_def wd_create_def wd_write_def)
  have n: "strrchr ''a.log'' (CHR 0x5C) = None" by (simp add: strrchr_def)
  obtain l1 k1 where i: "win_init diskA ''a.log'' 2 0 False False False False (win_new, ?d) = Inr (True, l1, k1)"
    by (simp add: win_init_def win_getAbsFilePath_def diskA_def wd_create_def Let_def MAX_PATH_def n INVALID_HANDLE_VALUE_def)
  have "wf_files ?F ?d ''a.log'' = Some ''yesterday''" by simp
  from win_reopen_overwrites [OF L i this, of "''now ''" new_year] i show ?thesis by auto
qed

end
