(* ===== verification/Spec2Isabelle.thy ===== *)
theory Spec2Isabelle
  imports WakeupProperties EchoLink LoopProperties TransportProperties MemoryPool LoggerCopies WinLogger
begin

text \<open>
  A verification of the C++ part of this repository: the proactor library (src/aio/unix), the echo
  server built on it (src/aio/echo), the object pool and the logger that come with them
  (src/aio/unix/memorypool.h, src/aio/cpl/cpl_log.h), the two echo servers on Boost.Asio that it is
  compared with (src/boost/test.cpp, src/boost_coro/test.cpp), and the load generator that drives
  all of them (src/tester/test.cpp). The other directories hold echo servers in other languages.

  \<^bold>\<open>The program.\<close> A \<open>Proactor\<close> waits for readiness with epoll or kqueue and turns it into
  completed requests. A \<open>Socket\<close> has a read token and a write token; a request (\<open>readSome\<close>,
  \<open>readAll\<close>, \<open>writeAll\<close>) stores its buffer and callback in a token and tries the system call at
  once. A token whose request is finished is linked into the completion queue, one that waits may be
  armed in the ordered timer list. The loop of \<open>run\<close> waits, gives each event to its handler, drains
  the completion queue into the callbacks, and then expires timers. Callbacks re-enter the library:
  they start the next request, or delete their own object. An \<open>Acceptor\<close> accepts until there is
  nothing left and calls back for each connection. The echo server makes an \<open>EchoClient\<close> for each,
  which reads, writes back what it read, reads again, and deletes itself on an error, a timeout or
  the end of the stream. The Boost servers do the same, one with callbacks, one with stackless
  coroutines. The load generator connects a number of clients, lets each write a message and read it
  back until the time is up, and reports how many round trips succeeded.

  \<^bold>\<open>How it is modelled.\<close> The state of the library is one record \<open>world\<close> (theory Proactor): the
  tokens of all sockets in one store, so that the links of the completion queue are pointers that
  alias; the descriptors of the live sockets; the acceptors; the memory of the buffers; the members
  of the \<open>Proactor\<close>; and the state \<open>os\<close> of the operating system. The system calls are a record of
  functions on that state (theory Kernel), so the operating system is a parameter, and what is known
  of it is a hypothesis (theory Environment, from the documentation of the calls). A destroyed
  socket is removed from the stores, and using it is the fault \<open>Dangling\<close>; following a null pointer
  and calling an empty \<open>boost::function\<close> are faults as well. Operations that can fault return
  \<open>fault + 'a\<close>. Loops whose end depends on callbacks or the system are \<open>partial_function (option)\<close>:
  \<open>None\<close> is a loop that does not end. The Boost programs extend one record \<open>io\<close> (theory Asio), the
  \<open>io_service\<close> with the operations that are outstanding; Boost.Asio itself is a parameter that picks
  the next completion, and what its documentation promises is the hypothesis \<open>asio_laws\<close>.

  \<^bold>\<open>The theories, in the order of the code.\<close>
  \<^item> Prelude: faults, sequencing, C strings, \<open>printf\<close>, memory. Errors: \<open>aio::Error\<close>.
    Timers: \<open>timeval\<close>, the \<open>std::set\<close> ordered by deadline, and its contract as the locale
    \<open>timer_set\<close>. Kernel: the system calls.
  \<^item> TokenQueue: \<open>Token\<close>, \<open>_enqueue\<close>, \<open>_remove\<close>, the queue as a first-in first-out list
    (\<open>queue_ok\<close>, locale \<open>fifo_queue\<close>).
  \<^item> Proactor: the state, timers, \<open>_processCompletion\<close>, \<open>_processTimer\<close>, the well-formedness
    \<open>wf\<close> of states and the abstract \<open>view\<close> of a token (without its links).
  \<^item> Sockets, SocketRequests, SocketEvents: \<open>Socket\<close>, and what its requests and events do to the
    view. Acceptors: \<open>Acceptor\<close>. Epoll, Kqueue: the two versions of \<open>create\<close>, \<open>run\<close>, \<open>_register\<close>
    and \<open>_remove\<close>. Poller: their common contract (locale \<open>poller\<close>), interpreted for both, and the
    life of a socket over it. Signals: signal.cpp. EchoServer: main.cpp, whose start and whose body
    are \<open>main_startup\<close> and \<open>main_program\<close> over a poller, with the epoll and the kqueue build as
    instances.
  \<^item> Client: what a program owes the loops (locale \<open>proactor_client\<close>) and what it gets from them;
    ClientTotal: when the loops end (locale \<open>ending_client\<close>). EchoInvariant, EchoSteps, EchoEvents,
    EchoAccept: the invariant \<open>core\<close> of the echo server and its preservation by every callback, over
    any poller (locale \<open>echo_poller\<close>). EchoServing: the server meets the loops; start, reachable
    states and end of a build (locale \<open>echo_build\<close>, interpreted for both). EchoBudget: a measure that
    every completion lowers (locale \<open>ending_client\<close>). EchoTermination: no step adds to what the system
    has left, which makes the invariant with that bound a second instance of \<open>proactor_client\<close>; so
    the loops and the program end. EchoTimers: what the timer loop does to the clients. EchoWakeups: the
    edges of edge-triggered readiness, seen through an observer (\<open>edge_laws\<close>), and a third instance of
    \<open>proactor_client\<close> that follows which clients are armed while a batch of events is handled.
    Simulation, SimulationBudget, SimulationWaits: a concrete operating system that satisfies every
    hypothesis, on which the witnesses run.
  \<^item> EchoService: what an echo server promises on a connection (locale \<open>echo_service\<close>) and what its
    peer may conclude. The aio server on both pollers, and both Boost servers, are shown to give it.
  \<^item> Asio: what the programs use of Boost.Asio; AsioScript: a concrete library that obeys the laws.
    BoostEcho: boost/test.cpp. BoostCoro: boost_coro/test.cpp, a coroutine being the \<open>yield\<close> it
    stands at. CoroInvariant: the invariant of the coroutine server. BoostEquivalence: the simulation
    between the two servers. Tester: tester/test.cpp; TesterInvariant: its invariant and its exact
    counters. EchoLink: the load generator connected to the aio server.
  \<^item> MemoryPool: \<open>pool_base\<close>, \<open>memory_pool\<close>, the contract of a pool of objects (locale \<open>object_pool\<close>).
  \<^item> CText: C text arrays with their bounds, and how both loggers build a line (locale
    \<open>line_maker\<close>). Logger, LoggerLines: the POSIX logger and its effect on files. LoggerCopies: the
    copies in src/boost, src/boost_coro and src/tester, which look at the result of \<open>::write\<close>.
    WinLogger: the Windows logger.

  \<^bold>\<open>What is shown.\<close> EchoProperties: on every connection what was sent back is a prefix of what was
  received and the rest is at most one buffer; no reachable state leads to a fault; every round ends
  when the peers send finitely much; a readiness event is served completely; the timer loop
  disconnects the overdue clients and no others; the program ends, and how, when a signal comes after
  finitely many waits. WakeupProperties: with the edge-triggered
  registrations of the epoll build no client waits on a descriptor that is ready and will not be
  reported. KqueueServing: safety and termination on the kqueue build. BoostProperties: the two Boost servers are equivalent until the callback server goes wrong,
  the coroutine server never does, the counters of the load generator are exact, and how each program
  ends, given that the library delivers finitely many completions. EchoLink: through a network that keeps the order of bytes, what the load generator counts
  against the aio server are round trips of its own data. TransportProperties: the outcome of each
  request and event, on every branch. LoopProperties: order and withdrawal of completions, deadlines,
  destruction, registration, listening and accepting, error texts. MemoryPool: objects do not
  overlap, none is lost, the destructor gives everything back. LoggerProperties, WinLogger: the
  exact line and its bounds, what a line does to the files, the size of the log file. LoggerCopies:
  the copies do what the original does, over whole sequences of calls. Several theorems state defects of the code (timers that
  collide, a leaked descriptor, registrations that never ask for writability, array overruns,
  rotation that loses files, a second deletion of failed clients) as the code has them.

  \<^bold>\<open>Bounds.\<close> Counts of bytes and time-outs are \<open>int\<close>: a request is at most the \<open>int\<close> its caller
  passes and a count never exceeds it, so the C++ \<open>int\<close> does not overflow. Sizes of \<open>size_t\<close> that
  the code multiplies, subtracts or compares (memorypool.h, cpl_log.h) are words of 64 bits, the
  fields of \<open>SYSTEMTIME\<close> of 16 and event masks of 32. No fuel is used: the rounds end by the measure
  of EchoBudget, the timer loop because each turn takes a token off the list, the loop of \<open>run\<close>
  because each wait uses up some of a budget (hypothesis \<open>waits_end\<close>), that of the \<open>io_service\<close>
  because the library has finitely many completions to deliver (\<open>delivers_finitely\<close>).

  \<^bold>\<open>Not modelled.\<close> Code under \<open>DEBUG\<close>, the commented-out \<open>connect\<close>, \<open>readv\<close> and \<open>writev\<close> of
  proactor.cpp, the code after \<open>#if 0\<close> of cpl_log.h, and the text the server logs. The library is
  single threaded, and so are the Boost programs; the logger's mutex is a pair of calls. Signals that
  reach the coroutine server or the load generator before \<open>main\<close> has made its service, when the
  pointer their handler follows is null, and the rate the load generator prints, which is a float.
  src/aio/test drives an earlier interface of the library (callback templates that proactor.h no
  longer has) and does not build against the present one. The servers in other languages, the build
  files and the scripts are not modelled.
\<close>

end
